(* ===== verification/Prelude.thy ===== *)
theory Prelude
  imports Main "HOL-Library.Char_ord" "HOL-Library.List_Lexorder" "HOL-Library.Word"
    "HOL-Library.Sublist"
begin

text \<open>
  The vocabulary every component shares: run-time failures of the C++ code as values, the
  sequencing of fallible steps, the fixed-width integers the code computes with, and the
  collections of rules the component proofs are driven by.

  \<^item> A call that can fail returns \<open>cpp_error + 'a\<close>. \<open>NullDeref\<close> is a read or write through a
    null pointer, \<open>OutOfRange\<close> and \<open>InvalidArgument\<close> are the exceptions of \<open>std::string\<close>,
    \<open>std::vector::at\<close>, \<open>std::map::at\<close> and \<open>stoi\<close>, \<open>LengthError\<close> a \<open>resize\<close> to a negative length, \<open>BadAlloc\<close> is an allocation whose size
    wrapped around, \<open>Undefined\<close> is undefined behaviour of the C++ standard, \<open>Exit\<close> is a call of
    \<open>exit\<close>, and \<open>OutOfFuel\<close> says only that the bound put on a loop of the model was too small.
  \<^item> \<open>to_i32\<close> is the conversion to \<open>int\<close> and \<open>to_u64\<close> the conversion to \<open>size_t\<close> on the
    platform the code is built for (32-bit \<open>int\<close>, 64-bit \<open>size_t\<close>).
\<close>

named_theorems res_simps \<open>rules that run a sequence of fallible steps\<close>
named_theorems wf_intros \<open>preservation of the well-formedness invariants\<close>

section \<open>Failures as values\<close>

datatype cpp_error =
    NullDeref
  | OutOfRange
  | InvalidArgument
  | LengthError
  | BadAlloc
  | Undefined
  | Exit int
  | OutOfFuel

type_synonym 'a res = "cpp_error + 'a"

abbreviation Ok :: "'a \<Rightarrow> 'a res" where "Ok \<equiv> Inr"
abbreviation Fail :: "cpp_error \<Rightarrow> 'a res" where "Fail \<equiv> Inl"

definition rbind :: "'a res \<Rightarrow> ('a \<Rightarrow> 'b res) \<Rightarrow> 'b res" where
  "rbind m f = (case m of Inl e \<Rightarrow> Inl e | Inr x \<Rightarrow> f x)"

definition of_option :: "cpp_error \<Rightarrow> 'a option \<Rightarrow> 'a res" where
  "of_option e x = (case x of None \<Rightarrow> Inl e | Some y \<Rightarrow> Inr y)"

lemma rbind_simps [simp, res_simps]:
  "rbind (Inl e) f = Inl e"
  "rbind (Inr x) f = f x"
  by (simp_all add: rbind_def)

lemma of_option_simps [simp, res_simps]:
  "of_option e None = Inl e"
  "of_option e (Some y) = Inr y"
  by (simp_all add: of_option_def)

lemma rbind_eq_Ok: "rbind m f = Inr y \<longleftrightarrow> (\<exists>x. m = Inr x \<and> f x = Inr y)"
  by (cases m) auto

lemma rbind_eq_Fail: "rbind m f = Inl e \<longleftrightarrow> m = Inl e \<or> (\<exists>x. m = Inr x \<and> f x = Inl e)"
  by (cases m) auto

lemma rbind_assoc: "rbind (rbind m f) g = rbind m (\<lambda>x. rbind (f x) g)"
  by (cases m) auto

lemma rbind_cong [fundef_cong]:
  "m = m' \<Longrightarrow> (\<And>x. m' = Inr x \<Longrightarrow> f x = f' x) \<Longrightarrow> rbind m f = rbind m' f'"
  by (cases m') (auto simp: rbind_def)

lemma of_option_eq_Ok [simp]: "of_option e x = Inr y \<longleftrightarrow> x = Some y"
  by (cases x) auto

text \<open>A loop whose body may fail stops at the first failure, as an exception would.\<close>

fun foldr_res :: "('a \<Rightarrow> 's \<Rightarrow> 's res) \<Rightarrow> 'a list \<Rightarrow> 's \<Rightarrow> 's res" where
  "foldr_res f [] s = Inr s"
| "foldr_res f (x # xs) s = rbind (f x s) (foldr_res f xs)"

lemma foldr_res_append:
  "foldr_res f (xs @ ys) s = rbind (foldr_res f xs s) (foldr_res f ys)"
proof (induction xs arbitrary: s)
  case (Cons x xs)
  then show ?case by (cases "f x s") simp_all
qed simp

text \<open>An invariant of the body is an invariant of the loop.\<close>

lemma foldr_res_invariant:
  assumes "foldr_res f xs s = Inr s'" and "I s"
    and "\<And>x s s'. x \<in> set xs \<Longrightarrow> I s \<Longrightarrow> f x s = Inr s' \<Longrightarrow> I s'"
  shows "I s'"
  using assms
proof (induction xs arbitrary: s)
  case Nil
  then show ?case by simp
next
  case (Cons x xs)
  then obtain t where t: "f x s = Inr t" "foldr_res f xs t = Inr s'"
    by (auto simp: rbind_eq_Ok)
  have "I t" using Cons.prems(3) [OF _ Cons.prems(2) t(1)] by simp
  then show ?case by (rule Cons.IH [OF t(2)]) (rule Cons.prems(3), simp_all)
qed

section \<open>Fixed-width integers\<close>

definition to_i32 :: "int \<Rightarrow> int" where
  "to_i32 n = (n + 2 ^ 31) mod 2 ^ 32 - 2 ^ 31"

definition to_u64 :: "int \<Rightarrow> int" where
  "to_u64 n = n mod 2 ^ 64"

definition in_i32 :: "int \<Rightarrow> bool" where
  "in_i32 n \<longleftrightarrow> - (2 ^ 31) \<le> n \<and> n < 2 ^ 31"

text \<open>Signed addition; overflow is undefined behaviour.\<close>

definition i32_add :: "int \<Rightarrow> int \<Rightarrow> int res" where
  "i32_add a b = (if in_i32 (a + b) then Ok (a + b) else Fail Undefined)"

lemma i32_add_Ok [simp]: "in_i32 (a + b) \<Longrightarrow> i32_add a b = Ok (a + b)"
  by (simp add: i32_add_def)

lemma to_i32_id: "in_i32 n \<Longrightarrow> to_i32 n = n"
  by (simp add: to_i32_def in_i32_def)

lemma in_i32_to_i32 [simp]: "in_i32 (to_i32 n)"
proof -
  have "0 \<le> (n + 2 ^ 31) mod 2 ^ 32" "(n + 2 ^ 31) mod 2 ^ 32 < (2 ^ 32 :: int)"
    by simp_all
  then show ?thesis by (simp add: to_i32_def in_i32_def)
qed

lemma to_u64_id: "0 \<le> n \<Longrightarrow> n < 2 ^ 64 \<Longrightarrow> to_u64 n = n"
  by (simp add: to_u64_def)

lemma to_u64_add: "to_u64 (to_u64 a + b) = to_u64 (a + b)"
  by (simp add: to_u64_def mod_add_left_eq)

text \<open>The \<open>char\<close> of the target is signed, so a byte above 127 reads as a negative number.\<close>

definition signed_char :: "char \<Rightarrow> int" where
  "signed_char c = (let n = (of_char c :: int) in if n < 128 then n else n - 256)"

section \<open>Lists\<close>

lemma takeWhile_append_stop:
  "(\<And>x. x \<in> set xs \<Longrightarrow> P x) \<Longrightarrow> (ys = [] \<or> \<not> P (hd ys)) \<Longrightarrow> takeWhile P (xs @ ys) = xs"
  by (cases ys) auto

lemma dropWhile_append_stop:
  "(\<And>x. x \<in> set xs \<Longrightarrow> P x) \<Longrightarrow> (ys = [] \<or> \<not> P (hd ys)) \<Longrightarrow> dropWhile P (xs @ ys) = ys"
  by (cases ys) auto

end
