(* ===== verification/Cpp_Map.thy ===== *)
theory Cpp_Map
  imports Prelude
begin

text \<open>
  \<open>std::map\<close>: a map whose iteration order is the order of its keys. It is modelled by an
  association list kept in strictly increasing key order, so that a range-for loop of the code
  is a recursion over the list. \<open>std::set\<close> is a map to \<open>unit\<close>.

  The interface the components rely on is the locale \<open>ordered_map\<close>; it is interpreted on the
  lists below, and the components use the facts of that interpretation (\<open>om.\<dots>\<close>).
\<close>

section \<open>The interface\<close>

locale ordered_map =
  fixes empty :: "'m"
    and upd :: "'k::linorder \<Rightarrow> 'v \<Rightarrow> 'm \<Rightarrow> 'm"
    and del :: "'k \<Rightarrow> 'm \<Rightarrow> 'm"
    and look :: "'m \<Rightarrow> 'k \<Rightarrow> 'v option"
    and keys :: "'m \<Rightarrow> 'k list"
    and ordered :: "'m \<Rightarrow> bool"
  assumes look_empty: "look empty k = None"
    and look_upd: "look (upd k v m) k' = (if k' = k then Some v else look m k')"
    and look_del: "look (del k m) k' = (if k' = k then None else look m k')"
    and keys_dom: "set (keys m) = {k. look m k \<noteq> None}"
    and ordered_keys: "ordered m \<Longrightarrow> sorted (keys m) \<and> distinct (keys m)"
    and ordered_empty: "ordered empty"
    and ordered_upd: "ordered m \<Longrightarrow> ordered (upd k v m)"
    and ordered_del: "ordered m \<Longrightarrow> ordered (del k m)"
begin

lemma look_upd_same: "look (upd k v m) k = Some v"
  by (simp add: look_upd)

lemma look_upd_other: "k' \<noteq> k \<Longrightarrow> look (upd k v m) k' = look m k'"
  by (simp add: look_upd)

lemma look_fun: "look (upd k v m) = (look m)(k \<mapsto> v)"
  by (auto simp: look_upd)

lemma look_del_fun: "look (del k m) = (look m)(k := None)"
  by (auto simp: look_del)

lemma keys_upd: "set (keys (upd k v m)) = insert k (set (keys m))"
  by (auto simp: keys_dom look_upd)

lemma keys_del: "set (keys (del k m)) = set (keys m) - {k}"
  by (auto simp: keys_dom look_del)

lemma keys_determined:
  assumes "ordered m" and "ordered m'" and "\<And>k. look m k = look m' k"
  shows "keys m = keys m'"
proof -
  have "set (keys m) = set (keys m')"
    using assms(3) by (simp add: keys_dom)
  moreover have "sorted (keys m)" "distinct (keys m)" "sorted (keys m')" "distinct (keys m')"
    using ordered_keys assms(1,2) by blast+
  ultimately show ?thesis by (simp add: sorted_distinct_set_unique)
qed

lemma upd_idem_keys:
  assumes "ordered m" and "look m k = Some v"
  shows "keys (upd k w m) = keys m"
proof -
  have "set (keys (upd k w m)) = set (keys m)"
    unfolding keys_upd using assms(2) by (auto simp: keys_dom)
  moreover have "sorted (keys m)" "distinct (keys m)"
    "sorted (keys (upd k w m))" "distinct (keys (upd k w m))"
    using ordered_keys ordered_upd assms(1) by blast+
  ultimately show ?thesis by (simp add: sorted_distinct_set_unique)
qed

lemma keys_empty: "keys empty = []"
proof -
  have "set (keys empty) = {}" by (simp add: keys_dom look_empty)
  then show ?thesis by simp
qed

end

section \<open>Sorted association lists\<close>

type_synonym ('k, 'v) omap = "('k \<times> 'v) list"

fun oupd :: "'k::linorder \<Rightarrow> 'v \<Rightarrow> ('k, 'v) omap \<Rightarrow> ('k, 'v) omap" where
  "oupd k v [] = [(k, v)]"
| "oupd k v ((a, b) # m) =
     (if k < a then (k, v) # (a, b) # m
      else if k = a then (k, v) # m
      else (a, b) # oupd k v m)"

fun odel :: "'k \<Rightarrow> ('k, 'v) omap \<Rightarrow> ('k, 'v) omap" where
  "odel k [] = []"
| "odel k ((a, b) # m) = (if a = k then odel k m else (a, b) # odel k m)"

abbreviation oget :: "('k, 'v) omap \<Rightarrow> 'k \<Rightarrow> 'v option" where
  "oget \<equiv> map_of"

definition okeys :: "('k, 'v) omap \<Rightarrow> 'k list" where
  "okeys m = map fst m"

definition osorted :: "('k::linorder, 'v) omap \<Rightarrow> bool" where
  "osorted m \<longleftrightarrow> sorted_wrt (<) (map fst m)"

lemma oget_oupd [simp]: "oget (oupd k v m) k' = (if k' = k then Some v else oget m k')"
  by (induction m) auto

lemma oget_odel [simp]: "oget (odel k m) k' = (if k' = k then None else oget m k')"
  by (induction m) auto

lemma set_oupd_keys [simp]: "fst ` set (oupd k v m) = insert k (fst ` set m)"
  by (induction k v m rule: oupd.induct) (simp_all add: insert_commute)

lemma set_odel_keys [simp]: "fst ` set (odel k m) = fst ` set m - {k}"
  by (induction k m rule: odel.induct) (simp_all add: insert_Diff_if)

lemma osorted_Nil [simp]: "osorted []"
  by (simp add: osorted_def)

lemma osorted_Cons: "osorted ((k, v) # m) \<longleftrightarrow> (\<forall>x \<in> fst ` set m. k < x) \<and> osorted m"
  by (auto simp: osorted_def)

lemma osorted_oupd [simp]: "osorted m \<Longrightarrow> osorted (oupd k v m)"
proof (induction k v m rule: oupd.induct)
  case (2 k v a b m)
  have "k < x" if "k < a" "x \<in> fst ` set m" for x
    using 2(2) that by (auto simp: osorted_Cons)
  with 2 show ?case by (auto simp: osorted_Cons)
qed (simp add: osorted_Cons)

lemma osorted_odel [simp]: "osorted m \<Longrightarrow> osorted (odel k m)"
  by (induction m) (auto simp: osorted_Cons)

lemma osorted_distinct: "osorted m \<Longrightarrow> distinct (map fst m)"
  by (auto simp: osorted_def strict_sorted_iff)

interpretation om: ordered_map "[]" oupd odel oget okeys osorted
proof unfold_locales
  fix m :: "('k::linorder, 'v) omap" and k
  show "set (okeys m) = {k. oget m k \<noteq> None}"
    using map_of_eq_None_iff [of m] by (auto simp: okeys_def)
  show "osorted m \<Longrightarrow> sorted (okeys m) \<and> distinct (okeys m)"
    by (simp add: osorted_def okeys_def strict_sorted_iff)
qed simp_all

lemma oget_None_iff:
  fixes m :: "('k::linorder, 'v) omap"
  shows "oget m k = None \<longleftrightarrow> k \<notin> set (okeys m)"
  using om.keys_dom [of m] by auto

lemma oget_in_set: "oget m k = Some v \<Longrightarrow> (k, v) \<in> set m"
  by (rule map_of_SomeD)

lemma osorted_oget: "osorted m \<Longrightarrow> oget m k = Some v \<longleftrightarrow> (k, v) \<in> set m"
  by (simp add: osorted_distinct)

lemma odel_id: "oget m k = None \<Longrightarrow> odel k m = m"
  by (induction m) (auto split: if_splits)

lemma oupd_new_smaller: "(\<And>x. x \<in> fst ` set m \<Longrightarrow> k < x) \<Longrightarrow> oupd k v m = (k, v) # m"
  by (cases m) auto

lemma oupd_append:
  "(\<And>x. x \<in> fst ` set m \<Longrightarrow> x < k) \<Longrightarrow> oupd k v m = m @ [(k, v)]"
proof (induction m)
  case (Cons p m)
  obtain a b where p: "p = (a, b)" by force
  have "a < k" using Cons.prems [of a] by (simp add: p)
  moreover have "oupd k v m = m @ [(k, v)]"
    by (rule Cons.IH) (simp add: Cons.prems)
  ultimately show ?case by (auto simp: p)
qed simp

text \<open>Two maps with the same lookups are the same list: \<open>std::map\<close> has a canonical order.\<close>

lemma osorted_ext:
  assumes "osorted m" and "osorted m'" and eq: "\<And>k. oget m k = oget m' k"
  shows "m = m'"
proof (rule map_sorted_distinct_set_unique [where f = fst])
  have "x \<in> set m \<longleftrightarrow> x \<in> set m'" for x
    using eq [of "fst x"] osorted_oget [OF assms(1), of "fst x" "snd x"]
      osorted_oget [OF assms(2), of "fst x" "snd x"] by simp
  then show sets: "set m = set m'" by blast
  show "inj_on fst (set m \<union> set m')"
    using osorted_distinct [OF assms(1)] by (simp add: distinct_map flip: sets)
qed (use assms in \<open>auto simp: osorted_def strict_sorted_iff\<close>)

lemma set_okeys_oupd [simp]: "set (okeys (oupd k v m)) = insert k (set (okeys m))"
  by (simp add: okeys_def)

lemma set_okeys_odel [simp]: "set (okeys (odel k m)) = set (okeys m) - {k}"
  by (simp add: okeys_def)

lemma okeys_Nil [simp]: "okeys [] = []"
  by (simp add: okeys_def)

section \<open>operator[]\<close>

text \<open>
  \<open>m[k]\<close> inserts a value-initialised entry when the key is missing, and yields the entry.
\<close>

definition oindex :: "'v \<Rightarrow> 'k::linorder \<Rightarrow> ('k, 'v) omap \<Rightarrow> ('k, 'v) omap" where
  "oindex d k m = (case oget m k of None \<Rightarrow> oupd k d m | Some _ \<Rightarrow> m)"

definition oget_def :: "'v \<Rightarrow> ('k, 'v) omap \<Rightarrow> 'k \<Rightarrow> 'v" where
  "oget_def d m k = (case oget m k of None \<Rightarrow> d | Some v \<Rightarrow> v)"

lemma osorted_oindex [simp]: "osorted m \<Longrightarrow> osorted (oindex d k m)"
  by (simp add: oindex_def split: option.split)

lemma oget_oindex [simp]:
  "oget (oindex d k m) k' = (if k' = k then Some (oget_def d m k) else oget m k')"
  by (auto simp: oindex_def oget_def_def split: option.split)

lemma oget_def_simps [simp]:
  "oget_def d (oupd k v m) k' = (if k' = k then v else oget_def d m k')"
  "oget_def d (odel k m) k' = (if k' = k then d else oget_def d m k')"
  "oget_def d (oindex d k m) k' = oget_def d m k'"
  by (auto simp: oget_def_def split: option.split)

section \<open>Sets of strings and integers\<close>

type_synonym 'k oset = "('k, unit) omap"

abbreviation oset_list :: "'k oset \<Rightarrow> 'k list" where
  "oset_list \<equiv> okeys"

abbreviation oset_add :: "'k::linorder \<Rightarrow> 'k oset \<Rightarrow> 'k oset" where
  "oset_add k \<equiv> oupd k ()"

abbreviation oset_mem :: "'k \<Rightarrow> 'k oset \<Rightarrow> bool" where
  "oset_mem k m \<equiv> oget m k \<noteq> None"

lemma oset_mem_iff:
  fixes m :: "'k::linorder oset"
  shows "oset_mem k m \<longleftrightarrow> k \<in> set (oset_list m)"
  by (simp add: oget_None_iff)

end
