(* ===== verification/Cpp_String.thy ===== *)
theory Cpp_String
  imports Prelude
begin

text \<open>
  The operations of \<open>std::string\<close> and of the C string functions that the code uses. A string is
  a list of bytes (\<open>char list\<close>); a C string ends at its first NUL byte, which \<open>c_str\<close> makes
  explicit where the code builds a \<open>std::string\<close> from a \<open>char *\<close>.

  The code takes strings apart with one idiom, in nearly every file: find the delimiter, take the
  part before it, erase through the delimiter, repeat. One round of it is \<open>cut\<close>, the whole loop
  is \<open>tokens\<close>; the round-trip lemmas of the components rest on \<open>tokens_join\<close> and on
  \<open>stoi_show_int\<close>.
\<close>

section \<open>Characters\<close>

abbreviation NUL :: char where "NUL \<equiv> CHR 0x00"
abbreviation LF :: char where "LF \<equiv> CHR 0x0A"
abbreviation CR :: char where "CR \<equiv> CHR 0x0D"

abbreviation crlf :: string where "crlf \<equiv> [CR, LF]"

definition c_str :: "string \<Rightarrow> string" where
  "c_str s = takeWhile (\<lambda>c. c \<noteq> NUL) s"

definition lower :: "char \<Rightarrow> char" where
  "lower c = (if 65 \<le> (of_char c :: nat) \<and> (of_char c :: nat) \<le> 90
              then char_of ((of_char c :: nat) + 32) else c)"

definition is_space :: "char \<Rightarrow> bool" where
  "is_space c \<longleftrightarrow> c \<in> {CHR '' '', CHR 0x09, LF, CHR 0x0B, CHR 0x0C, CR}"

lemma c_str_id: "NUL \<notin> set s \<Longrightarrow> c_str s = s"
  by (simp add: c_str_def takeWhile_eq_all_conv) blast

lemma NUL_notin_c_str [simp]: "NUL \<notin> set (c_str s)"
  by (auto simp: c_str_def dest: set_takeWhileD)

section \<open>find, substr, erase\<close>

fun sfind :: "string \<Rightarrow> string \<Rightarrow> nat option" where
  "sfind pat [] = (if pat = [] then Some 0 else None)"
| "sfind pat (c # s) =
     (if prefix pat (c # s) then Some 0 else map_option Suc (sfind pat s))"

definition sfind_from :: "string \<Rightarrow> string \<Rightarrow> nat \<Rightarrow> nat option" where
  "sfind_from pat s pos =
     (if pos \<le> length s then map_option ((+) pos) (sfind pat (drop pos s)) else None)"

definition substr :: "string \<Rightarrow> nat \<Rightarrow> nat \<Rightarrow> string res" where
  "substr s pos n = (if length s < pos then Fail OutOfRange else Ok (take n (drop pos s)))"

definition substr_from :: "string \<Rightarrow> nat \<Rightarrow> string res" where
  "substr_from s pos = (if length s < pos then Fail OutOfRange else Ok (drop pos s))"

lemma sfind_Some:
  "sfind pat s = Some i \<Longrightarrow> i \<le> length s \<and> prefix pat (drop i s) \<and> (\<forall>j < i. \<not> prefix pat (drop j s))"
proof (induction pat s arbitrary: i rule: sfind.induct)
  case (2 pat c s)
  show ?case
  proof (cases "prefix pat (c # s)")
    case False
    with 2(2) obtain k where k: "sfind pat s = Some k" "i = Suc k" by auto
    have "\<not> prefix pat (drop j (c # s))" if "j < Suc k" for j
      using 2(1) [OF False k(1)] False that by (cases j) auto
    with 2(1) [OF False k(1)] k(2) show ?thesis by simp
  qed (use 2(2) in auto)
qed (auto split: if_splits)

lemma sfind_None: "sfind pat s = None \<Longrightarrow> \<not> prefix pat (drop i s)"
proof (induction pat s arbitrary: i rule: sfind.induct)
  case (2 pat c s)
  then show ?case by (cases i) (auto split: if_splits)
qed (auto split: if_splits)

lemma sfind_char: "sfind [d] s = (if d \<in> set s then Some (length (takeWhile (\<lambda>c. c \<noteq> d) s)) else None)"
  by (induction s) auto

text \<open>Positions as the code computes with them: \<open>npos + 1\<close> is zero.\<close>

definition find_from :: "char \<Rightarrow> string \<Rightarrow> nat \<Rightarrow> nat option" where
  "find_from c s pos = sfind_from [c] s pos"

definition succ_pos :: "nat option \<Rightarrow> nat" where
  "succ_pos p = (case p of None \<Rightarrow> 0 | Some i \<Rightarrow> Suc i)"

text \<open>\<open>to - from - 1\<close> as a length: up to the end when \<open>to\<close> is \<open>npos\<close> or the difference wraps.\<close>

definition between :: "string \<Rightarrow> nat \<Rightarrow> nat option \<Rightarrow> string res" where
  "between s start stop =
     rbind (substr_from s (Suc start)) (\<lambda>t.
     Ok (case stop of None \<Rightarrow> t | Some j \<Rightarrow> if start < j then take (j - start - 1) t else t))"

section \<open>The find / substr / erase idiom\<close>

definition cut :: "char \<Rightarrow> string \<Rightarrow> (string \<times> string) option" where
  "cut d s = (case sfind [d] s of None \<Rightarrow> None | Some p \<Rightarrow> Some (take p s, drop (p + 1) s))"

lemma cut_None: "cut d s = None \<longleftrightarrow> d \<notin> set s"
  by (simp add: cut_def sfind_char)

lemma cut_absent [simp]: "d \<notin> set s \<Longrightarrow> cut d s = None"
  by (simp add: cut_None)

lemma takeWhile_until [simp]: "d \<notin> set a \<Longrightarrow> takeWhile (\<lambda>c. c \<noteq> d) (a @ d # b) = a"
  by (induction a) auto

lemma cut_append: "d \<notin> set a \<Longrightarrow> cut d (a @ d # b) = Some (a, b)"
  by (simp add: cut_def sfind_char)

lemma cut_Some: "cut d s = Some (a, b) \<longleftrightarrow> s = a @ d # b \<and> d \<notin> set a"
proof
  assume cut: "cut d s = Some (a, b)"
  then have "d \<in> set s" by (metis cut_absent option.distinct(1))
  then obtain u v where s: "s = u @ d # v" "d \<notin> set u"
    by (auto dest: split_list_first)
  with cut cut_append [OF s(2), of v] show "s = a @ d # b \<and> d \<notin> set a" by simp
qed (simp add: cut_append)

lemma cut_shorter [termination_simp]: "cut d s = Some (a, b) \<Longrightarrow> length b < length s"
  using cut_Some [of d s a b] by auto

text \<open>All the delimited parts, and what follows the last delimiter.\<close>

fun tokens :: "char \<Rightarrow> string \<Rightarrow> string list \<times> string" where
  "tokens d s =
     (case cut d s of
        None \<Rightarrow> ([], s)
      | Some (t, r) \<Rightarrow> (let (ts, l) = tokens d r in (t # ts, l)))"

declare tokens.simps [simp del]

lemma tokens_none: "d \<notin> set s \<Longrightarrow> tokens d s = ([], s)"
  by (subst tokens.simps) simp

lemma tokens_cons: "d \<notin> set a \<Longrightarrow> tokens d (a @ d # b) = (a # fst (tokens d b), snd (tokens d b))"
  by (subst tokens.simps) (simp add: cut_append split_beta)

lemma tokens_Nil [simp]: "tokens d [] = ([], [])"
  by (simp add: tokens_none)

text \<open>Writing each part followed by the delimiter, and reading the parts back.\<close>

lemma tokens_join:
  "(\<And>t. t \<in> set ts \<Longrightarrow> d \<notin> set t) \<Longrightarrow>
   tokens d (concat (map (\<lambda>t. t @ [d]) ts) @ r) = (ts @ fst (tokens d r), snd (tokens d r))"
  by (induction ts) (simp_all add: tokens_cons)

lemma tokens_join_all:
  "(\<And>t. t \<in> set ts \<Longrightarrow> d \<notin> set t) \<Longrightarrow> tokens d (concat (map (\<lambda>t. t @ [d]) ts)) = (ts, [])"
  using tokens_join [of ts d "[]"] by simp

lemma tokens_no_delim: "t \<in> set (fst (tokens d s)) \<Longrightarrow> d \<notin> set t"
proof (induction d s rule: tokens.induct)
  case (1 d s)
  show ?case
  proof (cases "cut d s")
    case None
    with 1(2) show ?thesis by (simp add: tokens.simps [of d s])
  next
    case (Some p)
    obtain a b where p: "p = (a, b)" by force
    with 1(2) Some have "t = a \<or> t \<in> set (fst (tokens d b))"
      by (simp add: tokens.simps [of d s] split_beta)
    then show ?thesis
      using 1(1) [OF Some p [symmetric]] Some p cut_Some [of d s a b] by auto
  qed
qed

section \<open>getline\<close>

text \<open>
  The lines a loop of \<open>getline\<close> with delimiter \<open>d\<close> yields: a last part that ends at the end of
  the input counts when it is not empty.
\<close>

fun getlines :: "char \<Rightarrow> string \<Rightarrow> string list" where
  "getlines d s =
     (case cut d s of
        None \<Rightarrow> (if s = [] then [] else [s])
      | Some (t, r) \<Rightarrow> t # getlines d r)"

declare getlines.simps [simp del]

lemma getlines_Nil [simp]: "getlines d [] = []"
  by (subst getlines.simps) simp

lemma getlines_none: "d \<notin> set s \<Longrightarrow> s \<noteq> [] \<Longrightarrow> getlines d s = [s]"
  by (subst getlines.simps) simp

lemma getlines_cons: "d \<notin> set a \<Longrightarrow> getlines d (a @ d # b) = a # getlines d b"
  by (subst getlines.simps) (simp add: cut_append)

lemma getlines_tokens: "getlines d s = fst (tokens d s) @ (if snd (tokens d s) = [] then [] else [snd (tokens d s)])"
proof (induction d s rule: getlines.induct)
  case (1 d s)
  show ?case
  proof (cases "cut d s")
    case None
    then show ?thesis by (simp add: getlines.simps [of d s] tokens.simps [of d s])
  next
    case (Some p)
    obtain a b where p: "p = (a, b)" by force
    with 1 [OF Some] Some show ?thesis
      by (simp add: getlines.simps [of d s] tokens.simps [of d s] split_beta)
  qed
qed

lemma concat_getlines: "concat (getlines d s) = filter (\<lambda>c. c \<noteq> d) s"
proof (induction d s rule: getlines.induct)
  case (1 d s)
  show ?case
  proof (cases "cut d s")
    case None
    then have "filter (\<lambda>c. c \<noteq> d) s = s"
      by (metis (mono_tags, lifting) cut_None filter_True)
    with None show ?thesis by (simp add: getlines.simps [of d s])
  next
    case (Some p)
    obtain a b where p: "p = (a, b)" by force
    with Some have s: "s = a @ d # b" "d \<notin> set a" by (auto simp: cut_Some)
    then have "filter (\<lambda>c. c \<noteq> d) a = a" by (metis (mono_tags, lifting) filter_True)
    with s 1 [OF Some] p show ?thesis by (simp add: getlines_cons)
  qed
qed

lemma getlines_lines:
  "(\<And>t. t \<in> set ts \<Longrightarrow> d \<notin> set t) \<Longrightarrow> getlines d (concat (map (\<lambda>t. t @ [d]) ts)) = ts"
  by (induction ts) (simp_all add: getlines_cons)

section \<open>Numbers\<close>

definition digit_char :: "nat \<Rightarrow> char" where
  "digit_char n = ''0123456789'' ! n"

definition is_digit :: "char \<Rightarrow> bool" where
  "is_digit c \<longleftrightarrow> c \<in> set ''0123456789''"

definition digit_value :: "char \<Rightarrow> nat" where
  "digit_value c = of_char c - 48"

fun show_nat :: "nat \<Rightarrow> string" where
  "show_nat n = (if n < 10 then [digit_char n] else show_nat (n div 10) @ [digit_char (n mod 10)])"

declare show_nat.simps [simp del]

definition to_string :: "int \<Rightarrow> string" where
  "to_string i = (if i < 0 then CHR ''-'' # show_nat (nat (- i)) else show_nat (nat i))"

definition read_digits :: "string \<Rightarrow> nat" where
  "read_digits ds = foldl (\<lambda>n c. 10 * n + digit_value c) 0 ds"

text \<open>The part of the text \<open>strtol\<close> reads: leading white space, a sign, decimal digits.\<close>

definition strtol :: "string \<Rightarrow> int option" where
  "strtol s =
     (let t = dropWhile is_space s;
          neg = (t \<noteq> [] \<and> hd t = CHR ''-'');
          u = (if t \<noteq> [] \<and> (hd t = CHR ''-'' \<or> hd t = CHR ''+'') then tl t else t);
          ds = takeWhile is_digit u
      in if ds = [] then None
         else Some (if neg then - int (read_digits ds) else int (read_digits ds)))"

definition stoi :: "string \<Rightarrow> int res" where
  "stoi s =
     (case strtol s of
        None \<Rightarrow> Fail InvalidArgument
      | Some n \<Rightarrow> if in_i32 n then Ok n else Fail OutOfRange)"

text \<open>\<open>atoi\<close> is \<open>strtol\<close>, which clamps to 64 bits, converted to \<open>int\<close>.\<close>

definition atoi :: "string \<Rightarrow> int" where
  "atoi s =
     (case strtol s of
        None \<Rightarrow> 0
      | Some n \<Rightarrow> to_i32 (max (- (2 ^ 63)) (min (2 ^ 63 - 1) n)))"

lemma digit_cases:
  assumes "(n::nat) < 10"
  shows "n \<in> {0, 1, 2, 3, 4, 5, 6, 7, 8, 9}"
  using assms by auto

lemma digit_char_simps:
  assumes "n < 10"
  shows "is_digit (digit_char n)" "digit_value (digit_char n) = n"
    "digit_char n \<noteq> CHR ''-''" "\<not> is_space (digit_char n)" "digit_char n \<noteq> CHR ''+''"
  using digit_cases [OF assms]
  by (auto simp: is_digit_def digit_char_def digit_value_def is_space_def)

lemma show_nat_digits: "c \<in> set (show_nat n) \<Longrightarrow> is_digit c"
proof (induction n rule: show_nat.induct)
  case (1 n)
  then show ?case
    by (cases "n < 10") (auto simp: show_nat.simps [of n] digit_char_simps)
qed

lemma show_nat_nonempty [simp]: "show_nat n \<noteq> []"
  by (subst show_nat.simps) simp

lemma read_show_nat: "read_digits (show_nat n) = n"
proof (induction n rule: show_nat.induct)
  case (1 n)
  then show ?case
    by (cases "n < 10")
      (auto simp: show_nat.simps [of n] read_digits_def digit_char_simps)
qed

lemma is_digit_not: "is_digit c \<Longrightarrow> c \<noteq> CHR ''-'' \<and> c \<noteq> CHR ''+'' \<and> \<not> is_space c"
  by (auto simp: is_digit_def is_space_def)

lemma show_nat_hd: "is_digit (hd (show_nat n))"
  using show_nat_digits [of "hd (show_nat n)" n] by simp

lemma strtol_to_string:
  assumes "r = [] \<or> \<not> is_digit (hd r)"
  shows "strtol (to_string i @ r) = Some i"
proof -
  define ds where "ds = show_nat (nat \<bar>i\<bar>)"
  have ds: "takeWhile is_digit (ds @ r) = ds" "ds \<noteq> []" "is_digit (hd ds)"
    unfolding ds_def using assms
    by (auto intro!: takeWhile_append_stop show_nat_digits show_nat_hd simp del: takeWhile_append)
  then obtain c cs where c: "ds = c # cs" "is_digit c" by (cases ds) auto
  have val: "read_digits ds = nat \<bar>i\<bar>"
    by (simp add: ds_def read_show_nat)
  show ?thesis
  proof (cases "i < 0")
    case True
    then have s: "to_string i = CHR ''-'' # ds" by (simp add: to_string_def ds_def)
    have "\<not> is_space (CHR ''-'')" by (simp add: is_space_def)
    then show ?thesis
      using ds(1,2) val True unfolding strtol_def s by (simp add: Let_def)
  next
    case False
    then have s: "to_string i = ds" by (simp add: to_string_def ds_def)
    show ?thesis
      using ds(1,2) val False is_digit_not [OF c(2)] c(1) unfolding strtol_def s by (simp add: Let_def)
  qed
qed

lemma stoi_to_string:
  "in_i32 i \<Longrightarrow> r = [] \<or> \<not> is_digit (hd r) \<Longrightarrow> stoi (to_string i @ r) = Ok i"
  by (simp add: stoi_def strtol_to_string)

lemma stoi_to_string' [simp]: "in_i32 i \<Longrightarrow> stoi (to_string i) = Ok i"
  using stoi_to_string [of i "[]"] by simp

lemma atoi_to_string:
  "in_i32 i \<Longrightarrow> r = [] \<or> \<not> is_digit (hd r) \<Longrightarrow> atoi (to_string i @ r) = i"
  by (simp add: atoi_def strtol_to_string to_i32_def in_i32_def)

lemma to_string_inj [simp]: "to_string i = to_string j \<longleftrightarrow> i = j"
  by (metis append_Nil2 option.inject strtol_to_string)

lemma set_to_string: "c \<in> set (to_string i) \<Longrightarrow> is_digit c \<or> c = CHR ''-''"
  by (auto simp: to_string_def dest: show_nat_digits split: if_splits)

lemma to_string_notin: "\<not> is_digit c \<Longrightarrow> c \<noteq> CHR ''-'' \<Longrightarrow> c \<notin> set (to_string i)"
  using set_to_string by blast

lemma to_string_delims [simp]:
  "CHR '','' \<notin> set (to_string i)" "CHR '';'' \<notin> set (to_string i)"
  "CHR ''@'' \<notin> set (to_string i)" "CHR '':'' \<notin> set (to_string i)"
  "CHR ''/'' \<notin> set (to_string i)"
  "LF \<notin> set (to_string i)" "CR \<notin> set (to_string i)" "NUL \<notin> set (to_string i)"
  by (rule to_string_notin; simp add: is_digit_def)+

lemma to_string_nonempty [simp]: "to_string i \<noteq> []"
  by (simp add: to_string_def)

end
