(* ===== verification/KV_Tools.thy ===== *)
theory KV_Tools
  imports Cpp_Map Cpp_String
begin

text \<open>
  The file system and the helpers of \<open>kvstore/tools.cc\<close>. The file system is a map from paths
  relative to the working directory to files and directories, with the failures the helpers run
  into: a file is written only into a directory that exists, a directory is removed only when it
  is empty. \<open>readdir\<close> yields the names in some order; the helpers that use it do not depend on it,
  and the model takes the order of the map.

  \<open>string_to_binary\<close> and \<open>binary_to_string\<close> are a codec the other files do not call.
\<close>

section \<open>Files and directories\<close>

datatype fentry = Dir | File string

type_synonym fsys = "(string, fentry) omap"

definition dirname :: "string \<Rightarrow> string" where
  "dirname p = (if CHR ''/'' \<in> set p then rev (tl (dropWhile (\<lambda>c. c \<noteq> CHR ''/'') (rev p))) else [])"

definition strip_slash :: "string \<Rightarrow> string" where
  "strip_slash d = (if d \<noteq> [] \<and> last d = CHR ''/'' then butlast d else d)"

definition dir_exists :: "fsys \<Rightarrow> string \<Rightarrow> bool" where
  "dir_exists f d \<longleftrightarrow> strip_slash d = [] \<or> oget f (strip_slash d) = Some Dir"

definition file_content :: "fsys \<Rightarrow> string \<Rightarrow> string option" where
  "file_content f p = (case oget f p of Some (File c) \<Rightarrow> Some c | _ \<Rightarrow> None)"

definition can_create :: "fsys \<Rightarrow> string \<Rightarrow> bool" where
  "can_create f p \<longleftrightarrow>
     (case oget f p of Some (File _) \<Rightarrow> True | Some Dir \<Rightarrow> False | None \<Rightarrow> dir_exists f (dirname p))"

definition entries :: "fsys \<Rightarrow> string \<Rightarrow> string list" where
  "entries f d =
     (let pre = strip_slash d @ ''/''
      in filter (\<lambda>n. CHR ''/'' \<notin> set n)
           (map (drop (length pre)) (filter (prefix pre) (okeys f))))"

section \<open>The helpers\<close>

text \<open>Opened with \<open>ofstream::app\<close>: the text goes after what the file holds.\<close>

definition write_file :: "string \<Rightarrow> string \<Rightarrow> fsys \<Rightarrow> fsys" where
  "write_file dest s f =
     (if can_create f dest
      then oupd dest (File ((case file_content f dest of None \<Rightarrow> [] | Some c \<Rightarrow> c) @ s)) f
      else f)"

text \<open>The lines of the file, joined without their newlines; empty when it cannot be opened.\<close>

definition read_file :: "string \<Rightarrow> fsys \<Rightarrow> string" where
  "read_file path f = (case file_content f path of None \<Rightarrow> [] | Some c \<Rightarrow> concat (getlines LF c))"

text \<open>
  The target is truncated or created even when the source cannot be read. Inserting an empty
  buffer sets the fail bit of the target stream, so an empty copy reports \<open>False\<close>.
\<close>

definition copy_file :: "string \<Rightarrow> string \<Rightarrow> fsys \<Rightarrow> bool \<times> fsys" where
  "copy_file source des f =
     (let c = (case file_content f source of None \<Rightarrow> [] | Some c \<Rightarrow> c)
      in if can_create f des then (c \<noteq> [], oupd des (File c) f) else (False, f))"

definition remove_path :: "string \<Rightarrow> fsys \<Rightarrow> fsys" where
  "remove_path p f =
     (case oget f p of
        None \<Rightarrow> f
      | Some (File _) \<Rightarrow> odel p f
      | Some Dir \<Rightarrow> if entries f p = [] then odel p f else f)"

definition create_dir :: "string \<Rightarrow> fsys \<Rightarrow> fsys" where
  "create_dir d f =
     (if oget f d = None \<and> dir_exists f (dirname d) then oupd d Dir f else f)"

definition check_dir :: "string \<Rightarrow> fsys \<Rightarrow> bool" where
  "check_dir d f = dir_exists f d"

definition clear_dir :: "string \<Rightarrow> fsys \<Rightarrow> fsys" where
  "clear_dir d f =
     (if dir_exists f d then fold (\<lambda>n. remove_path (d @ n)) (entries f d) f else f)"

definition copy_dir :: "string \<Rightarrow> string \<Rightarrow> fsys \<Rightarrow> fsys" where
  "copy_dir srcdir desdir f =
     (if dir_exists f srcdir
      then fold (\<lambda>n g. snd (copy_file (srcdir @ n) (desdir @ n) g)) (entries f srcdir) f
      else f)"

text \<open>\<open>rewrite_file\<close> truncates, \<open>delete_file\<close> removes any path, and \<open>read_dir\<close> ends the process without the directory.\<close>

definition rewrite_file :: "string \<Rightarrow> string \<Rightarrow> string \<Rightarrow> fsys \<Rightarrow> fsys" where
  "rewrite_file user filename v f =
     (let path = ''storage/'' @ user @ ''/'' @ filename
      in if can_create f path then oupd path (File v) f else f)"

definition delete_file_tool :: "string \<Rightarrow> fsys \<Rightarrow> fsys" where
  "delete_file_tool filename f = remove_path filename f"

definition read_dir :: "string \<Rightarrow> string list \<Rightarrow> fsys \<Rightarrow> (string list \<times> nat) res" where
  "read_dir user fs f =
     (let directory = ''storage/'' @ user
      in if dir_exists f directory then Ok (fs @ entries f directory, length (entries f directory))
         else Fail (Exit (- 1)))"

lemma rewrite_file_content:
  "can_create f (''storage/'' @ user @ ''/'' @ filename) \<Longrightarrow>
    file_content (rewrite_file user filename v f) (''storage/'' @ user @ ''/'' @ filename) = Some v"
  unfolding rewrite_file_def file_content_def Let_def by simp

text \<open>\<open>check_file\<close> indexes past the end of the vector when the count it is given is too large.\<close>

fun check_file :: "string \<Rightarrow> string list \<Rightarrow> nat \<Rightarrow> bool res" where
  "check_file filename fs 0 = Ok False"
| "check_file filename [] (Suc n) = Fail Undefined"
| "check_file filename (f # fs) (Suc n) = (if f = filename then Ok True else check_file filename fs n)"

lemma dirname_append: "CHR ''/'' \<notin> set n \<Longrightarrow> dirname (d @ CHR ''/'' # n) = d"
proof -
  assume "CHR ''/'' \<notin> set n"
  then have "dropWhile (\<lambda>c. c \<noteq> CHR ''/'') (rev n @ CHR ''/'' # rev d) = CHR ''/'' # rev d"
    by (subst dropWhile_append2) auto
  then show ?thesis by (simp add: dirname_def)
qed

lemma osorted_write_file [simp]: "osorted f \<Longrightarrow> osorted (write_file p s f)"
  by (simp add: write_file_def)

lemma content_write_file:
  "can_create f p \<Longrightarrow>
   file_content (write_file p s f) q =
     (if q = p then Some ((case file_content f p of None \<Rightarrow> [] | Some c \<Rightarrow> c) @ s)
      else file_content f q)"
  by (simp add: write_file_def file_content_def)

lemma content_grows:
  assumes "file_content f q = Some c"
  obtains d where "file_content (write_file p t f) q = Some (c @ d)"
proof (cases "can_create f p \<and> q = p")
  case True
  then show thesis using assms that content_write_file [of f p t q] by simp
next
  case False
  then have "file_content (write_file p t f) q = file_content f q"
    by (auto simp: write_file_def file_content_def)
  then show thesis using assms that [of "[]"] by simp
qed

lemma write_file_other: "q \<noteq> p \<Longrightarrow> oget (write_file p s f) q = oget f q"
  by (simp add: write_file_def)

lemma can_create_write_file [simp]: "can_create f p \<Longrightarrow> can_create (write_file q s f) p"
  by (auto simp: can_create_def write_file_def dir_exists_def split: option.splits fentry.splits)

lemma write_file_twice: "write_file p t (write_file p s f) = write_file p (s @ t) f"
proof (cases "can_create f p")
  case True
  have idem: "oupd p b (oupd p a m) = oupd p b m" for a b and m :: fsys
    by (induction m) auto
  from True have "can_create (write_file p s f) p" by simp
  with True show ?thesis
    by (auto simp: write_file_def file_content_def idem split: option.splits fentry.splits)
qed (simp add: write_file_def)

lemma check_file_spec:
  "n \<le> length fs \<Longrightarrow> check_file filename fs n = Ok (filename \<in> set (take n fs))"
  by (induction filename fs n rule: check_file.induct) auto

section \<open>The binary codec\<close>

definition bits8 :: "char \<Rightarrow> string" where
  "bits8 c = map (\<lambda>b. if b then CHR ''1'' else CHR ''0'')
     [digit7 c, digit6 c, digit5 c, digit4 c, digit3 c, digit2 c, digit1 c, digit0 c]"

definition string_to_binary :: "string \<Rightarrow> string" where
  "string_to_binary value = concat (map bits8 (c_str value))"

definition is_bit :: "char \<Rightarrow> bool" where
  "is_bit c \<longleftrightarrow> c = CHR ''0'' \<or> c = CHR ''1''"

text \<open>\<open>char(bits.to_ulong())\<close> for the characters the extraction of a \<open>bitset<8>\<close> has read.\<close>

definition bits_char :: "string \<Rightarrow> char" where
  "bits_char ds = char_of (foldl (\<lambda>n c. 2 * n + (if c = CHR ''1'' then 1 else 0)) (0 :: nat) ds)"

text \<open>
  Extracting a \<open>bitset<8>\<close> skips white space and reads at most eight characters \<open>0\<close> or \<open>1\<close>. It
  sets the fail bit when it reads none (the bits stay zero, and their character is appended all
  the same), and the end-of-file bit only when it meets the end before the eighth character.
\<close>

function binary_to_string :: "string \<Rightarrow> string" where
  "binary_to_string s =
     (let t = dropWhile is_space s;
          ds = takeWhile is_bit (take 8 t);
          r = drop (length ds) t
      in if ds = [] then [NUL]
         else bits_char ds # (if length ds < 8 \<and> r = [] then [] else binary_to_string r))"
  by pat_completeness auto
termination
proof (relation "measure length")
  fix s t ds r
  assume t: "t = dropWhile is_space s" and ds: "ds = takeWhile is_bit (take 8 t)"
    and r: "r = drop (length ds) t" and ne: "ds \<noteq> []"
  have "length t \<le> length s" by (simp add: t length_dropWhile_le)
  moreover have "t \<noteq> []" "0 < length ds" using ds ne by auto
  ultimately show "(r, s) \<in> measure length" by (simp add: r) (metis diff_less less_le_trans length_greater_0_conv)
qed simp

declare binary_to_string.simps [simp del]

lemma bits8_bits: "c \<in> set (bits8 x) \<Longrightarrow> is_bit c"
  by (auto simp: bits8_def is_bit_def)

lemma length_bits8 [simp]: "length (bits8 c) = 8"
  by (simp add: bits8_def)

lemma bits_char_bits8: "bits_char (bits8 c) = c"
proof (cases c)
  case (Char b0 b1 b2 b3 b4 b5 b6 b7)
  have "of_char c = (of_bool b0 + 2 * (of_bool b1 + 2 * (of_bool b2 + 2 * (of_bool b3 +
      2 * (of_bool b4 + 2 * (of_bool b5 + 2 * (of_bool b6 + 2 * of_bool b7)))))) :: nat)" (is "_ = ?n")
    by (simp add: Char)
  moreover have "foldl (\<lambda>n d. 2 * n + (if d = CHR ''1'' then 1 else 0)) (0 :: nat) (bits8 c) = ?n"
    by (simp add: Char bits8_def)
  ultimately have "bits_char (bits8 c) = char_of (of_char c :: nat)"
    by (simp only: bits_char_def)
  then show ?thesis by simp
qed

lemma binary_to_string_byte: "binary_to_string (bits8 c @ s) = c # binary_to_string s"
proof -
  have "\<not> is_space d" if "is_bit d" for d
    using that by (auto simp: is_bit_def is_space_def)
  then have "dropWhile is_space (bits8 c @ s) = bits8 c @ s"
    using bits8_bits [of "hd (bits8 c)" c] length_bits8 [of c]
    by (cases "bits8 c") (auto simp del: length_bits8)
  moreover have "takeWhile is_bit (take 8 (bits8 c @ s)) = bits8 c"
    using bits8_bits [of _ c] by (simp add: takeWhile_eq_all_conv)
  moreover have "drop 8 (bits8 c @ s) = s" by simp
  moreover have "bits8 c \<noteq> []" using length_bits8 [of c] by (metis list.size(3) zero_neq_numeral)
  ultimately show ?thesis
    by (subst binary_to_string.simps) (simp add: Let_def bits_char_bits8 del: take_append drop_append)
qed

text \<open>Decoding an encoded string gives the string up to its first NUL byte, followed by one extra
  NUL byte, because the loop tests the stream before the read that fails.\<close>

theorem binary_roundtrip: "binary_to_string (string_to_binary value) = c_str value @ [NUL]"
proof -
  have "binary_to_string [] = [NUL]"
    by (subst binary_to_string.simps) simp
  then have "binary_to_string (concat (map bits8 s)) = s @ [NUL]" for s
    by (induction s) (simp_all add: binary_to_string_byte)
  then show ?thesis by (simp add: string_to_binary_def)
qed

end
