(* ===== verification/KV_State.thy ===== *)
theory KV_State
  imports KV_Tools
begin

text \<open>
  The state of one storage node: the fields of \<open>LRUCache\<close> (\<open>kvstore/lrucache.h\<close>), the heap its
  \<open>Node\<close> pointers refer to (\<open>kvstore/node.h\<close>), and the global variables of
  \<open>kvstore/kvstore.cc\<close> the cache and the chunk server read and write.

  \<^item> A pointer is \<open>nat option\<close>; \<open>None\<close> is the null pointer. The two sentinel nodes live at the
    addresses \<open>head_addr\<close> and \<open>tail_addr\<close>; \<open>next_addr\<close> is the address the next \<open>new Node\<close> gets.
    Nodes are never freed, as in the code.
  \<^item> \<open>tablets\<close> holds addresses and no null pointer: every place where the code would insert one
    with \<open>operator[]\<close> dereferences it in the same expression, so the model fails there.
  \<^item> \<open>disk\<close> is the file system of the node's directory, \<open>sent\<close> the bytes sent so far, each chunk
    with the descriptor it went to. The verbose log on standard error is not modelled.
  \<^item> \<open>CHUNK_SIZE\<close> is a variable of the code; the model keeps it in the state, so that theorems
    are about any chunk size.
\<close>

section \<open>Nodes, messages, the node's state\<close>

type_synonym ptr = "nat option"

record node =
  nprev :: ptr
  nnext :: ptr
  nkey :: string
  nvalue :: "(string, string) omap"

type_synonym heap = "nat \<Rightarrow> node option"

record msg_pair =
  sq :: int
  msg :: string

type_synonym meta = "(string, int list list) omap"

record kv =
  capacity :: int
  memory_used :: int
  heap :: heap
  next_addr :: nat
  tablets :: "(string, nat) omap"
  user_size :: "(string, int) omap"
  chunk_info :: "(string, int list) omap"
  virmem_meta :: meta
  cp_meta :: meta
  seq_num_records :: "(string, int) omap"
  primary_holdback :: "(string, msg_pair list) omap"
  is_primary :: bool
  secondary_fd :: int
  chunk_size :: int
  disk :: fsys
  sent :: "(int \<times> string) list"

definition NODE_CAPACITY :: int where "NODE_CAPACITY = 1024 * 1024 * 1024"
definition MEMORY_CAPACITY :: int where "MEMORY_CAPACITY = 500 * 1024 * 1024"
definition CHUNK_SIZE :: int where "CHUNK_SIZE = 64 * 1024 * 1024"

definition head_addr :: nat where "head_addr = 0"
definition tail_addr :: nat where "tail_addr = 1"

lemma sentinels [simp]: "head_addr \<noteq> tail_addr" "tail_addr \<noteq> head_addr"
  by (simp_all add: head_addr_def tail_addr_def)

text \<open>\<open>Node(string key)\<close> and \<open>Node()\<close>.\<close>

definition new_node :: "string \<Rightarrow> node" where
  "new_node k = \<lparr>nprev = None, nnext = None, nkey = k, nvalue = []\<rparr>"

text \<open>
  \<open>LRUCache::LRUCache\<close>: two sentinels linked to each other, no users. The globals start as the
  definitions in \<open>kvstore.cc\<close> initialise them.
\<close>

definition init_kv :: "int \<Rightarrow> int \<Rightarrow> kv" where
  "init_kv cap csize =
     \<lparr>capacity = cap, memory_used = 0,
      heap = [head_addr \<mapsto> (new_node [])\<lparr>nnext := Some tail_addr\<rparr>,
              tail_addr \<mapsto> (new_node [])\<lparr>nprev := Some head_addr\<rparr>],
      next_addr = 2, tablets = [], user_size = [], chunk_info = [], virmem_meta = [],
      cp_meta = [], seq_num_records = [], primary_holdback = [], is_primary = False,
      secondary_fd = 0, chunk_size = csize, disk = [], sent = []\<rparr>"

text \<open>\<open>servermsg\<close> and the bare \<open>send\<close> calls.\<close>

definition send_msg :: "int \<Rightarrow> string \<Rightarrow> kv \<Rightarrow> kv" where
  "send_msg fd m s = s\<lparr>sent := sent s @ [(fd, m)]\<rparr>"

lemma send_msg_simps [simp]:
  "capacity (send_msg fd m s) = capacity s"
  "memory_used (send_msg fd m s) = memory_used s"
  "heap (send_msg fd m s) = heap s"
  "next_addr (send_msg fd m s) = next_addr s"
  "tablets (send_msg fd m s) = tablets s"
  "user_size (send_msg fd m s) = user_size s"
  "chunk_info (send_msg fd m s) = chunk_info s"
  "virmem_meta (send_msg fd m s) = virmem_meta s"
  "cp_meta (send_msg fd m s) = cp_meta s"
  "seq_num_records (send_msg fd m s) = seq_num_records s"
  "primary_holdback (send_msg fd m s) = primary_holdback s"
  "is_primary (send_msg fd m s) = is_primary s"
  "secondary_fd (send_msg fd m s) = secondary_fd s"
  "chunk_size (send_msg fd m s) = chunk_size s"
  "disk (send_msg fd m s) = disk s"
  "sent (send_msg fd m s) = sent s @ [(fd, m)]"
  by (simp_all add: send_msg_def)

section \<open>Reading and writing through pointers\<close>

definition load :: "heap \<Rightarrow> ptr \<Rightarrow> node res" where
  "load h p = (case p of None \<Rightarrow> Fail NullDeref | Some a \<Rightarrow> of_option Undefined (h a))"

definition store :: "ptr \<Rightarrow> (node \<Rightarrow> node) \<Rightarrow> heap \<Rightarrow> heap res" where
  "store p f h =
     (case p of
        None \<Rightarrow> Fail NullDeref
      | Some a \<Rightarrow> rbind (of_option Undefined (h a)) (\<lambda>n. Ok (h(a \<mapsto> f n))))"

definition set_prev :: "ptr \<Rightarrow> ptr \<Rightarrow> heap \<Rightarrow> heap res" where
  "set_prev p q = store p (\<lambda>n. n\<lparr>nprev := q\<rparr>)"

definition set_next :: "ptr \<Rightarrow> ptr \<Rightarrow> heap \<Rightarrow> heap res" where
  "set_next p q = store p (\<lambda>n. n\<lparr>nnext := q\<rparr>)"

definition set_value :: "ptr \<Rightarrow> (string, string) omap \<Rightarrow> heap \<Rightarrow> heap res" where
  "set_value p v = store p (\<lambda>n. n\<lparr>nvalue := v\<rparr>)"

lemma load_simps [simp]:
  "load h None = Fail NullDeref"
  "h a = Some n \<Longrightarrow> load h (Some a) = Ok n"
  by (simp_all add: load_def)

lemma store_simps [simp]:
  "store None f h = Fail NullDeref"
  "h a = Some n \<Longrightarrow> store (Some a) f h = Ok (h(a \<mapsto> f n))"
  by (simp_all add: store_def)

end
