(* ===== verification/KV_List.thy ===== *)
theory KV_List
  imports KV_State
begin

text \<open>
  The doubly linked list of \<open>LRUCache\<close> in the heap: the least recently used user is the node
  after \<open>head\<close>, the most recently used one the node before \<open>tail\<close>.

  \<open>dll h xs\<close> says that the heap represents the list \<open>xs\<close> between the sentinels, in both
  directions. Unlinking a node and moving it to the tail is \<open>xs @ a # ys\<close> becoming
  \<open>xs @ ys @ [a]\<close>; moving a node that is still linked, as \<open>put_helper\<close> does, cuts the nodes
  behind it off the list the eviction walks.
\<close>

section \<open>Operations\<close>

definition move_to_tail :: "ptr \<Rightarrow> heap \<Rightarrow> heap res" where
  "move_to_tail current h =
     rbind (load h (Some tail_addr)) (\<lambda>t.
     rbind (set_prev current (nprev t) h) (\<lambda>h.
     rbind (set_prev (Some tail_addr) current h) (\<lambda>h.
     rbind (load h current) (\<lambda>c.
     rbind (set_next (nprev c) current h) (\<lambda>h.
     set_next current (Some tail_addr) h)))))"

text \<open>\<open>current->prev->next = current->next; current->next->prev = current->prev\<close>.\<close>

definition unlink :: "ptr \<Rightarrow> heap \<Rightarrow> heap res" where
  "unlink current h =
     rbind (load h current) (\<lambda>c.
     rbind (set_next (nprev c) (nnext c) h) (\<lambda>h.
     rbind (load h current) (\<lambda>c.
     set_prev (nnext c) (nprev c) h)))"

section \<open>The list a heap represents\<close>

definition nx :: "heap \<Rightarrow> nat \<Rightarrow> ptr" where
  "nx h a = (case h a of None \<Rightarrow> None | Some n \<Rightarrow> nnext n)"

definition pv :: "heap \<Rightarrow> nat \<Rightarrow> ptr" where
  "pv h a = (case h a of None \<Rightarrow> None | Some n \<Rightarrow> nprev n)"

text \<open>What a node holds besides its links.\<close>

definition contents :: "heap \<Rightarrow> nat \<Rightarrow> (string \<times> (string, string) omap) option" where
  "contents h a = map_option (\<lambda>n. (nkey n, nvalue n)) (h a)"

fun linked :: "(nat \<Rightarrow> ptr) \<Rightarrow> (nat \<Rightarrow> ptr) \<Rightarrow> nat list \<Rightarrow> bool" where
  "linked f g (a # b # r) \<longleftrightarrow> f a = Some b \<and> g b = Some a \<and> linked f g (b # r)"
| "linked f g _ \<longleftrightarrow> True"

definition dll :: "heap \<Rightarrow> nat list \<Rightarrow> bool" where
  "dll h xs \<longleftrightarrow>
     linked (nx h) (pv h) (head_addr # xs @ [tail_addr]) \<and> distinct (head_addr # xs @ [tail_addr]) \<and>
     nx h tail_addr = None \<and> (\<forall>a \<in> set (head_addr # xs @ [tail_addr]). h a \<noteq> None)"

text \<open>The users in eviction order: the nodes met from \<open>head->next\<close> on, \<open>n\<close> at most.\<close>

fun fwd :: "nat \<Rightarrow> heap \<Rightarrow> ptr \<Rightarrow> nat list" where
  "fwd 0 h p = []"
| "fwd (Suc n) h None = []"
| "fwd (Suc n) h (Some a) = (if a = tail_addr then [] else a # fwd n h (nx h a))"

definition eviction_order :: "nat \<Rightarrow> heap \<Rightarrow> nat list" where
  "eviction_order n h = fwd n h (nx h head_addr)"

section \<open>Lemmas on links\<close>

lemma in_set_tl: "x \<in> set (tl xs) \<Longrightarrow> x \<in> set xs"
  by (cases xs) auto

lemma contents_dom: "contents h' = contents h \<Longrightarrow> h' a = None \<longleftrightarrow> h a = None"
  by (metis contents_def map_option_is_None)

lemma linked_append:
  "linked f g (xs @ a # ys) \<longleftrightarrow> linked f g (xs @ [a]) \<and> linked f g (a # ys)"
proof (induction xs)
  case (Cons x xs)
  then show ?case by (cases xs) auto
qed simp

lemma linked_frame:
  "(\<And>a. a \<in> set (butlast xs) \<Longrightarrow> f' a = f a) \<Longrightarrow> (\<And>a. a \<in> set (tl xs) \<Longrightarrow> g' a = g a) \<Longrightarrow>
   linked f' g' xs = linked f g xs"
proof (induction f g xs rule: linked.induct)
  case (1 f g a b r)
  then show ?case by auto
qed auto

lemma linked_last2:
  "linked f g (xs @ [a, b]) \<longleftrightarrow> linked f g (xs @ [a]) \<and> f a = Some b \<and> g b = Some a"
  using linked_append [of f g xs a "[b]"] by simp

lemma linked_neighbours:
  "linked f g (xs @ p # a # q # ys) \<Longrightarrow>
   f p = Some a \<and> g a = Some p \<and> f a = Some q \<and> g q = Some a"
  using linked_append [of f g xs p "a # q # ys"] by simp

text \<open>A node of the list with its neighbours, the sentinels included.\<close>

lemma around:
  obtains us p q vs where "head_addr # xs = us @ [p]" and "ys @ [tail_addr] = q # vs"
proof -
  obtain us p where "head_addr # xs = us @ [p]" by (metis append_butlast_last_id list.discI)
  moreover obtain q vs where "ys @ [tail_addr] = q # vs" by (metis append_is_Nil_conv list.exhaust)
  ultimately show thesis using that by blast
qed

section \<open>What the operations do to the links\<close>

lemma unlink_effect:
  assumes "h a = Some n" and "nprev n = Some p" and "nnext n = Some q"
    and "h p \<noteq> None" and "h q \<noteq> None"
  shows "\<exists>h'. unlink (Some a) h = Ok h' \<and> nx h' = (nx h)(p := Some q) \<and>
    pv h' = (pv h)(q := Some p) \<and> contents h' = contents h"
proof -
  obtain np nq where pq: "h p = Some np" "h q = Some nq" using assms(4,5) by auto
  define h1 where "h1 = h(p \<mapsto> np\<lparr>nnext := Some q\<rparr>)"
  obtain nq' where q': "h1 q = Some nq'" using pq by (cases "q = p") (auto simp: h1_def)
  define h2 where "h2 = h1(q \<mapsto> nq'\<lparr>nprev := Some p\<rparr>)"
  obtain n' where n': "h1 a = Some n'" "nprev n' = Some p" "nnext n' = Some q"
    using assms pq by (cases "a = p") (auto simp: h1_def)
  have "set_next (Some p) (Some q) h = Ok h1" using pq by (simp add: set_next_def h1_def)
  then have "unlink (Some a) h = Ok h2"
    using assms q' n' by (simp add: unlink_def set_prev_def h2_def)
  moreover have "nx h2 = (nx h)(p := Some q)" "pv h2 = (pv h)(q := Some p)" "contents h2 = contents h"
    using pq q' by (auto simp: h2_def h1_def nx_def pv_def contents_def fun_eq_iff split: if_splits)
  ultimately show ?thesis by blast
qed

lemma move_to_tail_effect:
  assumes "pv h tail_addr = Some l" and "h l \<noteq> None" and "h a \<noteq> None" and "a \<noteq> tail_addr"
    and "l \<noteq> tail_addr"
  shows "\<exists>h'. move_to_tail (Some a) h = Ok h' \<and> nx h' = (nx h)(l := Some a, a := Some tail_addr) \<and>
    pv h' = (pv h)(a := Some l, tail_addr := Some a) \<and> contents h' = contents h"
proof -
  obtain t where t: "h tail_addr = Some t" "nprev t = Some l"
    using assms(1) by (auto simp: pv_def split: option.splits)
  obtain na nl where al: "h a = Some na" "h l = Some nl" using assms by auto
  define h1 where "h1 = h(a \<mapsto> na\<lparr>nprev := Some l\<rparr>, tail_addr \<mapsto> t\<lparr>nprev := Some a\<rparr>)"
  obtain nl' where l': "h1 l = Some nl'" using al assms by (cases "l = a") (auto simp: h1_def)
  define h2 where "h2 = h1(l \<mapsto> nl'\<lparr>nnext := Some a\<rparr>)"
  obtain na' where a': "h2 a = Some na'" using al assms(4) by (cases "a = l") (auto simp: h1_def h2_def)
  define h3 where "h3 = h2(a \<mapsto> na'\<lparr>nnext := Some tail_addr\<rparr>)"
  have h1a: "h1 a = Some (na\<lparr>nprev := Some l\<rparr>)" using assms by (simp add: h1_def)
  have "move_to_tail (Some a) h = Ok h3"
    using assms t al l' a' h1a
    by (simp add: move_to_tail_def set_next_def set_prev_def flip: h1_def) (simp add: h3_def flip: h2_def)
  moreover have "nx h3 = (nx h)(l := Some a, a := Some tail_addr)"
    "pv h3 = (pv h)(a := Some l, tail_addr := Some a)" "contents h3 = contents h"
    using assms t al l' a'
    by (auto simp: h3_def h2_def h1_def nx_def pv_def contents_def fun_eq_iff split: if_splits)
  ultimately show ?thesis by blast
qed

section \<open>The list operations\<close>

lemma dll_unlink:
  assumes "dll h (xs @ a # ys)"
  shows "\<exists>h'. unlink (Some a) h = Ok h' \<and> dll h' (xs @ ys) \<and> contents h' = contents h"
proof -
  obtain us p q vs where up: "head_addr # xs = us @ [p]" and qv: "ys @ [tail_addr] = q # vs"
    by (rule around)
  have eq: "head_addr # (xs @ a # ys) @ [tail_addr] = us @ p # a # q # vs"
    "head_addr # (xs @ ys) @ [tail_addr] = us @ p # q # vs"
    using up qv by (metis append.assoc append_Cons append_Nil)+
  have lk: "linked (nx h) (pv h) (us @ p # a # q # vs)" and di: "distinct (us @ p # a # q # vs)"
    and nxt: "nx h tail_addr = None" and al: "\<forall>b \<in> set (us @ p # a # q # vs). h b \<noteq> None"
    using assms unfolding dll_def eq by simp_all
  note nb = linked_neighbours [OF lk]
  obtain n where n: "h a = Some n" using al by auto
  with nb have "nprev n = Some p" "nnext n = Some q" by (auto simp: nx_def pv_def)
  with n obtain h' where h': "unlink (Some a) h = Ok h'" "nx h' = (nx h)(p := Some q)"
    "pv h' = (pv h)(q := Some p)" "contents h' = contents h"
    using unlink_effect [of h a n p q] al di by auto
  have "linked (nx h') (pv h') (us @ [p])"
    using lk di linked_append [of "nx h" "pv h" us p "a # q # vs"]
    by (subst linked_frame [where f = "nx h" and g = "pv h"])
      (auto simp: h' butlast_append dest: in_set_tl)
  moreover have "linked (nx h') (pv h') (q # vs)"
    using lk di linked_append [of "nx h" "pv h" "us @ [p, a]" q vs]
    by (subst linked_frame [where f = "nx h" and g = "pv h"])
      (auto simp: h' dest: in_set_butlastD split: if_splits)
  ultimately have "linked (nx h') (pv h') (us @ p # q # vs)"
    using linked_append [of "nx h'" "pv h'" us p "q # vs"] by (simp add: h')
  moreover have "nx h' tail_addr = None"
  proof -
    have "p \<in> set (head_addr # xs)" using up by simp
    then have "tail_addr \<noteq> p" using assms by (auto simp: dll_def)
    then show ?thesis using nxt by (simp add: h')
  qed
  ultimately have "dll h' (xs @ ys)"
    unfolding dll_def eq using di al contents_dom [OF h'(4)] by auto
  with h' show ?thesis by blast
qed

text \<open>A node that is not linked goes to the end of the list.\<close>

lemma dll_move_to_tail:
  assumes "dll h zs" and "a \<notin> set zs" and "a \<noteq> head_addr" and "a \<noteq> tail_addr" and "h a \<noteq> None"
  shows "\<exists>h'. move_to_tail (Some a) h = Ok h' \<and> dll h' (zs @ [a]) \<and> contents h' = contents h"
proof -
  obtain us l where ul: "head_addr # zs = us @ [l]" by (metis append_butlast_last_id list.discI)
  have eq: "head_addr # zs @ [tail_addr] = us @ [l, tail_addr]"
    "head_addr # (zs @ [a]) @ [tail_addr] = us @ [l, a, tail_addr]"
    using ul by (metis append.assoc append_Cons append_Nil)+
  have lk: "linked (nx h) (pv h) (us @ [l, tail_addr])" and di: "distinct (us @ [l, tail_addr])"
    and al: "\<forall>b \<in> set (us @ [l, tail_addr]). h b \<noteq> None" and nxt: "nx h tail_addr = None"
    using assms(1) unfolding dll_def eq by simp_all
  have fresh: "a \<notin> set (us @ [l, tail_addr])"
    using assms(2-4) unfolding eq(1) [symmetric] by simp
  have nb: "nx h l = Some tail_addr" "pv h tail_addr = Some l" "linked (nx h) (pv h) (us @ [l])"
    using lk unfolding linked_last2 by simp_all
  obtain h' where h': "move_to_tail (Some a) h = Ok h'" "nx h' = (nx h)(l := Some a, a := Some tail_addr)"
    "pv h' = (pv h)(a := Some l, tail_addr := Some a)" "contents h' = contents h"
    using move_to_tail_effect [OF nb(2)] al di assms(4,5) by auto
  have "linked (nx h') (pv h') (us @ [l])"
    using nb(3) di fresh
    by (subst linked_frame [where f = "nx h" and g = "pv h"]) (auto simp: h' butlast_append dest: in_set_tl)
  then have "linked (nx h') (pv h') (us @ [l, a, tail_addr])"
    using fresh di by (simp add: h' linked_append [of _ _ us l "[a, tail_addr]"])
  then have "dll h' (zs @ [a])"
    unfolding dll_def eq using di al fresh nxt contents_dom [OF h'(4)] assms(5) by (auto simp: h')
  with h' show ?thesis by blast
qed

text \<open>Unlinking a linked node and moving it to the tail, as \<open>get_helper\<close> does.\<close>

lemma dll_touch:
  assumes "dll h (xs @ a # ys)"
  shows "\<exists>h'. rbind (unlink (Some a) h) (move_to_tail (Some a)) = Ok h' \<and>
    dll h' (xs @ ys @ [a]) \<and> contents h' = contents h"
proof -
  obtain h1 where h1: "unlink (Some a) h = Ok h1" "dll h1 (xs @ ys)" "contents h1 = contents h"
    using dll_unlink [OF assms] by blast
  have "a \<notin> set (xs @ ys)" "a \<noteq> head_addr" "a \<noteq> tail_addr" "h1 a \<noteq> None"
    using assms contents_dom [OF h1(3)] by (auto simp: dll_def)
  from dll_move_to_tail [OF h1(2) this] h1(1,3) show ?thesis by auto
qed

section \<open>The eviction order\<close>

lemma fwd_linked:
  "linked f g (a # zs @ [tail_addr]) \<Longrightarrow> f = nx h \<Longrightarrow> tail_addr \<notin> set zs \<Longrightarrow> length zs \<le> n \<Longrightarrow>
   fwd n h (nx h a) = zs"
proof (induction zs arbitrary: a n)
  case Nil
  then show ?case by (cases n) auto
next
  case (Cons z zs)
  then obtain m where "n = Suc m" by (cases n) auto
  with Cons show ?case by auto
qed

lemma eviction_order_dll:
  assumes "dll h xs" and "length xs \<le> n"
  shows "eviction_order n h = xs"
  unfolding eviction_order_def
  using assms by (intro fwd_linked [of "nx h" "pv h"]) (auto simp: dll_def)

text \<open>The part of the list from \<open>head\<close> to a node that now points at \<open>tail\<close>.\<close>

lemma move_linked_node:
  assumes "dll h (xs @ a # ys)" and "ys \<noteq> []"
  shows "\<exists>h'. move_to_tail (Some a) h = Ok h' \<and> contents h' = contents h \<and>
    linked (nx h') (pv h') (head_addr # xs) \<and> nx h' (last (head_addr # xs)) = Some a \<and>
    nx h' a = Some tail_addr \<and> pv h' a = Some (last ys) \<and> pv h' tail_addr = Some a"
proof -
  obtain us p where up: "head_addr # xs = us @ [p]" by (metis append_butlast_last_id list.discI)
  obtain vs l where ys: "ys = vs @ [l]" using assms(2) by (metis rev_exhaust)
  have eq: "head_addr # (xs @ a # ys) @ [tail_addr] = us @ p # a # vs @ [l, tail_addr]"
    using up ys by (metis append.assoc append_Cons append_Nil)
  have lk: "linked (nx h) (pv h) (us @ p # a # vs @ [l, tail_addr])"
    and di: "distinct (us @ p # a # vs @ [l, tail_addr])"
    and al: "\<forall>b \<in> set (us @ p # a # vs @ [l, tail_addr]). h b \<noteq> None"
    using assms(1) unfolding dll_def eq by simp_all
  have nb: "nx h p = Some a" "linked (nx h) (pv h) (us @ [p])"
    using lk linked_append [of "nx h" "pv h" us p "a # vs @ [l, tail_addr]"] by simp_all
  have "pv h tail_addr = Some l"
    using lk linked_last2 [of "nx h" "pv h" "us @ p # a # vs" l tail_addr] by simp
  then obtain h' where h': "move_to_tail (Some a) h = Ok h'"
    "nx h' = (nx h)(l := Some a, a := Some tail_addr)"
    "pv h' = (pv h)(a := Some l, tail_addr := Some a)" "contents h' = contents h"
    using move_to_tail_effect [of h l a] al di by auto
  have "linked (nx h') (pv h') (us @ [p])"
    using nb(2) di
    by (subst linked_frame [where f = "nx h" and g = "pv h"]) (auto simp: h' butlast_append dest: in_set_tl)
  then show ?thesis using h' nb(1) di up ys by auto
qed

text \<open>Moving the last node to the tail keeps the list: the node becomes its own predecessor.\<close>

lemma eviction_order_move_linked:
  assumes "dll h (xs @ a # ys)" and "move_to_tail (Some a) h = Ok h'" and "ys \<noteq> []"
    and "length xs < n"
  shows "eviction_order n h' = xs @ [a]"
proof -
  have h': "linked (nx h') (pv h') (head_addr # xs)" "nx h' (last (head_addr # xs)) = Some a"
    "nx h' a = Some tail_addr"
    using move_linked_node [OF assms(1,3)] assms(2) by auto
  define g where "g b = (if b = a then Some (last (head_addr # xs))
    else if b = tail_addr then Some a else pv h' b)" for b
  obtain us p where up: "head_addr # xs = us @ [p]" by (metis append_butlast_last_id list.discI)
  have di: "distinct (head_addr # xs @ [a, tail_addr])" using assms(1) by (auto simp: dll_def)
  have "linked (nx h') g (us @ [p])"
    unfolding up [symmetric] using h'(1) di
    by (subst linked_frame [where f = "nx h'" and g = "pv h'"]) (auto simp: g_def)
  moreover have "g a = Some p" "nx h' p = Some a" using h'(2) up by (simp_all add: g_def)
  moreover have "g tail_addr = Some a" using di by (auto simp: g_def)
  ultimately have "linked (nx h') g (us @ [p, a, tail_addr])"
    using h'(3) by (simp add: linked_append [of _ _ us p "[a, tail_addr]"])
  then have "linked (nx h') g (head_addr # (xs @ [a]) @ [tail_addr])"
    using up by (metis append.assoc append_Cons append_Nil)
  then show ?thesis
    unfolding eviction_order_def using di assms(4) by (intro fwd_linked [of "nx h'" g]) auto
qed

section \<open>Links that never dangle\<close>

text \<open>
  Whatever order the list is left in, every node but the sentinels' outer sides points at nodes
  that exist, so no operation on a node of the list reads through a null pointer. \<open>links_but A\<close>
  excepts the nodes of \<open>A\<close>, which are new and not linked yet.
\<close>

definition links_but :: "nat set \<Rightarrow> heap \<Rightarrow> bool" where
  "links_but A h \<longleftrightarrow>
     (\<forall>a. h a \<noteq> None \<and> a \<notin> A \<longrightarrow>
        (a \<noteq> tail_addr \<longrightarrow> (\<exists>b. nx h a = Some b \<and> h b \<noteq> None)) \<and>
        (a \<noteq> head_addr \<longrightarrow> (\<exists>b. pv h a = Some b \<and> h b \<noteq> None \<and> b \<noteq> tail_addr))) \<and>
     h head_addr \<noteq> None \<and> h tail_addr \<noteq> None"

abbreviation links_ok :: "heap \<Rightarrow> bool" where
  "links_ok \<equiv> links_but {}"

lemma links_move_to_tail:
  assumes "links_but {a} h" and "h a \<noteq> None" and "a \<noteq> tail_addr"
  shows "\<exists>h'. move_to_tail (Some a) h = Ok h' \<and> links_ok h' \<and> contents h' = contents h"
proof -
  obtain l where l: "pv h tail_addr = Some l" "h l \<noteq> None" "l \<noteq> tail_addr"
    using assms by (auto simp: links_but_def)
  obtain h' where h': "move_to_tail (Some a) h = Ok h'" "nx h' = (nx h)(l := Some a, a := Some tail_addr)"
    "pv h' = (pv h)(a := Some l, tail_addr := Some a)" "contents h' = contents h"
    using move_to_tail_effect [OF l(1,2) assms(2,3) l(3)] by auto
  have "links_ok h'"
    using assms l h'(2,3) contents_dom [OF h'(4)] unfolding links_but_def by auto
  with h' show ?thesis by blast
qed

lemma links_but_mono: "links_but {} h \<Longrightarrow> links_but A h"
  by (simp add: links_but_def)

lemma links_unlink:
  assumes "links_ok h" and "h a \<noteq> None" and "a \<noteq> tail_addr" and "a \<noteq> head_addr"
  shows "\<exists>h'. unlink (Some a) h = Ok h' \<and> links_ok h' \<and> contents h' = contents h"
proof -
  obtain p q where pq: "pv h a = Some p" "h p \<noteq> None" "p \<noteq> tail_addr" "nx h a = Some q" "h q \<noteq> None"
    using assms unfolding links_but_def by fastforce
  obtain n where n: "h a = Some n" "nprev n = Some p" "nnext n = Some q"
    using assms(2) pq by (auto simp: nx_def pv_def)
  obtain h' where h': "unlink (Some a) h = Ok h'" "nx h' = (nx h)(p := Some q)"
    "pv h' = (pv h)(q := Some p)" "contents h' = contents h"
    using unlink_effect [OF n pq(2,5)] by auto
  have "links_ok h'"
    using assms pq h'(2,3) contents_dom [OF h'(4)] unfolding links_but_def by auto
  with h' show ?thesis by blast
qed

lemma links_touch:
  assumes "links_ok h" and "h a \<noteq> None" and "a \<noteq> tail_addr" and "a \<noteq> head_addr"
  shows "\<exists>h1 h'. unlink (Some a) h = Ok h1 \<and> move_to_tail (Some a) h1 = Ok h' \<and> links_ok h' \<and>
    contents h' = contents h"
proof -
  obtain h1 where h1: "unlink (Some a) h = Ok h1" "links_ok h1" "contents h1 = contents h"
    using links_unlink [OF assms] by auto
  have "h1 a \<noteq> None" using assms(2) contents_dom [OF h1(3)] by simp
  from links_move_to_tail [OF links_but_mono [OF h1(2)] this assms(3)] h1 show ?thesis by auto
qed

text \<open>Writing the value of a node, and allocating one.\<close>

lemma store_value_effect:
  assumes "h a = Some n"
  shows "\<exists>h'. store (Some a) (\<lambda>n. n\<lparr>nvalue := f (nvalue n)\<rparr>) h = Ok h' \<and> nx h' = nx h \<and> pv h' = pv h \<and>
    contents h' = (contents h)(a \<mapsto> (nkey n, f (nvalue n)))"
  using assms
  by (intro exI [of _ "h(a \<mapsto> n\<lparr>nvalue := f (nvalue n)\<rparr>)"])
    (auto simp: nx_def pv_def contents_def fun_eq_iff)

lemma links_same:
  "nx h' = nx h \<Longrightarrow> pv h' = pv h \<Longrightarrow> (\<And>b. h' b = None \<longleftrightarrow> h b = None) \<Longrightarrow> links_but A h' = links_but A h"
  by (simp add: links_but_def)

lemma links_alloc:
  assumes "links_ok h" and "h a = None"
  shows "links_but {a} (h(a \<mapsto> n))"
proof -
  have "nx (h(a \<mapsto> n)) b = nx h b" "pv (h(a \<mapsto> n)) b = pv h b" if "b \<noteq> a" for b
    using that by (simp_all add: nx_def pv_def)
  with assms show ?thesis unfolding links_but_def by (auto split: if_splits) (metis option.distinct(1))+
qed

end
