(* ===== verification/KV_Chunk.thy ===== *)
theory KV_Chunk
  imports KV_State
begin

text \<open>
  Rows of a user on disk (\<open>lrucache.cc\<close>): the row text, the append-only chunk files, and the
  metadata that says where a row lies. The rows of evicted users ("virtual memory") and of
  checkpoints ("checkpointing") go through the same code with a different \<open>type\<close>.

  \<open>stored_row type u s\<close> reads back what the metadata of user \<open>u\<close> points at. For rows that fit in
  the current chunk, \<open>write_to_chunk\<close> is the update of a map from users to rows; a row that goes
  over the end of a chunk is written completely, but the offset is not reset for the next chunk,
  so the recorded start of its second part lies past the end of the file.
\<close>

section \<open>The metadata\<close>

definition clear_metadata :: "string \<Rightarrow> string \<Rightarrow> kv \<Rightarrow> kv" where
  "clear_metadata type user s =
     (let s1 = (if type = ''virtual memory'' then s\<lparr>virmem_meta := odel user (virmem_meta s)\<rparr> else s)
      in if type = ''checkpointing'' then s1\<lparr>cp_meta := odel user (cp_meta s1)\<rparr> else s1)"

text \<open>\<open>chunk_info[type].at(i)\<close>, and the assignments to it.\<close>

definition info_at :: "string \<Rightarrow> nat \<Rightarrow> kv \<Rightarrow> int res" where
  "info_at type i s =
     (let v = oget_def [] (chunk_info s) type
      in if i < length v then Ok (v ! i) else Fail OutOfRange)"

definition set_info :: "string \<Rightarrow> nat \<Rightarrow> int \<Rightarrow> kv \<Rightarrow> kv" where
  "set_info type i n s =
     s\<lparr>chunk_info := oupd type ((oget_def [] (chunk_info s) type)[i := n]) (chunk_info s)\<rparr>"

definition add_info :: "string \<Rightarrow> nat \<Rightarrow> int \<Rightarrow> kv \<Rightarrow> kv res" where
  "add_info type i d s =
     rbind (info_at type i s) (\<lambda>n. rbind (i32_add n d) (\<lambda>m. Ok (set_info type i m s)))"

definition chunk_path :: "string \<Rightarrow> int \<Rightarrow> string" where
  "chunk_path type c = type @ ''/chunk'' @ to_string c"

definition update_metadata :: "string \<Rightarrow> string \<Rightarrow> string \<Rightarrow> int \<Rightarrow> kv \<Rightarrow> kv res" where
  "update_metadata type user str sz s =
     rbind (info_at type 0 s) (\<lambda>c.
     let s1 = s\<lparr>disk := write_file (chunk_path type c) str (disk s)\<rparr> in
     rbind (info_at type 1 s1) (\<lambda>b.
     let record = [c, b, sz];
         s2 = (if type = ''virtual memory''
               then s1\<lparr>virmem_meta :=
                      oupd user (oget_def [] (virmem_meta s1) user @ [record]) (virmem_meta s1)\<rparr>
               else s1);
         s3 = (if type = ''checkpointing''
               then s2\<lparr>cp_meta := oupd user (oget_def [] (cp_meta s2) user @ [record]) (cp_meta s2)\<rparr>
               else s2)
     in add_info type 1 sz s3))"

section \<open>Rows\<close>

definition row_of :: "(string, string) omap \<Rightarrow> string" where
  "row_of m = concat (map (\<lambda>(fn, v). fn @ '','' @ v @ '','') m)"

definition value_size_of :: "(string, string) omap \<Rightarrow> int" where
  "value_size_of m = foldl (\<lambda>n (fn, v). to_i32 (n + int (length v))) 0 m"

text \<open>\<open>format_node\<close> appends the row to its argument and returns the size of the values.\<close>

definition format_node :: "node \<Rightarrow> string \<Rightarrow> string \<times> int" where
  "format_node user_node row = (row @ row_of (nvalue user_node), value_size_of (nvalue user_node))"

text \<open>
  The number of chunks for a row that does not fit. The quotient is computed in \<open>float\<close>, whose
  significand has 24 bits: \<open>f32_round\<close> is the conversion of an unsigned integer, to nearest, ties
  to even. For a chunk size that is a power of two below \<open>2 ^ 24\<close> times another such power the
  division itself is exact, so the ceiling is that of the rounded numerator.
\<close>

fun f32_exp :: "nat \<Rightarrow> nat" where
  "f32_exp n = (if n < 2 ^ 24 then 0 else Suc (f32_exp (n div 2)))"

declare f32_exp.simps [simp del]

definition f32_round :: "nat \<Rightarrow> nat" where
  "f32_round n =
     (let k = f32_exp n; q = n div 2 ^ k; r = n mod 2 ^ k
      in (if 2 * r > 2 ^ k \<or> (2 * r = 2 ^ k \<and> k \<noteq> 0 \<and> odd q) then q + 1 else q) * 2 ^ k)"

definition ceil_div :: "int \<Rightarrow> int \<Rightarrow> int" where
  "ceil_div a b = - ((- a) div b)"

definition chunk_needed :: "kv \<Rightarrow> string \<Rightarrow> int \<Rightarrow> int" where
  "chunk_needed s row left =
     ceil_div (int (f32_round (nat (to_u64 (int (length row) - left)))))
       (int (f32_round (nat (chunk_size s)))) + 1"

definition write_piece :: "string \<Rightarrow> string \<Rightarrow> string \<Rightarrow> int \<Rightarrow> int \<Rightarrow> nat \<Rightarrow> int \<times> kv \<Rightarrow> (int \<times> kv) res" where
  "write_piece user row type left needed i st =
     (let (start, s) = st; n = int (length row) in
      if i = 0 then
        rbind (substr row (nat (to_u64 start)) (nat (to_u64 left))) (\<lambda>temp.
        rbind (update_metadata type user temp left s) (\<lambda>s. Ok (left, s)))
      else if int i = needed - 1 then
        rbind (substr row (nat (to_u64 start)) (nat (to_u64 (n - start)))) (\<lambda>temp.
        rbind (add_info type 0 1 s) (\<lambda>s.
        rbind (update_metadata type user temp (to_i32 (n - start)) s) (\<lambda>s. Ok (start, s))))
      else
        rbind (substr row (nat (to_u64 start)) (nat (chunk_size s))) (\<lambda>temp.
        rbind (add_info type 0 1 s) (\<lambda>s.
        rbind (update_metadata type user temp (to_i32 (chunk_size s)) s) (\<lambda>s.
        Ok (to_i32 (start + chunk_size s), s)))))"

definition write_to_chunk :: "string \<Rightarrow> string \<Rightarrow> string \<Rightarrow> kv \<Rightarrow> kv res" where
  "write_to_chunk user row type s0 =
     (let s = clear_metadata type user s0 in
      rbind (info_at type 1 s) (\<lambda>b.
      if int (length row) \<le> to_u64 (chunk_size s - b) then
        update_metadata type user row (to_i32 (int (length row))) s
      else
        let left = to_i32 (chunk_size s - b); needed = chunk_needed s row left in
        rbind (foldr_res (write_piece user row type left needed) [0..<nat needed] (0, s))
          (\<lambda>st. Ok (snd st))))"

section \<open>Reading a row back\<close>

text \<open>
  \<open>load_user_from_disk\<close> reads each record: \<open>resize\<close> to the length fills with NUL, and \<open>read\<close>
  overwrites what the file has from the start offset on.
\<close>

definition read_at :: "string \<Rightarrow> int \<Rightarrow> int \<Rightarrow> string" where
  "read_at c start n =
     (let got = (if start < 0 then [] else take (nat n) (drop (nat start) c))
      in got @ replicate (nat n - length got) NUL)"

definition read_record :: "string \<Rightarrow> fsys \<Rightarrow> int list \<Rightarrow> string res" where
  "read_record type f r =
     (if length r < 3 then Fail OutOfRange
      else case file_content f (chunk_path type (r ! 0)) of
             None \<Rightarrow> Ok []
           | Some c \<Rightarrow> if r ! 2 < 0 then Fail LengthError else Ok (read_at c (r ! 1) (r ! 2)))"

fun read_records :: "string \<Rightarrow> fsys \<Rightarrow> int list list \<Rightarrow> string res" where
  "read_records type f [] = Ok []"
| "read_records type f (r # rs) =
     rbind (read_record type f r) (\<lambda>s. rbind (read_records type f rs) (\<lambda>t. Ok (s @ t)))"

definition meta_of :: "string \<Rightarrow> kv \<Rightarrow> meta" where
  "meta_of type s = (if type = ''virtual memory'' then virmem_meta s else cp_meta s)"

definition stored_row :: "string \<Rightarrow> string \<Rightarrow> kv \<Rightarrow> string res" where
  "stored_row type u s = read_records type (disk s) (oget_def [] (meta_of type s) u)"

section \<open>A row that fits\<close>

text \<open>
  The chunk files and the metadata agree: the counters are there, the current file is as long as
  the offset says, and every record lies inside its file.
\<close>

definition chunk_file :: "string \<Rightarrow> int \<Rightarrow> kv \<Rightarrow> string" where
  "chunk_file type c s =
     (case file_content (disk s) (chunk_path type c) of None \<Rightarrow> [] | Some f \<Rightarrow> f)"

definition record_ok :: "string \<Rightarrow> fsys \<Rightarrow> int list \<Rightarrow> bool" where
  "record_ok type f r \<longleftrightarrow>
     length r = 3 \<and> 0 \<le> r ! 1 \<and> 0 \<le> r ! 2 \<and>
     (\<exists>c. file_content f (chunk_path type (r ! 0)) = Some c \<and> r ! 1 + r ! 2 \<le> int (length c))"

definition chunks_ok :: "string \<Rightarrow> kv \<Rightarrow> bool" where
  "chunks_ok type s \<longleftrightarrow>
     type \<in> {''virtual memory'', ''checkpointing''} \<and>
     (\<exists>c b. oget (chunk_info s) type = Some [c, b] \<and> 0 \<le> b \<and> b = int (length (chunk_file type c s)) \<and>
        can_create (disk s) (chunk_path type c)) \<and>
     (\<forall>u. \<forall>r \<in> set (oget_def [] (meta_of type s) u). record_ok type (disk s) r)"

lemma read_record_append:
  assumes "record_ok type f r"
  shows "read_record type (write_file p t f) r = read_record type f r"
    and "record_ok type (write_file p t f) r"
proof -
  obtain c where c: "file_content f (chunk_path type (r ! 0)) = Some c"
    and r: "length r = 3" "0 \<le> r ! 1" "0 \<le> r ! 2" "r ! 1 + r ! 2 \<le> int (length c)"
    using assms by (auto simp: record_ok_def)
  obtain d where d: "file_content (write_file p t f) (chunk_path type (r ! 0)) = Some (c @ d)"
    using content_grows [OF c] .
  have "nat (r ! 2) \<le> length c - nat (r ! 1)" using r by linarith
  then show "read_record type (write_file p t f) r = read_record type f r"
    using c d r by (simp add: read_record_def read_at_def)
  show "record_ok type (write_file p t f) r"
    using d r by (simp add: record_ok_def)
qed

lemma read_records_append:
  "(\<And>r. r \<in> set rs \<Longrightarrow> record_ok type f r) \<Longrightarrow>
   read_records type (write_file p t f) rs = read_records type f rs"
  by (induction rs) (simp_all add: read_record_append)

lemma info_at_simps:
  "oget (chunk_info s) type = Some [c, b] \<Longrightarrow> info_at type 0 s = Ok c"
  "oget (chunk_info s) type = Some [c, b] \<Longrightarrow> info_at type (Suc 0) s = Ok b"
  by (simp_all add: info_at_def oget_def_def)

lemma chunk_path_type [simp]: "dirname (chunk_path type c) = type"
proof -
  have "CHR ''/'' \<notin> set (''chunk'' @ to_string c)" by simp
  from dirname_append [OF this, of type] show ?thesis by (simp add: chunk_path_def)
qed

lemma chunk_path_inj [simp]: "chunk_path type c = chunk_path type d \<longleftrightarrow> c = d"
  by (simp add: chunk_path_def)

text \<open>The state after a row is written into the current chunk.\<close>

definition with_meta :: "string \<Rightarrow> meta \<Rightarrow> kv \<Rightarrow> kv" where
  "with_meta type m s =
     (if type = ''virtual memory'' then s\<lparr>virmem_meta := m\<rparr> else s\<lparr>cp_meta := m\<rparr>)"

lemma with_meta_simps [simp]:
  "chunk_info (with_meta type m s) = chunk_info s" "disk (with_meta type m s) = disk s"
  "chunk_size (with_meta type m s) = chunk_size s" "tablets (with_meta type m s) = tablets s"
  "heap (with_meta type m s) = heap s" "memory_used (with_meta type m s) = memory_used s"
  "user_size (with_meta type m s) = user_size s" "next_addr (with_meta type m s) = next_addr s"
  "sent (with_meta type m s) = sent s" "capacity (with_meta type m s) = capacity s"
  "meta_of type (with_meta type m s) = m"
  by (simp_all add: with_meta_def meta_of_def)

lemma write_to_chunk_fits:
  assumes type: "type \<in> {''virtual memory'', ''checkpointing''}"
    and info: "oget (chunk_info s) type = Some [c, b]"
    and fits: "0 \<le> b" "b + int (length row) \<le> chunk_size s" "chunk_size s < 2 ^ 31"
  shows "write_to_chunk user row type s =
    Ok (with_meta type (oupd user [[c, b, int (length row)]] (odel user (meta_of type s))) s
      \<lparr>disk := write_file (chunk_path type c) row (disk s),
       chunk_info := oupd type [c, b + int (length row)] (chunk_info s)\<rparr>)"
proof -
  define n where "n = int (length row)"
  have n: "0 \<le> n" "in_i32 n" "in_i32 (b + n)" "to_u64 (chunk_size s - b) = chunk_size s - b"
    "n \<le> chunk_size s - b"
    using fits by (auto simp: n_def in_i32_def to_u64_def)
  show ?thesis
    using type info n fits
    by (auto simp: write_to_chunk_def clear_metadata_def update_metadata_def info_at_def oget_def_def
        add_info_def set_info_def with_meta_def meta_of_def to_i32_id simp flip: n_def)
qed

lemma stored_row_frame:
  assumes "\<And>r. r \<in> set (oget_def [] (meta_of type s) u) \<Longrightarrow> record_ok type (disk s) r"
    and "disk s' = write_file p t (disk s)"
    and "oget_def [] (meta_of type s') u = oget_def [] (meta_of type s) u"
  shows "stored_row type u s' = stored_row type u s"
  using assms by (simp add: stored_row_def read_records_append)

lemma write_to_chunk_stores:
  assumes ok: "chunks_ok type s" and info: "oget (chunk_info s) type = Some [c, b]"
    and fits: "b + int (length row) \<le> chunk_size s" "chunk_size s < 2 ^ 31"
  shows "\<exists>s'. write_to_chunk user row type s = Ok s' \<and> chunks_ok type s' \<and>
    (\<forall>u. stored_row type u s' = (if u = user then Ok row else stored_row type u s)) \<and>
    heap s' = heap s \<and> tablets s' = tablets s \<and> memory_used s' = memory_used s \<and>
    user_size s' = user_size s \<and> next_addr s' = next_addr s \<and> sent s' = sent s \<and>
    oget (meta_of type s') user \<noteq> None \<and> capacity s' = capacity s \<and>
    (osorted (meta_of type s) \<longrightarrow> osorted (meta_of type s'))"
proof -
  have type: "type \<in> {''virtual memory'', ''checkpointing''}" and b: "0 \<le> b" "b = int (length (chunk_file type c s))"
    and cc: "can_create (disk s) (chunk_path type c)"
    and recs: "\<And>u r. r \<in> set (oget_def [] (meta_of type s) u) \<Longrightarrow> record_ok type (disk s) r"
    using ok info by (auto simp: chunks_ok_def)
  define n where "n = int (length row)"
  define p where "p = chunk_path type c"
  define s' where "s' = with_meta type (oupd user [[c, b, n]] (odel user (meta_of type s))) s
    \<lparr>disk := write_file p row (disk s), chunk_info := oupd type [c, b + n] (chunk_info s)\<rparr>"
  have w: "write_to_chunk user row type s = Ok s'"
    using write_to_chunk_fits [OF type info b(1) fits] by (simp add: s'_def n_def p_def)
  have d': "disk s' = write_file p row (disk s)" by (simp add: s'_def)
  have m': "meta_of type s' = oupd user [[c, b, n]] (odel user (meta_of type s))"
    by (simp add: s'_def meta_of_def with_meta_def)
  have content: "file_content (disk s') p = Some (chunk_file type c s @ row)"
    using content_write_file [OF cc, of row p] by (simp add: d' p_def chunk_file_def)
  have new: "record_ok type (disk s') [c, b, n]"
    using b content by (simp add: record_ok_def n_def p_def)
  have "stored_row type user s' = Ok row"
    using b content by (simp add: stored_row_def m' oget_def_def read_record_def read_at_def n_def p_def)
  moreover have "stored_row type u s' = stored_row type u s" if "u \<noteq> user" for u
    using recs that by (intro stored_row_frame [OF _ d']) (simp_all add: m')
  moreover have "chunks_ok type s'"
    unfolding chunks_ok_def
  proof (intro conjI allI ballI)
    show "\<exists>c b. oget (chunk_info s') type = Some [c, b] \<and> 0 \<le> b \<and> b = int (length (chunk_file type c s')) \<and>
        can_create (disk s') (chunk_path type c)"
      using b content cc by (auto simp: s'_def chunk_file_def n_def p_def)
    fix u r assume r: "r \<in> set (oget_def [] (meta_of type s') u)"
    show "record_ok type (disk s') r"
    proof (cases "u = user")
      case True
      with r new show ?thesis by (simp add: m')
    next
      case False
      with r have "record_ok type (disk s) r" by (intro recs [of r u]) (simp add: m')
      then show ?thesis by (simp add: d' read_record_append(2))
    qed
  qed (rule type)
  ultimately show ?thesis using w m' by (auto simp: s'_def)
qed

end
