(* ===== verification/KV_Lru.thy ===== *)
theory KV_Lru
  imports KV_List KV_Chunk
begin

text \<open>
  The cache of a storage node (\<open>kvstore/lrucache.cc\<close>): users in memory as nodes of the linked
  list, least recently used users written to disk when memory runs out, and the seven commands.

  \<^item> \<open>put\<close> appends to the file, \<open>cput\<close> replaces it after a comparison, \<open>get\<close>, \<open>dele\<close>, \<open>rename\<close>,
    \<open>getlist\<close> and \<open>getfile\<close> all go through \<open>get_helper\<close>, which brings an evicted user back.
  \<^item> Bringing a user back calls \<open>put\<close> for each of its files, and \<open>put\<close> evicts users until the
    value fits, so the two are mutually recursive. \<open>put_loop\<close> takes fuel for this recursion;
    \<open>reload n\<close> is the way back from disk with the fuel \<open>n\<close>. A command on a user that is in memory
    or new needs no more than one unit.
  \<^item> The size arithmetic is that of the code: a sum with a \<open>size_t\<close> is modulo \<open>2 ^ 64\<close>, and an
    \<open>int\<close> assigned from it is truncated.
\<close>

section \<open>Messages\<close>

definition done_report :: "string \<Rightarrow> int \<Rightarrow> string" where
  "done_report user seq = ''DONE '' @ user @ '','' @ to_string seq @ crlf"

definition msg_exceeds_node :: string where
  "msg_exceeds_node = ''-ERR Your storage exceeds node capacity'' @ crlf"

definition msg_file_exceeds :: string where
  "msg_file_exceeds = ''-ERR File size exceeds node capacity'' @ crlf"

definition msg_no_file :: string where "msg_no_file = ''-ERR No such file'' @ crlf"

definition msg_no_user :: string where "msg_no_user = ''-ERR User not exist'' @ crlf"

definition msg_stored :: string where "msg_stored = ''+OK Value stored'' @ crlf"

definition msg_new_stored :: string where "msg_new_stored = ''+OK New value stored'' @ crlf"

definition msg_value :: string where "msg_value = ''+OK value as follows: '' @ crlf"

definition msg_list :: string where "msg_list = ''+OK list as follows: '' @ crlf"

definition msg_version :: string where "msg_version = ''-ERR Version check fail'' @ crlf"

definition msg_deleted :: string where "msg_deleted = ''+OK File deleted'' @ crlf"

definition msg_renamed :: string where "msg_renamed = ''+OK File renamed'' @ crlf"

section \<open>Eviction and the way back from disk\<close>

definition use_virtual_memory :: "kv \<Rightarrow> kv res" where
  "use_virtual_memory s =
     rbind (load (heap s) (Some head_addr)) (\<lambda>hd.
     rbind (load (heap s) (nnext hd)) (\<lambda>lru.
     let (row, sz) = format_node lru [] in
     rbind (write_to_chunk (nkey lru) row ''virtual memory'' s) (\<lambda>s.
     let s = s\<lparr>tablets := odel (nkey lru) (tablets s)\<rparr> in
     rbind (set_next (Some head_addr) (nnext lru) (heap s)) (\<lambda>h.
     rbind (set_prev (nnext lru) (Some head_addr) h) (\<lambda>h.
     rbind (i32_add (memory_used s) (- sz)) (\<lambda>m.
     Ok (s\<lparr>heap := h, memory_used := m\<rparr>)))))))"

text \<open>\<open>restore_user\<close>: file names at the odd tokens, values at the even ones.\<close>

fun restore_tokens :: "(string \<Rightarrow> string \<Rightarrow> 's \<Rightarrow> 's res) \<Rightarrow> string list \<Rightarrow> 's \<Rightarrow> 's res" where
  "restore_tokens put (filename # value # ts) s =
     rbind (put filename value s) (restore_tokens put ts)"
| "restore_tokens put _ s = Ok s"

definition restore_user :: "(string \<Rightarrow> string \<Rightarrow> 's \<Rightarrow> 's res) \<Rightarrow> string \<Rightarrow> 's \<Rightarrow> 's res" where
  "restore_user put text = restore_tokens put (fst (tokens (CHR '','') text))"

definition load_user_from_disk ::
    "(string \<Rightarrow> string \<Rightarrow> string \<Rightarrow> kv \<Rightarrow> kv res) \<Rightarrow> string \<Rightarrow> string \<Rightarrow> kv \<Rightarrow> kv res" where
  "load_user_from_disk put type user s =
     (let (m1, s1) = (if type = ''virtual memory''
            then (oget_def [] (virmem_meta s) user, s\<lparr>virmem_meta := odel user (virmem_meta s)\<rparr>)
            else ([], s));
          (m2, s2) = (if type = ''checkpointing''
            then (oget_def [] (cp_meta s1) user, s1\<lparr>cp_meta := oindex [] user (cp_meta s1)\<rparr>)
            else (m1, s1))
      in rbind (read_records type (disk s2) m2) (\<lambda>fn_value. restore_user (put user) fn_value s2))"

section \<open>put\<close>

definition append_value :: "string \<Rightarrow> string \<Rightarrow> (string, string) omap \<Rightarrow> (string, string) omap" where
  "append_value filename value m = oupd filename (oget_def [] m filename @ value) m"

text \<open>\<open>tablets[user]->value\<close> updated by \<open>f\<close>, and then \<open>move_to_tail(tablets[user])\<close>.\<close>

definition update_user :: "((string, string) omap \<Rightarrow> (string, string) omap) \<Rightarrow> string \<Rightarrow> kv \<Rightarrow> kv res" where
  "update_user f user s =
     rbind (of_option NullDeref (oget (tablets s) user)) (\<lambda>a.
     rbind (store (Some a) (\<lambda>n. n\<lparr>nvalue := f (nvalue n)\<rparr>) (heap s)) (\<lambda>h.
     rbind (move_to_tail (Some a) h) (\<lambda>h.
     Ok (s\<lparr>heap := h\<rparr>))))"

definition insert_user :: "string \<Rightarrow> string \<Rightarrow> string \<Rightarrow> kv \<Rightarrow> kv res" where
  "insert_user user filename value s =
     (let a = next_addr s;
          s = s\<lparr>next_addr := Suc a,
                heap := (heap s)(a \<mapsto> (new_node user)\<lparr>nvalue := [(filename, value)]\<rparr>),
                tablets := oupd user a (tablets s)\<rparr>
      in rbind (move_to_tail (Some a) (heap s)) (\<lambda>h. Ok (s\<lparr>heap := h\<rparr>)))"

definition put_reply :: "string \<Rightarrow> int \<Rightarrow> bool \<Rightarrow> int \<Rightarrow> kv \<Rightarrow> kv" where
  "put_reply user fd isCPUT seq s =
     (if is_primary s
      then send_msg fd (if isCPUT then msg_new_stored else msg_stored) s
      else send_msg fd (done_report user seq) s)"

definition add_user_size :: "string \<Rightarrow> int \<Rightarrow> kv \<Rightarrow> kv" where
  "add_user_size user n s =
     s\<lparr>user_size := oupd user (to_i32 (oget_def 0 (user_size s) user + n)) (user_size s)\<rparr>"

definition put_helper ::
    "(string \<Rightarrow> kv \<Rightarrow> kv res) \<Rightarrow> string \<Rightarrow> string \<Rightarrow> string \<Rightarrow> int \<Rightarrow> bool \<Rightarrow> bool \<Rightarrow> int \<Rightarrow> kv \<Rightarrow>
     (bool \<times> kv) res" where
  "put_helper fetch user filename value fd external isCPUT seq s =
     (let n = int (length value);
          counted = external \<or> isCPUT;
          s = (if counted then s\<lparr>user_size := oindex 0 user (user_size s)\<rparr> else s)
      in
      if counted \<and> to_u64 (capacity s) \<le> to_u64 (oget_def 0 (user_size s) user + n) then
        Ok (True, send_msg fd msg_exceeds_node s)
      else if to_u64 (memory_used s + n) \<le> to_u64 (capacity s) then
        (let isNotInMemory = (oget (tablets s) user = None);
             isNotInVirMem = (oget (virmem_meta s) user = None)
         in
         rbind (if isNotInMemory \<and> isNotInVirMem then insert_user user filename value s else Ok s) (\<lambda>s.
         rbind (if \<not> isNotInMemory
                then update_user (if isCPUT then oupd filename value else append_value filename value) user s
                else Ok s) (\<lambda>s.
         rbind (if \<not> isNotInVirMem
                then rbind (fetch user s) (update_user (append_value filename value) user)
                else Ok s) (\<lambda>s.
         let s = s\<lparr>memory_used := to_i32 (memory_used s + n)\<rparr>;
             s = (if counted then add_user_size user n s else s);
             s = (if external then put_reply user fd isCPUT seq s else s)
         in Ok (True, s)))))
      else Ok (False, s))"

text \<open>The size test at the entry of \<open>put\<close>.\<close>

definition put_entry :: "int \<Rightarrow> string \<Rightarrow> (kv \<Rightarrow> kv res) \<Rightarrow> kv \<Rightarrow> kv res" where
  "put_entry fd value loop s =
     (if to_u64 (capacity s) < int (length value)
      then Ok (send_msg fd msg_file_exceeds s)
      else loop s)"

fun put_loop :: "nat \<Rightarrow> string \<Rightarrow> string \<Rightarrow> string \<Rightarrow> int \<Rightarrow> bool \<Rightarrow> int \<Rightarrow> kv \<Rightarrow> kv res" where
  "put_loop 0 user filename value fd external seq s = Fail OutOfFuel"
| "put_loop (Suc n) user filename value fd external seq s =
     rbind (put_helper
       (load_user_from_disk (\<lambda>u f v. put_entry fd v (put_loop n u f v fd False 0)) ''virtual memory'')
       user filename value fd external False seq s) (\<lambda>(stored, s).
     if stored then Ok s
     else rbind (use_virtual_memory s) (put_loop n user filename value fd external seq))"

definition reload :: "nat \<Rightarrow> int \<Rightarrow> string \<Rightarrow> kv \<Rightarrow> kv res" where
  "reload n fd =
     load_user_from_disk (\<lambda>u f v. put_entry fd v (put_loop n u f v fd False 0)) ''virtual memory''"

definition lru_put :: "nat \<Rightarrow> string \<Rightarrow> string \<Rightarrow> string \<Rightarrow> int \<Rightarrow> bool \<Rightarrow> int \<Rightarrow> kv \<Rightarrow> kv res" where
  "lru_put n user filename value fd external seq s =
     put_entry fd value (put_loop n user filename value fd external seq) s"

section \<open>The other commands\<close>

text \<open>The result is the value when the code returns \<open>true\<close>.\<close>

definition get_helper ::
    "(string \<Rightarrow> kv \<Rightarrow> kv res) \<Rightarrow> string \<Rightarrow> string \<Rightarrow> int \<Rightarrow> kv \<Rightarrow> (string option \<times> kv) res" where
  "get_helper fetch user filename fd s =
     (let isInMemory = (oget (tablets s) user \<noteq> None);
          isInVirMem = (oget (virmem_meta s) user \<noteq> None)
      in
      if isInMemory \<or> isInVirMem then
        rbind (if isInVirMem then fetch user s else Ok s) (\<lambda>s.
        rbind (of_option NullDeref (oget (tablets s) user)) (\<lambda>a.
        rbind (unlink (Some a) (heap s)) (\<lambda>h.
        rbind (move_to_tail (Some a) h) (\<lambda>h.
        let s = s\<lparr>heap := h\<rparr> in
        rbind (load (heap s) (Some a)) (\<lambda>n.
        case oget (nvalue n) filename of
          Some v \<Rightarrow> Ok (Some v, s)
        | None \<Rightarrow> Ok (None, send_msg fd msg_no_file s))))))
      else Ok (None, send_msg fd msg_no_user s))"

definition lru_get :: "nat \<Rightarrow> string \<Rightarrow> string \<Rightarrow> int \<Rightarrow> kv \<Rightarrow> kv res" where
  "lru_get n user filename fd s =
     rbind (get_helper (reload n fd) user filename fd s) (\<lambda>(r, s).
     case r of
       None \<Rightarrow> Ok s
     | Some value_read \<Rightarrow> Ok (send_msg fd value_read (send_msg fd msg_value s)))"

definition lru_cput :: "nat \<Rightarrow> string \<Rightarrow> string \<Rightarrow> string \<Rightarrow> string \<Rightarrow> int \<Rightarrow> int \<Rightarrow> kv \<Rightarrow> kv res" where
  "lru_cput n user filename old_value new_value fd seq s =
     rbind (get_helper (reload n fd) user filename fd s) (\<lambda>(r, s).
     case r of
       None \<Rightarrow> Ok s
     | Some value_read \<Rightarrow>
         if value_read = old_value then
           (let s = add_user_size user (- int (length old_value)) s;
                s = s\<lparr>memory_used := to_i32 (memory_used s - int (length old_value))\<rparr>
            in rbind (put_helper (reload n fd) user filename new_value fd True True seq s) (\<lambda>(_, s). Ok s))
         else Ok (send_msg fd msg_version s))"

text \<open>\<open>tablets[user]->value\<close> read and replaced, without touching the list.\<close>

definition user_files :: "string \<Rightarrow> kv \<Rightarrow> (string, string) omap res" where
  "user_files user s =
     rbind (of_option NullDeref (oget (tablets s) user)) (\<lambda>a.
     rbind (load (heap s) (Some a)) (\<lambda>n. Ok (nvalue n)))"

definition set_user_files :: "string \<Rightarrow> (string, string) omap \<Rightarrow> kv \<Rightarrow> kv res" where
  "set_user_files user m s =
     rbind (of_option NullDeref (oget (tablets s) user)) (\<lambda>a.
     rbind (set_value (Some a) m (heap s)) (\<lambda>h. Ok (s\<lparr>heap := h\<rparr>)))"

definition lru_dele :: "nat \<Rightarrow> string \<Rightarrow> string \<Rightarrow> int \<Rightarrow> int \<Rightarrow> bool \<Rightarrow> kv \<Rightarrow> kv res" where
  "lru_dele n user filename fd seq is_migration s =
     rbind (get_helper (reload n fd) user filename fd s) (\<lambda>(r, s).
     case r of
       None \<Rightarrow> Ok s
     | Some value_read \<Rightarrow>
         rbind (user_files user s) (\<lambda>m.
         let len = int (length (oget_def [] m filename));
             s = add_user_size user (- len) s;
             s = s\<lparr>memory_used := to_i32 (memory_used s - len)\<rparr>
         in
         rbind (set_user_files user (odel filename m) s) (\<lambda>s.
         let s = (if is_primary s
                  then (if \<not> is_migration then send_msg fd msg_deleted s else s)
                  else (if seq \<noteq> 0 then send_msg fd (done_report user seq) s else s))
         in
         rbind (user_files user s) (\<lambda>m.
         Ok (if m = [] then s\<lparr>tablets := odel user (tablets s)\<rparr> else s)))))"

definition lru_rename :: "nat \<Rightarrow> string \<Rightarrow> string \<Rightarrow> string \<Rightarrow> int \<Rightarrow> int \<Rightarrow> kv \<Rightarrow> kv res" where
  "lru_rename n user old_filename new_filename fd seq s =
     rbind (get_helper (reload n fd) user old_filename fd s) (\<lambda>(r, s).
     case r of
       None \<Rightarrow> Ok s
     | Some value_read \<Rightarrow>
         rbind (user_files user s) (\<lambda>m.
         rbind (set_user_files user (oupd new_filename value_read (odel old_filename m)) s) (\<lambda>s.
         Ok (if is_primary s then send_msg fd msg_renamed s
             else send_msg fd (done_report user seq) s))))"

text \<open>
  A range-for loop over the files of a node while its body may insert files: the iterator moves
  to the next greater key the map has by then.
\<close>

definition next_entry :: "(string, string) omap \<Rightarrow> string option \<Rightarrow> (string \<times> string) option" where
  "next_entry m k = find (\<lambda>(fn, _). case k of None \<Rightarrow> True | Some k \<Rightarrow> k < fn) m"

fun file_loop :: "nat \<Rightarrow> (string \<Rightarrow> nat \<Rightarrow> kv \<Rightarrow> kv res) \<Rightarrow> nat \<Rightarrow> string option \<Rightarrow> nat \<Rightarrow> kv \<Rightarrow> kv res" where
  "file_loop 0 body a k counter s = Fail OutOfFuel"
| "file_loop (Suc n) body a k counter s =
     rbind (load (heap s) (Some a)) (\<lambda>nd.
     case next_entry (nvalue nd) k of
       None \<Rightarrow> Ok s
     | Some (filename, _) \<Rightarrow>
         rbind (body filename counter s) (file_loop n body a (Some filename) (Suc counter)))"

definition is_email :: "string \<Rightarrow> bool" where
  "is_email filename \<longleftrightarrow> take 2 filename = ''##''"

definition list_entry :: "nat \<Rightarrow> string \<Rightarrow> (string \<Rightarrow> bool) \<Rightarrow> (string \<Rightarrow> string \<Rightarrow> string) \<Rightarrow> int \<Rightarrow> string \<Rightarrow> nat \<Rightarrow> kv \<Rightarrow> kv res" where
  "list_entry n user sel fmt fd filename counter s =
     (if sel filename then
        rbind (get_helper (reload n fd) user filename fd s) (\<lambda>(r, s).
        case r of
          None \<Rightarrow> Ok s
        | Some value_read \<Rightarrow>
            let s = (if counter = 0 then send_msg fd msg_list s else s)
            in Ok (send_msg fd (fmt filename value_read) s))
      else Ok s)"

definition lru_getlist :: "nat \<Rightarrow> string \<Rightarrow> string \<Rightarrow> int \<Rightarrow> kv \<Rightarrow> kv res" where
  "lru_getlist n user type fd s =
     (case oget (tablets s) user of
        Some a \<Rightarrow>
          file_loop n
            (list_entry n user
              (\<lambda>fn. (type = ''email'' \<and> is_email fn) \<or> (type = ''file'' \<and> \<not> is_email fn))
              (\<lambda>fn v. fn @ '','' @ v @ '','') fd) a None 0 s
      | None \<Rightarrow> Ok (send_msg fd msg_no_user s))"

definition lru_getfile :: "nat \<Rightarrow> string \<Rightarrow> int \<Rightarrow> kv \<Rightarrow> kv res" where
  "lru_getfile n user fd s =
     (case oget (tablets s) user of
        Some a \<Rightarrow>
          file_loop n (list_entry n user (\<lambda>fn. \<not> is_email fn) (\<lambda>fn v. fn @ '','') fd) a None 0 s
      | None \<Rightarrow> Ok (send_msg fd msg_no_user s))"

end
