(* ===== verification/KV_Lru_Props.thy ===== *)
theory KV_Lru_Props
  imports KV_Lru
begin

text \<open>
  What the cache promises. \<open>files_of s user\<close> is the abstract content of the cache: the files of a
  user held in memory. \<open>kv_wf\<close> is the representation invariant: every user has a node of its own
  with its name, the files are in key order, and no link dangles. Under it the commands never read
  through a null pointer, and on a user who is not on disk each is the expected operation on
  \<open>files_of\<close>.
\<close>

section \<open>The abstraction and the invariant\<close>

definition files_of :: "kv \<Rightarrow> string \<Rightarrow> (string, string) omap option" where
  "files_of s user =
     (case oget (tablets s) user of None \<Rightarrow> None | Some a \<Rightarrow> map_option snd (contents (heap s) a))"

definition nodes_ok :: "kv \<Rightarrow> bool" where
  "nodes_ok s \<longleftrightarrow>
     (\<forall>user a. oget (tablets s) user = Some a \<longrightarrow>
        a \<noteq> head_addr \<and> a \<noteq> tail_addr \<and> (\<exists>m. contents (heap s) a = Some (user, m) \<and> osorted m))"

definition kv_wf :: "kv \<Rightarrow> bool" where
  "kv_wf s \<longleftrightarrow>
     osorted (tablets s) \<and> osorted (user_size s) \<and> nodes_ok s \<and> links_ok (heap s) \<and>
     (\<forall>a. next_addr s \<le> a \<longrightarrow> heap s a = None)"

lemma kv_wf_node:
  assumes "kv_wf s" and "oget (tablets s) user = Some a"
  obtains n where "heap s a = Some n" and "nkey n = user" and "osorted (nvalue n)"
    and "a \<noteq> head_addr" and "a \<noteq> tail_addr" and "files_of s user = Some (nvalue n)"
proof -
  obtain m where m: "contents (heap s) a = Some (user, m)" "osorted m" "a \<noteq> head_addr" "a \<noteq> tail_addr"
    using assms unfolding kv_wf_def nodes_ok_def by blast
  then obtain n where n: "heap s a = Some n" "nkey n = user" "nvalue n = m"
    by (auto simp: contents_def)
  then show thesis using that [OF n(1,2)] m assms(2) by (simp add: files_of_def)
qed

lemma kv_wf_files_sorted: "kv_wf s \<Longrightarrow> files_of s user = Some m \<Longrightarrow> osorted m"
  by (auto simp: files_of_def kv_wf_def nodes_ok_def split: option.splits) fastforce

lemma kv_wf_init: "kv_wf (init_kv cap csize)"
  by (auto simp: kv_wf_def nodes_ok_def init_kv_def links_but_def nx_def pv_def head_addr_def tail_addr_def
      new_node_def)

text \<open>A step that changes only what the invariant and the abstraction do not read.\<close>

lemma kv_wf_frame:
  "heap s' = heap s \<Longrightarrow> tablets s' = tablets s \<Longrightarrow> next_addr s' = next_addr s \<Longrightarrow>
   osorted (user_size s') \<Longrightarrow> kv_wf s \<Longrightarrow> kv_wf s'"
  by (simp add: kv_wf_def nodes_ok_def)

lemma files_of_frame: "heap s' = heap s \<Longrightarrow> tablets s' = tablets s \<Longrightarrow> files_of s' = files_of s"
  by (rule ext) (simp add: files_of_def split: option.split)

lemma kv_wf_simps [simp]:
  "kv_wf (send_msg fd m s) = kv_wf s"
  "kv_wf (s\<lparr>memory_used := n\<rparr>) = kv_wf s"
  "kv_wf (s\<lparr>disk := d\<rparr>) = kv_wf s"
  "files_of (send_msg fd m s) = files_of s"
  "files_of (s\<lparr>memory_used := n\<rparr>) = files_of s"
  "files_of (s\<lparr>user_size := us\<rparr>) = files_of s"
  "files_of (s\<lparr>disk := d\<rparr>) = files_of s"
  by (simp_all add: kv_wf_def nodes_ok_def, (rule files_of_frame; simp)+)

lemma add_user_size_simps [simp]:
  "capacity (add_user_size user n s) = capacity s"
  "memory_used (add_user_size user n s) = memory_used s"
  "heap (add_user_size user n s) = heap s"
  "next_addr (add_user_size user n s) = next_addr s"
  "tablets (add_user_size user n s) = tablets s"
  "chunk_info (add_user_size user n s) = chunk_info s"
  "virmem_meta (add_user_size user n s) = virmem_meta s"
  "cp_meta (add_user_size user n s) = cp_meta s"
  "seq_num_records (add_user_size user n s) = seq_num_records s"
  "primary_holdback (add_user_size user n s) = primary_holdback s"
  "is_primary (add_user_size user n s) = is_primary s"
  "secondary_fd (add_user_size user n s) = secondary_fd s"
  "chunk_size (add_user_size user n s) = chunk_size s"
  "disk (add_user_size user n s) = disk s"
  "sent (add_user_size user n s) = sent s"
  "oget_def 0 (user_size (add_user_size user n s)) u =
     (if u = user then to_i32 (oget_def 0 (user_size s) user + n) else oget_def 0 (user_size s) u)"
  by (simp_all add: add_user_size_def)

lemma kv_wf_add_user_size [simp]: "kv_wf s \<Longrightarrow> kv_wf (add_user_size user n s)"
  by (simp add: kv_wf_def nodes_ok_def add_user_size_def)

lemma kv_wf_oindex [simp]: "kv_wf s \<Longrightarrow> kv_wf (s\<lparr>user_size := oindex 0 user (user_size s)\<rparr>)"
  by (simp add: kv_wf_def nodes_ok_def)

lemma files_of_add_user_size [simp]: "files_of (add_user_size user n s) = files_of s"
  by (simp add: add_user_size_def)

text \<open>A heap with the same contents and good links.\<close>

lemma kv_wf_heap:
  assumes "kv_wf s" and "links_ok h" and "contents h = contents (heap s)"
  shows "kv_wf (s\<lparr>heap := h\<rparr>)" and "files_of (s\<lparr>heap := h\<rparr>) = files_of s"
proof -
  have "h a = None \<longleftrightarrow> heap s a = None" for a
    using contents_dom [OF assms(3)] .
  then show "kv_wf (s\<lparr>heap := h\<rparr>)" using assms by (simp add: kv_wf_def nodes_ok_def)
  show "files_of (s\<lparr>heap := h\<rparr>) = files_of s"
    using assms(3) by (intro ext) (simp add: files_of_def split: option.split)
qed

section \<open>The steps of the commands\<close>

lemma set_user_files_ok:
  assumes wf: "kv_wf s" and m: "files_of s user \<noteq> None" and "osorted m'"
  shows "\<exists>h. set_user_files user m' s = Ok (s\<lparr>heap := h\<rparr>) \<and> kv_wf (s\<lparr>heap := h\<rparr>) \<and>
    files_of (s\<lparr>heap := h\<rparr>) = (files_of s)(user \<mapsto> m')"
proof -
  obtain a where a: "oget (tablets s) user = Some a"
    using m by (auto simp: files_of_def split: option.splits)
  obtain n where n: "heap s a = Some n" "nkey n = user" "a \<noteq> head_addr" "a \<noteq> tail_addr"
    by (rule kv_wf_node [OF wf a])
  obtain h where h: "store (Some a) (\<lambda>n. n\<lparr>nvalue := m'\<rparr>) (heap s) = Ok h" "nx h = nx (heap s)"
    "pv h = pv (heap s)" "contents h = (contents (heap s))(a \<mapsto> (user, m'))"
    using store_value_effect [of "heap s" a n "\<lambda>_. m'"] n by auto
  have dom: "h b = None \<longleftrightarrow> heap s b = None" for b
    using fun_cong [OF h(4), of b] n by (auto simp: contents_def split: if_splits)
  have inj: "u = user" if "oget (tablets s) u = Some a" for u
    using kv_wf_node [OF wf that] n by (metis option.inject)
  have "nodes_ok (s\<lparr>heap := h\<rparr>)"
    unfolding nodes_ok_def
  proof (intro allI impI)
    fix u b assume "oget (tablets (s\<lparr>heap := h\<rparr>)) u = Some b"
    then have b: "oget (tablets s) u = Some b" by simp
    show "b \<noteq> head_addr \<and> b \<noteq> tail_addr \<and>
        (\<exists>m. contents (heap (s\<lparr>heap := h\<rparr>)) b = Some (u, m) \<and> osorted m)"
    proof (cases "b = a")
      case True
      then show ?thesis using inj [of u] b assms(3) n by (simp add: h(4))
    next
      case False
      then show ?thesis using wf b unfolding kv_wf_def nodes_ok_def by (simp add: h(4))
    qed
  qed
  then have "kv_wf (s\<lparr>heap := h\<rparr>)"
    using wf dom links_same [OF h(2,3) dom, of "{}"] unfolding kv_wf_def by simp
  moreover have "files_of (s\<lparr>heap := h\<rparr>) = (files_of s)(user \<mapsto> m')"
  proof (rule ext)
    fix u
    show "files_of (s\<lparr>heap := h\<rparr>) u = ((files_of s)(user \<mapsto> m')) u"
      using a inj [of u] by (cases "oget (tablets s) u") (auto simp: files_of_def h(4))
  qed
  moreover have "set_user_files user m' s = Ok (s\<lparr>heap := h\<rparr>)"
    using h(1) a by (simp add: set_user_files_def set_value_def)
  ultimately show ?thesis by blast
qed

lemma update_user_ok:
  assumes wf: "kv_wf s" and m: "files_of s user = Some m" and "osorted (f m)"
  shows "\<exists>h. update_user f user s = Ok (s\<lparr>heap := h\<rparr>) \<and> kv_wf (s\<lparr>heap := h\<rparr>) \<and>
    files_of (s\<lparr>heap := h\<rparr>) = (files_of s)(user \<mapsto> f m)"
proof -
  obtain a where a: "oget (tablets s) user = Some a"
    using m by (auto simp: files_of_def split: option.splits)
  obtain n where n: "heap s a = Some n" "a \<noteq> head_addr" "a \<noteq> tail_addr" "files_of s user = Some (nvalue n)"
    by (rule kv_wf_node [OF wf a])
  obtain h1 where h1: "set_user_files user (f m) s = Ok (s\<lparr>heap := h1\<rparr>)" "kv_wf (s\<lparr>heap := h1\<rparr>)"
    "files_of (s\<lparr>heap := h1\<rparr>) = (files_of s)(user \<mapsto> f m)"
    using set_user_files_ok [OF wf _ assms(3), of user] m by auto
  have s1: "s\<lparr>heap := (heap s)(a \<mapsto> n\<lparr>nvalue := f m\<rparr>)\<rparr> = s\<lparr>heap := h1\<rparr>"
    using h1(1) a n by (simp add: set_user_files_def set_value_def)
  have s2: "store (Some a) (\<lambda>n. n\<lparr>nvalue := f (nvalue n)\<rparr>) (heap s) = Ok h1"
    using arg_cong [where f = heap, OF s1] n m by simp
  have "h1 a \<noteq> None" using s2 n(1) by auto
  moreover have "links_ok h1" using h1(2) by (simp add: kv_wf_def)
  ultimately obtain h where h: "move_to_tail (Some a) h1 = Ok h" "links_ok h" "contents h = contents h1"
    using links_move_to_tail [of a h1] links_but_mono [of h1 "{a}"] n(3) by auto
  have "update_user f user s = Ok (s\<lparr>heap := h\<rparr>)"
    using a s2 h(1) by (simp add: update_user_def)
  moreover have "kv_wf (s\<lparr>heap := h\<rparr>)" "files_of (s\<lparr>heap := h\<rparr>) = (files_of s)(user \<mapsto> f m)"
    using kv_wf_heap [OF h1(2) h(2)] h(3) h1(3) by simp_all
  ultimately show ?thesis by blast
qed

lemma insert_user_ok:
  assumes wf: "kv_wf s" and new: "oget (tablets s) user = None"
  shows "\<exists>h. let s' = s\<lparr>heap := h, next_addr := Suc (next_addr s),
        tablets := oupd user (next_addr s) (tablets s)\<rparr>
    in insert_user user filename value s = Ok s' \<and> kv_wf s' \<and>
       files_of s' = (files_of s)(user \<mapsto> [(filename, value)])"
proof -
  define a where "a = next_addr s"
  define n where "n = (new_node user)\<lparr>nvalue := [(filename, value)]\<rparr>"
  have fresh: "heap s a = None" using wf by (simp add: kv_wf_def a_def)
  have sent: "a \<noteq> head_addr" "a \<noteq> tail_addr"
    using fresh wf by (auto simp: kv_wf_def links_but_def)
  obtain h where h: "move_to_tail (Some a) ((heap s)(a \<mapsto> n)) = Ok h" "links_ok h"
    "contents h = contents ((heap s)(a \<mapsto> n))"
    using links_move_to_tail [OF links_alloc [of "heap s" a n]] wf sent fresh by (auto simp: kv_wf_def)
  have c: "contents h b = (if b = a then Some (user, [(filename, value)]) else contents (heap s) b)" for b
    unfolding h(3) by (simp add: contents_def n_def new_node_def)
  have dom: "h b = None \<longleftrightarrow> heap s b = None \<and> b \<noteq> a" for b
    using contents_dom [OF h(3), of b] by simp
  have other: "b \<noteq> a" if "oget (tablets s) u = Some b" for u b
    using kv_wf_node [OF wf that] fresh by (metis option.distinct(1))
  define s' where "s' = s\<lparr>heap := h, next_addr := Suc a, tablets := oupd user a (tablets s)\<rparr>"
  have "nodes_ok s'"
    unfolding nodes_ok_def
  proof (intro allI impI)
    fix u b assume b: "oget (tablets s') u = Some b"
    show "b \<noteq> head_addr \<and> b \<noteq> tail_addr \<and> (\<exists>m. contents (heap s') b = Some (u, m) \<and> osorted m)"
    proof (cases "u = user")
      case True
      with b show ?thesis using sent by (simp add: s'_def c osorted_Cons)
    next
      case False
      with b have "oget (tablets s) u = Some b" by (simp add: s'_def)
      with wf other [of u b] show ?thesis by (auto simp: kv_wf_def nodes_ok_def s'_def c)
    qed
  qed
  then have "kv_wf s'"
    using wf h(2) dom by (auto simp: kv_wf_def s'_def a_def)
  moreover have "files_of s' = (files_of s)(user \<mapsto> [(filename, value)])"
    using c other by (intro ext) (auto simp: files_of_def s'_def split: option.split)
  moreover have "insert_user user filename value s = Ok s'"
    using h(1) unfolding s'_def n_def a_def insert_user_def Let_def by simp
  ultimately show ?thesis unfolding s'_def a_def Let_def by blast
qed

lemma get_helper_resident:
  assumes wf: "kv_wf s" and res: "oget (virmem_meta s) user = None"
  shows "\<exists>h. kv_wf (s\<lparr>heap := h\<rparr>) \<and> files_of (s\<lparr>heap := h\<rparr>) = files_of s \<and>
    get_helper fetch user filename fd s =
      (case files_of s user of
         None \<Rightarrow> Ok (None, send_msg fd msg_no_user (s\<lparr>heap := h\<rparr>))
       | Some m \<Rightarrow>
          (case oget m filename of
             None \<Rightarrow> Ok (None, send_msg fd msg_no_file (s\<lparr>heap := h\<rparr>))
           | Some v \<Rightarrow> Ok (Some v, s\<lparr>heap := h\<rparr>)))"
proof (cases "oget (tablets s) user")
  case None
  then show ?thesis
    using wf res by (intro exI [of _ "heap s"]) (simp add: get_helper_def files_of_def)
next
  case (Some a)
  obtain n where n: "heap s a = Some n" "a \<noteq> head_addr" "a \<noteq> tail_addr" "files_of s user = Some (nvalue n)"
    by (rule kv_wf_node [OF wf Some])
  obtain h1 h where h: "unlink (Some a) (heap s) = Ok h1" "move_to_tail (Some a) h1 = Ok h" "links_ok h"
    "contents h = contents (heap s)"
    using links_touch [of "heap s" a] n wf by (auto simp: kv_wf_def)
  obtain n' where n': "h a = Some n'" "nvalue n' = nvalue n"
    using fun_cong [OF h(4), of a] n(1) by (auto simp: contents_def)
  show ?thesis
    using kv_wf_heap [OF wf h(3,4)] Some res h(1,2) n' n(4)
    by (intro exI [of _ h]) (simp add: get_helper_def split: option.split)
qed

section \<open>put\<close>

text \<open>The fields no command of the cache changes while the user is in memory.\<close>

definition same_node :: "kv \<Rightarrow> kv \<Rightarrow> bool" where
  "same_node s s' \<longleftrightarrow>
     capacity s' = capacity s \<and> chunk_info s' = chunk_info s \<and> virmem_meta s' = virmem_meta s \<and>
     cp_meta s' = cp_meta s \<and> seq_num_records s' = seq_num_records s \<and>
     primary_holdback s' = primary_holdback s \<and> is_primary s' = is_primary s \<and>
     secondary_fd s' = secondary_fd s \<and> chunk_size s' = chunk_size s \<and> disk s' = disk s"

lemma same_node_refl [simp]: "same_node s s"
  by (simp add: same_node_def)

lemma same_node_trans: "same_node s t \<Longrightarrow> same_node t u \<Longrightarrow> same_node s u"
  by (simp add: same_node_def)

definition files_list :: "kv \<Rightarrow> string \<Rightarrow> (string, string) omap" where
  "files_list s user = (case files_of s user of None \<Rightarrow> [] | Some m \<Rightarrow> m)"

lemma files_list_sorted: "kv_wf s \<Longrightarrow> osorted (files_list s user)"
  by (auto simp: files_list_def kv_wf_files_sorted split: option.split)

lemma osorted_append_value [simp]: "osorted m \<Longrightarrow> osorted (append_value fn v m)"
  by (simp add: append_value_def)

text \<open>The update of the node, for a user in memory as for a new one.\<close>

lemma store_in_memory:
  assumes wf: "kv_wf s"
  shows "\<exists>s'.
    (if oget (tablets s) user = None then insert_user user fn v s
     else update_user (if isCPUT then oupd fn v else append_value fn v) user s) = Ok s' \<and>
    kv_wf s' \<and> same_node s s' \<and> sent s' = sent s \<and> memory_used s' = memory_used s \<and>
    user_size s' = user_size s \<and>
    files_of s' = (files_of s)(user \<mapsto>
      (if isCPUT then oupd fn v else append_value fn v) (files_list s user))"
proof (cases "oget (tablets s) user")
  case None
  then have "files_list s user = []" by (simp add: files_list_def files_of_def)
  then show ?thesis
    using insert_user_ok [OF wf None, of fn v] None
    by (auto simp: Let_def append_value_def oget_def_def same_node_def)
next
  case (Some a)
  obtain m where n: "files_of s user = Some m" "osorted m"
    by (metis kv_wf_node [OF wf Some])
  define g where "g = (if isCPUT then oupd fn v else append_value fn v)"
  have "osorted (g m)" using n(2) by (simp add: g_def)
  from update_user_ok [OF wf n(1), of g, OF this] n(1) Some show ?thesis
    by (auto simp: files_list_def same_node_def simp flip: g_def)
qed

definition mem_room :: "kv \<Rightarrow> nat \<Rightarrow> bool" where
  "mem_room s n \<longleftrightarrow>
     0 \<le> memory_used s \<and> memory_used s + int n \<le> capacity s \<and> capacity s < 2 ^ 31"

definition quota_room :: "kv \<Rightarrow> string \<Rightarrow> nat \<Rightarrow> bool" where
  "quota_room s user n \<longleftrightarrow>
     0 \<le> oget_def 0 (user_size s) user \<and> oget_def 0 (user_size s) user + int n < capacity s"

lemma put_helper_resident:
  assumes wf: "kv_wf s" and res: "oget (virmem_meta s) user = None"
    and mem: "mem_room s (length value)"
    and quota: "external \<or> isCPUT \<Longrightarrow> quota_room s user (length value)"
  shows "\<exists>s'. put_helper fetch user filename value fd external isCPUT seq s = Ok (True, s') \<and>
    kv_wf s' \<and> same_node s s' \<and> memory_used s' = memory_used s + int (length value) \<and>
    files_of s' = (files_of s)(user \<mapsto>
      (if isCPUT then oupd filename value else append_value filename value) (files_list s user)) \<and>
    (\<forall>u. oget_def 0 (user_size s') u = oget_def 0 (user_size s) u +
       (if (external \<or> isCPUT) \<and> u = user then int (length value) else 0)) \<and>
    sent s' = sent s @ (if external then
      [(fd, if is_primary s then if isCPUT then msg_new_stored else msg_stored else done_report user seq)]
      else [])"
proof -
  define n where "n = int (length value)"
  define t where "t = (if external \<or> isCPUT then s\<lparr>user_size := oindex 0 user (user_size s)\<rparr> else s)"
  have cap: "to_u64 (capacity s) = capacity s" "to_u64 (memory_used s + n) = memory_used s + n"
    "to_i32 (memory_used s + n) = memory_used s + n" "memory_used s + n \<le> capacity s"
    using mem by (auto simp: mem_room_def n_def to_u64_def intro!: to_i32_id simp: in_i32_def)
  have t: "kv_wf t" "files_of t = files_of s" "same_node s t" "sent t = sent s"
    "memory_used t = memory_used s" "tablets t = tablets s" "virmem_meta t = virmem_meta s"
    "oget_def 0 (user_size t) u = oget_def 0 (user_size s) u" for u
    using wf by (simp_all add: t_def same_node_def)
  have q: "to_u64 (oget_def 0 (user_size s) user + n) = oget_def 0 (user_size s) user + n"
    "to_i32 (oget_def 0 (user_size s) user + n) = oget_def 0 (user_size s) user + n"
    "oget_def 0 (user_size s) user + n < capacity s" if "external \<or> isCPUT"
    using quota [OF that] mem
    by (auto simp: mem_room_def quota_room_def n_def to_u64_def intro!: to_i32_id simp: in_i32_def)
  obtain s1 where s1: "(if oget (tablets t) user = None then insert_user user filename value t
     else update_user (if isCPUT then oupd filename value else append_value filename value) user t) = Ok s1"
    "kv_wf s1" "same_node t s1" "sent s1 = sent t" "memory_used s1 = memory_used t"
    "user_size s1 = user_size t"
    "files_of s1 = (files_of t)(user \<mapsto>
      (if isCPUT then oupd filename value else append_value filename value) (files_list t user))"
    using store_in_memory [OF t(1), of user filename "value" isCPUT] by blast
  have capt: "capacity t = capacity s" "is_primary s1 = is_primary s"
    using t(3) s1(3) by (simp_all add: same_node_def)
  have fl: "files_list t user = files_list s user" by (simp add: files_list_def t(2))
  define s2 where "s2 = s1\<lparr>memory_used := memory_used s + n\<rparr>"
  define s3 where "s3 = (if external \<or> isCPUT then add_user_size user n s2 else s2)"
  define s4 where "s4 = (if external then put_reply user fd isCPUT seq s3 else s3)"
  have run: "put_helper fetch user filename value fd external isCPUT seq s = Ok (True, s4)"
  proof -
    have "\<not> ((external \<or> isCPUT) \<and> to_u64 (capacity t) \<le> to_u64 (oget_def 0 (user_size t) user + n))"
      using q cap(1) t(8) capt by auto
    moreover have "to_u64 (memory_used t + n) \<le> to_u64 (capacity t)"
      using cap t(5) capt by simp
    moreover have "oget (virmem_meta t) user = None" using res t(7) by simp
    ultimately show ?thesis
      using s1(1) cap(3)
      unfolding put_helper_def Let_def n_def [symmetric] t_def [symmetric] s4_def s3_def s2_def
      by (cases "oget (tablets t) user") (auto simp: s1(5) t(5))
  qed
  have us3: "oget_def 0 (user_size s3) u = oget_def 0 (user_size s) u +
       (if (external \<or> isCPUT) \<and> u = user then n else 0)" for u
    using q(2) by (simp add: s3_def s2_def s1(6) t(8))
  have w: "kv_wf s3" "files_of s3 = files_of s1" "same_node s1 s3" "memory_used s3 = memory_used s + n"
    "sent s3 = sent s1" "is_primary s3 = is_primary s1"
    using s1(2) by (simp_all add: s3_def s2_def same_node_def)
  have "kv_wf s4" "files_of s4 = files_of s3" "same_node s3 s4" "memory_used s4 = memory_used s3"
    "user_size s4 = user_size s3"
    using w(1) by (simp_all add: s4_def put_reply_def same_node_def)
  moreover have "sent s4 = sent s3 @ (if external then
      [(fd, if is_primary s3 then if isCPUT then msg_new_stored else msg_stored else done_report user seq)]
      else [])"
    by (simp add: s4_def put_reply_def)
  moreover have "same_node s s3" using t(3) s1(3) w(3) by (simp add: same_node_def)
  ultimately show ?thesis
    using run us3 w s1 t capt fl by (intro exI [of _ s4]) (auto simp: n_def intro: same_node_trans)
qed

text \<open>Which user's memory limit is met: both limits of a counted \<open>put\<close>.\<close>

definition room :: "kv \<Rightarrow> string \<Rightarrow> nat \<Rightarrow> bool" where
  "room s user n \<longleftrightarrow> mem_room s n \<and> quota_room s user n"

lemma lru_put_resident:
  assumes "kv_wf s" and "oget (virmem_meta s) user = None" and "room s user (length value)"
  shows "\<exists>s'. lru_put (Suc n) user filename value fd True seq s = Ok s' \<and>
    kv_wf s' \<and> same_node s s' \<and> memory_used s' = memory_used s + int (length value) \<and>
    files_of s' = (files_of s)(user \<mapsto> append_value filename value (files_list s user)) \<and>
    (\<forall>u. oget_def 0 (user_size s') u = oget_def 0 (user_size s) u +
       (if u = user then int (length value) else 0)) \<and>
    sent s' = sent s @ [(fd, if is_primary s then msg_stored else done_report user seq)]"
proof -
  have "\<not> to_u64 (capacity s) < int (length value)"
    using assms(3) by (auto simp: room_def mem_room_def to_u64_def)
  then show ?thesis
    using put_helper_resident [where external = True and isCPUT = False,
        OF assms(1,2), of "value" "load_user_from_disk (\<lambda>u f v. put_entry fd v (put_loop n u f v fd False 0)) ''virtual memory''" filename fd seq] assms(3)
    by (auto simp: lru_put_def put_entry_def room_def)
qed

end
