(* ===== verification/KV_Lru_Spec.thy ===== *)
theory KV_Lru_Spec
  imports KV_Lru_Props
begin

text \<open>
  The contract of the cache. A \<open>view\<close> is what a client can observe: the files of each user and
  the two counters that decide whether a \<open>put\<close> is admitted. \<open>spec_get\<close> to \<open>spec_rename\<close> say what
  each command does to a view and which messages it sends. \<open>refines\<close> states that the pointer code of
  \<open>KV_Lru\<close> does exactly that, on a well-formed state and a user who is not on disk.
\<close>

section \<open>Views\<close>

record view =
  vfiles :: "string \<Rightarrow> (string, string) omap option"
  vused :: int
  vquota :: "string \<Rightarrow> int"

definition view_of :: "kv \<Rightarrow> view" where
  "view_of s = \<lparr>vfiles = files_of s, vused = memory_used s, vquota = oget_def 0 (user_size s)\<rparr>"

definition charge :: "string \<Rightarrow> int \<Rightarrow> view \<Rightarrow> view" where
  "charge user n V =
     V\<lparr>vused := vused V + n, vquota := (vquota V)(user := vquota V user + n)\<rparr>"

definition put_files :: "string \<Rightarrow> (string, string) omap \<Rightarrow> view \<Rightarrow> view" where
  "put_files user m V = V\<lparr>vfiles := (vfiles V)(user \<mapsto> m)\<rparr>"

definition drop_user :: "string \<Rightarrow> view \<Rightarrow> view" where
  "drop_user user V = V\<lparr>vfiles := (vfiles V)(user := None)\<rparr>"

definition files_in :: "view \<Rightarrow> string \<Rightarrow> (string, string) omap" where
  "files_in V user = (case vfiles V user of None \<Rightarrow> [] | Some m \<Rightarrow> m)"

section \<open>The commands on views\<close>

type_synonym action = "view \<Rightarrow> view \<times> string list"

text \<open>The error replies of \<open>get_helper\<close>, and the command on the file it finds.\<close>

definition with_file :: "string \<Rightarrow> string \<Rightarrow> ((string, string) omap \<Rightarrow> string \<Rightarrow> action) \<Rightarrow> action" where
  "with_file user filename f V =
     (case vfiles V user of
        None \<Rightarrow> (V, [msg_no_user])
      | Some m \<Rightarrow> (case oget m filename of None \<Rightarrow> (V, [msg_no_file]) | Some v \<Rightarrow> f m v V))"

definition spec_get :: "string \<Rightarrow> string \<Rightarrow> action" where
  "spec_get user filename = with_file user filename (\<lambda>m v V. (V, [msg_value, v]))"

definition spec_put :: "int \<Rightarrow> bool \<Rightarrow> string \<Rightarrow> string \<Rightarrow> string \<Rightarrow> int \<Rightarrow> action" where
  "spec_put cap primary user filename v seq V =
     (if cap < int (length v) then (V, [msg_file_exceeds])
      else if cap \<le> vquota V user + int (length v) then (V, [msg_exceeds_node])
      else (charge user (int (length v)) (put_files user (append_value filename v (files_in V user)) V),
            [if primary then msg_stored else done_report user seq]))"

definition spec_cput :: "int \<Rightarrow> bool \<Rightarrow> string \<Rightarrow> string \<Rightarrow> string \<Rightarrow> string \<Rightarrow> int \<Rightarrow> action" where
  "spec_cput cap primary user filename old new seq =
     with_file user filename (\<lambda>m v V.
       if v = old then
         (let V1 = charge user (- int (length old)) V in
          if cap \<le> vquota V1 user + int (length new) then (V1, [msg_exceeds_node])
          else if vused V1 + int (length new) \<le> cap
          then (charge user (int (length new)) (put_files user (oupd filename new m) V1),
                [if primary then msg_new_stored else done_report user seq])
          else (V1, []))
       else (V, [msg_version]))"

definition spec_dele :: "bool \<Rightarrow> string \<Rightarrow> string \<Rightarrow> int \<Rightarrow> bool \<Rightarrow> action" where
  "spec_dele primary user filename seq migration =
     with_file user filename (\<lambda>m v V.
       let m' = odel filename m in
       (charge user (- int (length v)) (if m' = [] then drop_user user V else put_files user m' V),
        if primary then (if migration then [] else [msg_deleted])
        else if seq \<noteq> 0 then [done_report user seq] else []))"

definition spec_rename :: "bool \<Rightarrow> string \<Rightarrow> string \<Rightarrow> string \<Rightarrow> int \<Rightarrow> action" where
  "spec_rename primary user old_name new_name seq =
     with_file user old_name (\<lambda>m v V.
       (put_files user (oupd new_name v (odel old_name m)) V,
        [if primary then msg_renamed else done_report user seq]))"

section \<open>Refinement\<close>

definition refines :: "int \<Rightarrow> kv \<Rightarrow> kv res \<Rightarrow> action \<Rightarrow> bool" where
  "refines fd s r act \<longleftrightarrow>
     (\<exists>s'. r = Ok s' \<and> kv_wf s' \<and> same_node s s' \<and>
        view_of s' = fst (act (view_of s)) \<and>
        sent s' = sent s @ map (Pair fd) (snd (act (view_of s))))"

text \<open>The counters stay within an \<open>int\<close>.\<close>

definition counters_ok :: "kv \<Rightarrow> string \<Rightarrow> bool" where
  "counters_ok s user \<longleftrightarrow>
     0 \<le> memory_used s \<and> memory_used s \<le> capacity s \<and> capacity s < 2 ^ 31 \<and>
     0 \<le> oget_def 0 (user_size s) user \<and> oget_def 0 (user_size s) user \<le> capacity s"

lemma view_of_sel [simp]:
  "vfiles (view_of s) = files_of s" "vused (view_of s) = memory_used s"
  "vquota (view_of s) = oget_def 0 (user_size s)"
  by (simp_all add: view_of_def)

lemma view_of_frame:
  "files_of s' = files_of s \<Longrightarrow> memory_used s' = memory_used s \<Longrightarrow> user_size s' = user_size s \<Longrightarrow>
   view_of s' = view_of s"
  by (simp add: view_of_def)

lemma view_of_send [simp]: "view_of (send_msg fd m s) = view_of s"
  by (simp add: view_of_def)

lemma files_in_view [simp]: "files_in (view_of s) user = files_list s user"
  by (simp add: files_in_def files_list_def)

lemma same_node_simps [simp]:
  "same_node s (send_msg fd m t) = same_node s t"
  "same_node s (t\<lparr>memory_used := n\<rparr>) = same_node s t"
  "same_node s (t\<lparr>heap := h\<rparr>) = same_node s t"
  "same_node (t\<lparr>heap := h\<rparr>) s = same_node t s"
  "same_node s (t\<lparr>tablets := ts\<rparr>) = same_node s t"
  "same_node s (t\<lparr>user_size := us\<rparr>) = same_node s t"
  "same_node s (add_user_size user k t) = same_node s t"
  by (simp_all add: same_node_def)

lemma view_eqI:
  "vfiles V = vfiles W \<Longrightarrow> vused V = vused W \<Longrightarrow> vquota V = vquota W \<Longrightarrow> V = (W :: view)"
  by simp

text \<open>Every command but \<open>put\<close> starts with \<open>get_helper\<close>: the errors are settled once.\<close>

lemma get_helper_refines:
  assumes wf: "kv_wf s" and res: "oget (virmem_meta s) user = None"
    and found: "\<And>h m v. \<lbrakk>kv_wf (s\<lparr>heap := h\<rparr>); files_of (s\<lparr>heap := h\<rparr>) = files_of s;
        files_of s user = Some m; oget m filename = Some v\<rbrakk> \<Longrightarrow>
      refines fd (s\<lparr>heap := h\<rparr>) (k v (s\<lparr>heap := h\<rparr>)) (f m v)"
  shows "refines fd s
    (rbind (get_helper fetch user filename fd s) (\<lambda>(r, s).
       case r of None \<Rightarrow> Ok s | Some v \<Rightarrow> k v s)) (with_file user filename f)"
proof -
  obtain h where h: "kv_wf (s\<lparr>heap := h\<rparr>)" "files_of (s\<lparr>heap := h\<rparr>) = files_of s"
    and g: "get_helper fetch user filename fd s =
      (case files_of s user of
         None \<Rightarrow> Ok (None, send_msg fd msg_no_user (s\<lparr>heap := h\<rparr>))
       | Some m \<Rightarrow>
          (case oget m filename of
             None \<Rightarrow> Ok (None, send_msg fd msg_no_file (s\<lparr>heap := h\<rparr>))
           | Some v \<Rightarrow> Ok (Some v, s\<lparr>heap := h\<rparr>)))"
    using get_helper_resident [OF wf res] by blast
  have v: "view_of (s\<lparr>heap := h\<rparr>) = view_of s" by (rule view_of_frame) (simp_all add: h(2))
  show ?thesis
  proof (cases "files_of s user")
    case None
    then show ?thesis by (simp add: refines_def g with_file_def h v)
  next
    case (Some m)
    show ?thesis
    proof (cases "oget m filename")
      case None
      with Some show ?thesis by (simp add: refines_def g with_file_def h v)
    next
      case (Some v')
      with found [OF h(1,2) \<open>files_of s user = Some m\<close> Some] \<open>files_of s user = Some m\<close>
      show ?thesis by (auto simp: refines_def g with_file_def v)
    qed
  qed
qed

lemma to_u64_small: "0 \<le> n \<Longrightarrow> n < 2 ^ 64 \<Longrightarrow> to_u64 n = n"
  by (simp add: to_u64_def)

lemma to_i32_small: "0 \<le> n \<Longrightarrow> n < 2 ^ 31 \<Longrightarrow> to_i32 n = n"
  by (rule to_i32_id) (simp add: in_i32_def)

lemma oget_def_oindex [simp]: "oget_def d (oindex d k m) j = oget_def d m j"
  by (simp add: oindex_def oget_def_def split: option.split)

lemma view_of_oindex [simp]:
  "view_of (s\<lparr>user_size := oindex 0 user (user_size s)\<rparr>) = view_of s"
  by (simp add: view_of_def fun_eq_iff)

lemma lru_put_refines:
  assumes wf: "kv_wf s" and res: "oget (virmem_meta s) user = None" and cnt: "counters_ok s user"
    and len: "length value < 2 ^ 31"
    and mem: "memory_used s + int (length value) \<le> capacity s \<or>
      capacity s \<le> oget_def 0 (user_size s) user + int (length value)"
  shows "refines fd s (lru_put (Suc n) user filename value fd True seq s)
    (spec_put (capacity s) (is_primary s) user filename value seq)"
proof -
  let ?len = "int (length value)" and ?q = "oget_def 0 (user_size s) user"
  have u: "to_u64 (capacity s) = capacity s" "to_u64 (?q + ?len) = ?q + ?len"
    using cnt len by (auto simp: counters_ok_def intro!: to_u64_small)
  consider (big) "capacity s < ?len" | (quota) "\<not> capacity s < ?len" "capacity s \<le> ?q + ?len"
    | (ok) "\<not> capacity s \<le> ?q + ?len" by linarith
  then show ?thesis
  proof cases
    case big
    then show ?thesis using wf by (simp add: refines_def lru_put_def put_entry_def spec_put_def u)
  next
    case quota
    then show ?thesis
      using wf by (simp add: refines_def lru_put_def put_entry_def spec_put_def u put_helper_def Let_def)
  next
    case ok
    have "room s user (length value)"
      using ok mem cnt by (auto simp: room_def mem_room_def quota_room_def counters_ok_def)
    from lru_put_resident [OF wf res this, of n filename fd seq] ok cnt show ?thesis
      by (auto simp: refines_def spec_put_def charge_def put_files_def counters_ok_def view_of_def
          fun_eq_iff files_in_def files_list_def)
  qed
qed

lemma lru_get_refines:
  assumes wf: "kv_wf s" and res: "oget (virmem_meta s) user = None"
  shows "refines fd s (lru_get n user filename fd s) (spec_get user filename)"
  unfolding lru_get_def spec_get_def
proof (rule get_helper_refines [OF wf res])
  fix h m v assume "kv_wf (s\<lparr>heap := h\<rparr>)"
  then show "refines fd (s\<lparr>heap := h\<rparr>)
      (Ok (send_msg fd v (send_msg fd msg_value (s\<lparr>heap := h\<rparr>)))) (\<lambda>V. (V, [msg_value, v]))"
    by (simp add: refines_def)
qed

text \<open>The file of a user fits into the counters it is charged to.\<close>

definition charged :: "kv \<Rightarrow> string \<Rightarrow> string \<Rightarrow> bool" where
  "charged s user filename \<longleftrightarrow>
     (let n = int (length (oget_def [] (files_list s user) filename))
      in n \<le> memory_used s \<and> n \<le> oget_def 0 (user_size s) user)"

lemma files_list_cong: "files_of s' = files_of s \<Longrightarrow> files_list s' = files_list s"
  by (rule ext) (simp add: files_list_def)

text \<open>\<open>user_size[user]\<close> and \<open>memory_used\<close> lowered by the length of a value.\<close>

definition uncharge :: "string \<Rightarrow> int \<Rightarrow> kv \<Rightarrow> kv" where
  "uncharge user n s =
     (add_user_size user (- n) s)\<lparr>memory_used := to_i32 (memory_used s - n)\<rparr>"

lemma uncharge_ok:
  assumes "counters_ok s user" and "0 \<le> n" and "n \<le> memory_used s" and "n \<le> oget_def 0 (user_size s) user"
  shows "view_of (uncharge user n s) = charge user (- n) (view_of s)" and "counters_ok (uncharge user n s) user"
proof -
  have "to_i32 (memory_used s - n) = memory_used s - n"
    "to_i32 (oget_def 0 (user_size s) user - n) = oget_def 0 (user_size s) user - n"
    using assms by (auto simp: counters_ok_def intro!: to_i32_small)
  then show "view_of (uncharge user n s) = charge user (- n) (view_of s)"
    "counters_ok (uncharge user n s) user"
    using assms by (auto simp: uncharge_def view_of_def charge_def fun_eq_iff counters_ok_def)
qed

lemma uncharge_simps [simp]:
  "kv_wf s \<Longrightarrow> kv_wf (uncharge user n s)"
  "files_of (uncharge user n s) = files_of s"
  "same_node t (uncharge user n s) = same_node t s"
  "sent (uncharge user n s) = sent s"
  "tablets (uncharge user n s) = tablets s"
  "capacity (uncharge user n s) = capacity s"
  "is_primary (uncharge user n s) = is_primary s"
  "virmem_meta (uncharge user n s) = virmem_meta s"
  by (simp_all add: uncharge_def)

lemma cput_put_refines:
  assumes wf: "kv_wf s" and res: "oget (virmem_meta s) user = None" and cnt: "counters_ok s user"
    and len: "length new < 2 ^ 31" and m: "files_of s user = Some m"
  shows "refines fd s
    (rbind (put_helper fetch user filename new fd True True seq s) (\<lambda>(_, s). Ok s))
    (\<lambda>V. if capacity s \<le> vquota V user + int (length new) then (V, [msg_exceeds_node])
          else if vused V + int (length new) \<le> capacity s
          then (charge user (int (length new)) (put_files user (oupd filename new m) V),
                [if is_primary s then msg_new_stored else done_report user seq])
          else (V, []))"
proof -
  let ?len = "int (length new)" and ?q = "oget_def 0 (user_size s) user"
  have u: "to_u64 (capacity s) = capacity s" "to_u64 (?q + ?len) = ?q + ?len"
    "to_u64 (memory_used s + ?len) = memory_used s + ?len"
    using cnt len by (auto simp: counters_ok_def intro!: to_u64_small)
  consider (quota) "capacity s \<le> ?q + ?len"
    | (mem) "\<not> capacity s \<le> ?q + ?len" "\<not> memory_used s + ?len \<le> capacity s"
    | (ok) "\<not> capacity s \<le> ?q + ?len" "memory_used s + ?len \<le> capacity s" by linarith
  then show ?thesis
  proof cases
    case quota
    then show ?thesis using wf by (simp add: refines_def put_helper_def Let_def u)
  next
    case mem
    then show ?thesis using wf by (simp add: refines_def put_helper_def Let_def u)
  next
    case ok
    then have "mem_room s (length new)" "quota_room s user (length new)"
      using cnt by (auto simp: mem_room_def quota_room_def counters_ok_def)
    with put_helper_resident [where external = True and isCPUT = True, OF wf res, of new fetch filename fd seq]
      ok m show ?thesis
      by (auto simp: refines_def view_of_def charge_def put_files_def files_list_def fun_eq_iff)
  qed
qed

lemma lru_cput_refines:
  assumes wf: "kv_wf s" and res: "oget (virmem_meta s) user = None" and cnt: "counters_ok s user"
    and len: "length new < 2 ^ 31" and charged: "charged s user filename"
  shows "refines fd s (lru_cput n user filename old new fd seq s)
    (spec_cput (capacity s) (is_primary s) user filename old new seq)"
  unfolding lru_cput_def spec_cput_def
proof (rule get_helper_refines [OF wf res])
  fix h and m :: "(string, string) omap" and v :: string
  define t where "t = s\<lparr>heap := h\<rparr>"
  assume wf': "kv_wf (s\<lparr>heap := h\<rparr>)" and fo: "files_of (s\<lparr>heap := h\<rparr>) = files_of s"
    and m: "files_of s user = Some m" and v: "oget m filename = Some v"
  have t: "kv_wf t" "files_of t = files_of s" "capacity t = capacity s" "is_primary t = is_primary s"
    "memory_used t = memory_used s" "user_size t = user_size s" "virmem_meta t = virmem_meta s"
    using wf' fo by (simp_all add: t_def)
  let ?n = "int (length v)"
  have n: "0 \<le> ?n" "?n \<le> memory_used t" "?n \<le> oget_def 0 (user_size t) user"
    using charged m v t(5,6) by (simp_all add: charged_def files_list_def oget_def_def Let_def)
  have cnt': "counters_ok t user" using cnt t by (simp add: counters_ok_def)
  note un = uncharge_ok [OF cnt' n]
  from cput_put_refines [OF _ _ un(2) len, of m] t res m
  have put: "refines fd (uncharge user ?n t)
    (rbind (put_helper (reload n fd) user filename new fd True True seq (uncharge user ?n t)) (\<lambda>(_, s). Ok s))
    (\<lambda>V. if capacity s \<le> vquota V user + int (length new) then (V, [msg_exceeds_node])
          else if vused V + int (length new) \<le> capacity s
          then (charge user (int (length new)) (put_files user (oupd filename new m) V),
                [if is_primary s then msg_new_stored else done_report user seq])
          else (V, []))"
    by (simp cong: if_cong)
  have same: "same_node (uncharge user ?n t) = same_node t"
    by (rule ext) (simp add: same_node_def uncharge_def)
  show "refines fd (s\<lparr>heap := h\<rparr>)
     (if v = old
      then let s = add_user_size user (- int (length old)) (s\<lparr>heap := h\<rparr>);
               s = s\<lparr>memory_used := to_i32 (memory_used s - int (length old))\<rparr>
           in rbind (put_helper (reload n fd) user filename new fd True True seq s) (\<lambda>(_, s). Ok s)
      else Ok (send_msg fd msg_version (s\<lparr>heap := h\<rparr>)))
     (\<lambda>V. if v = old
          then let V1 = charge user (- int (length old)) V
               in if capacity s \<le> vquota V1 user + int (length new) then (V1, [msg_exceeds_node])
                  else if vused V1 + int (length new) \<le> capacity s
                  then (charge user (int (length new)) (put_files user (oupd filename new m) V1),
                        [if is_primary s then msg_new_stored else done_report user seq])
                  else (V1, [])
          else (V, [msg_version]))"
    using put wf' un(1) unfolding t_def [symmetric]
    by (auto simp: refines_def same Let_def simp flip: uncharge_def)
qed

lemma oget_map_nonempty: "oget m k = Some v \<Longrightarrow> m \<noteq> []"
  by auto

lemma user_files_ok:
  assumes "kv_wf s" and "files_of s user = Some m"
  shows "user_files user s = Ok m"
proof -
  obtain a where a: "oget (tablets s) user = Some a"
    using assms(2) by (auto simp: files_of_def split: option.splits)
  obtain n where "heap s a = Some n" "files_of s user = Some (nvalue n)"
    by (rule kv_wf_node [OF assms(1) a])
  then show ?thesis using a assms(2) by (simp add: user_files_def)
qed

text \<open>Erasing a user from \<open>tablets\<close> leaves its node in the list.\<close>

lemma erase_user_ok:
  assumes "kv_wf s"
  shows "kv_wf (s\<lparr>tablets := odel user (tablets s)\<rparr>)"
    and "files_of (s\<lparr>tablets := odel user (tablets s)\<rparr>) = (files_of s)(user := None)"
proof -
  have o: "oget (odel user (tablets s)) u = (if u = user then None else oget (tablets s) u)" for u
    using assms by (simp add: kv_wf_def)
  show "files_of (s\<lparr>tablets := odel user (tablets s)\<rparr>) = (files_of s)(user := None)"
    by (rule ext) (simp add: files_of_def o split: option.split)
  show "kv_wf (s\<lparr>tablets := odel user (tablets s)\<rparr>)"
    using assms by (simp add: kv_wf_def nodes_ok_def o)
qed

lemma lru_rename_refines:
  assumes wf: "kv_wf s" and res: "oget (virmem_meta s) user = None"
  shows "refines fd s (lru_rename n user old_name new_name fd seq s)
    (spec_rename (is_primary s) user old_name new_name seq)"
  unfolding lru_rename_def spec_rename_def
proof (rule get_helper_refines [OF wf res])
  fix h and m :: "(string, string) omap" and v :: string
  define t where "t = s\<lparr>heap := h\<rparr>"
  let ?m = "oupd new_name v (odel old_name m)"
  assume "kv_wf (s\<lparr>heap := h\<rparr>)" and "files_of (s\<lparr>heap := h\<rparr>) = files_of s"
    and m: "files_of s user = Some m"
  then have t: "kv_wf t" "files_of t user = Some m" "is_primary t = is_primary s"
    by (simp_all add: t_def)
  have "osorted ?m" using kv_wf_files_sorted [OF t(1,2)] by simp
  then obtain h' where h': "set_user_files user ?m t = Ok (t\<lparr>heap := h'\<rparr>)" "kv_wf (t\<lparr>heap := h'\<rparr>)"
    "files_of (t\<lparr>heap := h'\<rparr>) = (files_of t)(user \<mapsto> ?m)"
    using set_user_files_ok [OF t(1)] t(2) by blast
  then have "view_of (t\<lparr>heap := h'\<rparr>) = put_files user ?m (view_of t)"
    by (simp add: view_of_def put_files_def)
  then show "refines fd (s\<lparr>heap := h\<rparr>)
     (rbind (user_files user (s\<lparr>heap := h\<rparr>)) (\<lambda>m.
      rbind (set_user_files user (oupd new_name v (odel old_name m)) (s\<lparr>heap := h\<rparr>)) (\<lambda>s.
      Ok (if is_primary s then send_msg fd msg_renamed s else send_msg fd (done_report user seq) s))))
     (\<lambda>V. (put_files user ?m V, [if is_primary s then msg_renamed else done_report user seq]))"
    using user_files_ok [OF t(1,2)] h'(1,2) t(3) unfolding t_def [symmetric]
    by (simp add: refines_def)
qed

lemma lru_dele_refines:
  assumes wf: "kv_wf s" and res: "oget (virmem_meta s) user = None" and cnt: "counters_ok s user"
    and charged: "charged s user filename"
  shows "refines fd s (lru_dele n user filename fd seq migration s)
    (spec_dele (is_primary s) user filename seq migration)"
  unfolding lru_dele_def spec_dele_def
proof (rule get_helper_refines [OF wf res])
  fix h and m :: "(string, string) omap" and v :: string
  define t where "t = s\<lparr>heap := h\<rparr>"
  let ?m = "odel filename m" and ?n = "int (length v)"
  define u where "u = uncharge user ?n t"
  assume "kv_wf (s\<lparr>heap := h\<rparr>)" and "files_of (s\<lparr>heap := h\<rparr>) = files_of s"
    and m: "files_of s user = Some m" and v: "oget m filename = Some v"
  then have t: "kv_wf t" "files_of t = files_of s" "is_primary t = is_primary s"
    "memory_used t = memory_used s" "user_size t = user_size s" "capacity t = capacity s"
    by (simp_all add: t_def)
  have n: "0 \<le> ?n" "?n \<le> memory_used t" "?n \<le> oget_def 0 (user_size t) user"
    using charged m v t(4,5) by (simp_all add: charged_def files_list_def oget_def_def Let_def)
  have "counters_ok t user" using cnt t by (simp add: counters_ok_def)
  then have u: "view_of u = charge user (- ?n) (view_of t)"
    unfolding u_def using uncharge_ok n by blast
  have u': "kv_wf u" "files_of u user = Some m" "is_primary u = is_primary s" "same_node t u" "sent u = sent t"
    using t m by (simp_all add: u_def)
  have "osorted ?m" using kv_wf_files_sorted [OF u'(1,2)] by simp
  then obtain h' where h': "set_user_files user ?m u = Ok (u\<lparr>heap := h'\<rparr>)" "kv_wf (u\<lparr>heap := h'\<rparr>)"
    "files_of (u\<lparr>heap := h'\<rparr>) = (files_of u)(user \<mapsto> ?m)"
    using set_user_files_ok [OF u'(1)] u'(2) by blast
  define w where "w = (if is_primary s
    then (if \<not> migration then send_msg fd msg_deleted (u\<lparr>heap := h'\<rparr>) else u\<lparr>heap := h'\<rparr>)
    else (if seq \<noteq> 0 then send_msg fd (done_report user seq) (u\<lparr>heap := h'\<rparr>) else u\<lparr>heap := h'\<rparr>))"
  have w: "kv_wf w" "files_of w = (files_of u)(user \<mapsto> ?m)" "same_node t w"
    "memory_used w = memory_used u" "user_size w = user_size u"
    "sent w = sent t @ map (Pair fd) (if is_primary s then (if migration then [] else [msg_deleted])
        else if seq \<noteq> 0 then [done_report user seq] else [])"
    using h' u' by (auto simp: w_def)
  define x where "x = (if ?m = [] then w\<lparr>tablets := odel user (tablets w)\<rparr> else w)"
  have x: "kv_wf x" "same_node t x" "sent x = sent w"
    "view_of x = (let V = view_of u in if ?m = [] then drop_user user V else put_files user ?m V)"
    using w erase_user_ok [OF w(1)]
    by (auto simp: x_def view_of_def drop_user_def put_files_def)
  have charge: "charge user k (drop_user user V) = drop_user user (charge user k V)"
    "charge user k (put_files user m V) = put_files user m (charge user k V)" for k m V
    by (simp_all add: charge_def drop_user_def put_files_def)
  show "refines fd (s\<lparr>heap := h\<rparr>)
     (rbind (user_files user (s\<lparr>heap := h\<rparr>)) (\<lambda>m.
         let len = int (length (oget_def [] m filename));
             s = add_user_size user (- len) (s\<lparr>heap := h\<rparr>);
             s = s\<lparr>memory_used := to_i32 (memory_used s - len)\<rparr>
         in
         rbind (set_user_files user (odel filename m) s) (\<lambda>s.
         let s = (if is_primary s
                  then (if \<not> migration then send_msg fd msg_deleted s else s)
                  else (if seq \<noteq> 0 then send_msg fd (done_report user seq) s else s))
         in
         rbind (user_files user s) (\<lambda>m.
         Ok (if m = [] then s\<lparr>tablets := odel user (tablets s)\<rparr> else s)))))
     (\<lambda>V. let m' = odel filename m in
       (charge user (- int (length v)) (if m' = [] then drop_user user V else put_files user m' V),
        if is_primary s then (if migration then [] else [msg_deleted])
        else if seq \<noteq> 0 then [done_report user seq] else []))"
    (is "refines fd _ ?run _")
  proof -
    have "oget_def [] m filename = v" using v by (simp add: oget_def_def)
    moreover have "user_files user w = Ok ?m" using user_files_ok [OF w(1), where m = ?m] w(2) by simp
    moreover have "(add_user_size user (- ?n) t)\<lparr>memory_used := to_i32 (memory_used t - ?n)\<rparr> = u"
      by (simp add: u_def uncharge_def)
    moreover have "user_files user t = Ok m" using user_files_ok [OF t(1), where m = m] t(2) m by simp
    ultimately have "?run = Ok x"
      using h'(1) u'(3) unfolding t_def [symmetric] Let_def x_def w_def
      by (simp split del: if_split) (simp split: if_splits)
    then show ?thesis
      using x w(6) u unfolding t_def [symmetric]
      by (simp add: refines_def Let_def charge)
  qed
qed

end
