(* ===== verification/KV_Trace.thy ===== *)
theory KV_Trace
  imports KV_Lru_Spec
begin

text \<open>
  The accounting of the cache and runs of several commands. A view is \<open>balanced\<close> when
  \<open>memory_used\<close> is the sum of the counters in \<open>user_size\<close>, and each counter is at least the bytes
  of its user: a \<open>rename\<close> onto another file frees that file without lowering the counters. Commands
  keep it as long as what they add fits into the budget the counters leave (\<open>within\<close>). Under it, any
  sequence of commands on the pointer structure behaves as the contract says.
\<close>

section \<open>Sizes\<close>

definition msize :: "(string, string) omap \<Rightarrow> int" where
  "msize m = (\<Sum>(f, v)\<leftarrow>m. int (length v))"

lemma msize_simps [simp]:
  "msize [] = 0"
  "msize ((f, v) # m) = int (length v) + msize m"
  by (simp_all add: msize_def)

lemma msize_nonneg [simp]: "0 \<le> msize m"
  by (induction m) auto

lemma msize_oupd:
  "osorted m \<Longrightarrow>
   msize (oupd f v m) = msize m - int (length (oget_def [] m f)) + int (length v)"
proof (induction f v m rule: oupd.induct)
  case (2 f v a b m)
  have "oget_def [] ((a, b) # m) f = []" if "f < a"
    using 2(2) that by (auto simp: oget_def_def osorted_Cons map_of_eq_None_iff split: option.split
        dest!: map_of_SomeD)
  with 2 show ?case by (auto simp: osorted_Cons oget_def_def)
qed (simp add: oget_def_def)

lemma msize_odel:
  "osorted m \<Longrightarrow> msize (odel f m) = msize m - int (length (oget_def [] m f))"
proof (induction f m rule: odel.induct)
  case (2 f a b m)
  have "odel f m = m" if "a = f"
    using 2(3) that by (intro odel_id) (auto simp: osorted_Cons map_of_eq_None_iff)
  with 2 show ?case by (auto simp: osorted_Cons oget_def_def)
qed (simp add: oget_def_def)

lemma msize_le: "oget m f = Some v \<Longrightarrow> int (length v) \<le> msize m"
  by (induction m) (auto split: if_splits)

section \<open>The bytes held\<close>

definition held :: "view \<Rightarrow> int" where
  "held V = (\<Sum>u\<in>dom (vfiles V). msize (files_in V u))"

definition balanced :: "int \<Rightarrow> view \<Rightarrow> bool" where
  "balanced cap V \<longleftrightarrow>
     (\<forall>u. osorted (files_in V u) \<and> msize (files_in V u) \<le> vquota V u) \<and>
     finite {u. vquota V u \<noteq> 0} \<and> vused V = (\<Sum>u | vquota V u \<noteq> 0. vquota V u) \<and> vused V \<le> cap"

lemma files_in_simps [simp]:
  "files_in (charge user n V) u = files_in V u"
  "files_in (put_files user m V) u = (if u = user then m else files_in V u)"
  "files_in (drop_user user V) u = (if u = user then [] else files_in V u)"
  by (simp_all add: files_in_def charge_def put_files_def drop_user_def)

lemma view_simps [simp]:
  "vused (charge user n V) = vused V + n"
  "vused (put_files user m V) = vused V"
  "vused (drop_user user V) = vused V"
  "vquota (charge user n V) = (vquota V)(user := vquota V user + n)"
  "vquota (put_files user m V) = vquota V"
  "vquota (drop_user user V) = vquota V"
  "vfiles (charge user n V) = vfiles V"
  "vfiles (put_files user m V) = (vfiles V)(user \<mapsto> m)"
  "vfiles (drop_user user V) = (vfiles V)(user := None)"
  by (simp_all add: charge_def put_files_def drop_user_def)

lemma held_superset:
  assumes "finite A" and "dom (vfiles V) \<subseteq> A"
  shows "held V = (\<Sum>u\<in>A. msize (files_in V u))"
  unfolding held_def using assms
  by (intro sum.mono_neutral_left) (auto simp: files_in_def split: option.split)

lemma balanced_counters:
  assumes "balanced cap V"
  shows "0 \<le> vused V" and "vused V \<le> cap" and "0 \<le> vquota V u" and "vquota V u \<le> vused V"
    and "msize (files_in V u) \<le> vquota V u"
proof -
  have q: "0 \<le> vquota V w" for w
    using assms order_trans [OF msize_nonneg] by (auto simp: balanced_def)
  have u: "finite {w. vquota V w \<noteq> 0}" "vused V = (\<Sum>w | vquota V w \<noteq> 0. vquota V w)"
    using assms by (simp_all add: balanced_def)
  show "0 \<le> vused V" unfolding u(2) by (rule sum_nonneg) (rule q)
  then show "vquota V u \<le> vused V"
    using u member_le_sum [of u "{w. vquota V w \<noteq> 0}" "vquota V"] q by (cases "vquota V u = 0") auto
  show "vused V \<le> cap" "0 \<le> vquota V u" "msize (files_in V u) \<le> vquota V u"
    using assms q by (auto simp: balanced_def)
qed

lemma sum_charge:
  fixes g :: "'a \<Rightarrow> int"
  assumes "finite {u. g u \<noteq> 0}"
  shows "finite {u. (g(user := g user + k)) u \<noteq> 0}"
    and "(\<Sum>u | (g(user := g user + k)) u \<noteq> 0. (g(user := g user + k)) u) = (\<Sum>u | g u \<noteq> 0. g u) + k"
proof -
  let ?h = "g(user := g user + k)" and ?A = "insert user {u. g u \<noteq> 0}"
  have A: "finite ?A" "user \<in> ?A" using assms by simp_all
  show "finite {u. ?h u \<noteq> 0}" by (rule finite_subset [OF _ A(1)]) auto
  have "sum ?h {u. ?h u \<noteq> 0} = sum ?h ?A" by (rule sum.mono_neutral_left [OF A(1)]) auto
  moreover have "sum g {u. g u \<noteq> 0} = sum g ?A" by (rule sum.mono_neutral_left [OF A(1)]) auto
  moreover have "sum ?h (?A - {user}) = sum g (?A - {user})" by (rule sum.cong) auto
  ultimately show "(\<Sum>u | ?h u \<noteq> 0. ?h u) = (\<Sum>u | g u \<noteq> 0. g u) + k"
    using sum.remove [OF A, of ?h] sum.remove [OF A, of g] by simp
qed

text \<open>A change of one user's files that its counter covers.\<close>

lemma balanced_change:
  assumes bal: "balanced cap V" and m: "osorted m" and k: "msize m \<le> vquota V user + k"
    and cap: "vused V + k \<le> cap"
    and W: "W = charge user k (put_files user m V) \<or> W = charge user k (drop_user user V) \<and> m = []"
  shows "balanced cap W"
proof -
  have f: "files_in W u = (if u = user then m else files_in V u)" for u using W by auto
  have q: "vquota W = (vquota V)(user := vquota V user + k)" "vused W = vused V + k" using W by auto
  have "finite {u. vquota V u \<noteq> 0}" using bal by (simp add: balanced_def)
  note sum_charge [OF this, of user k, folded q(1)]
  then show ?thesis using bal m k cap by (simp add: balanced_def f q(2)) (simp add: q(1))
qed

section \<open>Commands\<close>

datatype command =
    Put string string string
  | Get string string
  | Cput string string string string
  | Dele string string
  | Rename string string string

fun run_command :: "nat \<Rightarrow> int \<Rightarrow> int \<Rightarrow> command \<Rightarrow> kv \<Rightarrow> kv res" where
  "run_command n fd seq (Put u f v) = lru_put n u f v fd True seq"
| "run_command n fd seq (Get u f) = lru_get n u f fd"
| "run_command n fd seq (Cput u f v w) = lru_cput n u f v w fd seq"
| "run_command n fd seq (Dele u f) = lru_dele n u f fd seq False"
| "run_command n fd seq (Rename u f g) = lru_rename n u f g fd seq"

fun spec_command :: "int \<Rightarrow> bool \<Rightarrow> int \<Rightarrow> command \<Rightarrow> action" where
  "spec_command cap pr seq (Put u f v) = spec_put cap pr u f v seq"
| "spec_command cap pr seq (Get u f) = spec_get u f"
| "spec_command cap pr seq (Cput u f v w) = spec_cput cap pr u f v w seq"
| "spec_command cap pr seq (Dele u f) = spec_dele pr u f seq False"
| "spec_command cap pr seq (Rename u f g) = spec_rename pr u f g seq"

text \<open>
  No eviction is needed, and an accepted comparison is followed by a value that is admitted.
\<close>

fun within :: "int \<Rightarrow> command \<Rightarrow> view \<Rightarrow> bool" where
  "within cap (Put u f v) V \<longleftrightarrow> length v < 2 ^ 31 \<and>
     (vused V + int (length v) \<le> cap \<or> cap \<le> vquota V u + int (length v))"
| "within cap (Cput u f v w) V \<longleftrightarrow> length w < 2 ^ 31 \<and>
     (oget (files_in V u) f = Some v \<longrightarrow>
        vused V - int (length v) + int (length w) \<le> cap \<and>
        vquota V u - int (length v) + int (length w) < cap)"
| "within cap _ V \<longleftrightarrow> True"

lemma with_file_cases:
  assumes "vfiles V u = None \<Longrightarrow> P (V, [msg_no_user])"
    and "\<And>m. vfiles V u = Some m \<Longrightarrow> oget m f = None \<Longrightarrow> P (V, [msg_no_file])"
    and "\<And>m v. vfiles V u = Some m \<Longrightarrow> files_in V u = m \<Longrightarrow> oget m f = Some v \<Longrightarrow> P (g m v V)"
  shows "P (with_file u f g V)"
  using assms by (auto simp: with_file_def files_in_def split: option.split)

lemma balanced_put:
  assumes "balanced cap V" and "within cap (Put u f v) V"
  shows "balanced cap (fst (spec_put cap pr u f v seq V))"
proof -
  let ?m = "append_value f v (files_in V u)"
  have "osorted (files_in V u)" using assms(1) by (simp add: balanced_def)
  then have "msize ?m = msize (files_in V u) + int (length v)" "osorted ?m"
    by (simp_all add: append_value_def msize_oupd)
  then show ?thesis
    using assms balanced_counters(5) [OF assms(1), of u] balanced_change [OF assms(1), of ?m u "int (length v)"]
    by (auto simp: spec_put_def)
qed

lemma balanced_cput:
  assumes bal: "balanced cap V" and "within cap (Cput u f v w) V"
  shows "balanced cap (fst (spec_cput cap pr u f v w seq V))"
  unfolding spec_cput_def
proof (rule with_file_cases)
  fix m x assume m: "files_in V u = m" "oget m f = Some x"
  let ?m = "oupd f w m" and ?V = "charge u (- int (length v)) V"
  have "osorted m" using bal m by (auto simp: balanced_def)
  then have sz: "msize ?m \<le> vquota V u + (int (length w) - int (length x))" "osorted ?m"
    using m balanced_counters(5) [OF bal, of u] by (simp_all add: msize_oupd oget_def_def)
  have "charge u (int (length w)) (put_files u ?m ?V) =
      charge u (int (length w) - int (length v)) (put_files u ?m V)"
    by (simp add: charge_def put_files_def algebra_simps)
  then show "balanced cap (fst (if x = v
       then let V1 = ?V
            in if cap \<le> vquota V1 u + int (length w) then (V1, [msg_exceeds_node])
               else if vused V1 + int (length w) \<le> cap
               then (charge u (int (length w)) (put_files u ?m V1),
                     [if pr then msg_new_stored else done_report u seq])
               else (V1, [])
       else (V, [msg_version])))"
    using assms m sz balanced_change [OF bal sz(2,1)] by (auto simp: Let_def)
qed (use bal in simp_all)

lemma balanced_dele:
  assumes bal: "balanced cap V"
  shows "balanced cap (fst (spec_dele pr u f seq mig V))"
  unfolding spec_dele_def
proof (rule with_file_cases)
  fix m v assume m: "files_in V u = m" "oget m f = Some v"
  let ?m = "odel f m" and ?n = "- int (length v)"
  have "osorted m" using bal m by (auto simp: balanced_def)
  then have sz: "osorted ?m" "msize ?m \<le> vquota V u + ?n"
    using m balanced_counters(5) [OF bal, of u] by (simp_all add: msize_odel oget_def_def)
  have "vused V + ?n \<le> cap" using bal by (simp add: balanced_def)
  from balanced_change [OF bal sz this]
  show "balanced cap (fst (let m' = ?m in
       (charge u ?n (if m' = [] then drop_user u V else put_files u m' V),
        if pr then (if mig then [] else [msg_deleted])
        else if seq \<noteq> 0 then [done_report u seq] else [])))"
    by (auto simp: Let_def)
qed (use bal in simp_all)

lemma balanced_rename:
  assumes bal: "balanced cap V"
  shows "balanced cap (fst (spec_rename pr u f g seq V))"
  unfolding spec_rename_def
proof (rule with_file_cases)
  fix m v assume m: "files_in V u = m" "oget m f = Some v"
  let ?m = "oupd g v (odel f m)"
  have s: "osorted m" using bal m by (auto simp: balanced_def)
  have "msize ?m \<le> msize (files_in V u)"
    using s m by (simp add: msize_oupd msize_odel oget_def_def split: option.split)
  then have "msize ?m \<le> vquota V u + 0" using balanced_counters(5) [OF bal, of u] by simp
  moreover have "osorted ?m" "vused V + 0 \<le> cap" using s bal by (simp_all add: balanced_def)
  ultimately have "balanced cap (charge u 0 (put_files u ?m V))"
    using balanced_change [OF bal] by blast
  moreover have "charge u 0 (put_files u ?m V) = put_files u ?m V"
    by (simp add: charge_def)
  ultimately show "balanced cap (fst (put_files u ?m V, [if pr then msg_renamed else done_report u seq]))"
    by simp
qed (use bal in simp_all)

lemma balanced_command:
  assumes "balanced cap V" and "within cap c V"
  shows "balanced cap (fst (spec_command cap pr seq c V))"
proof (cases c)
  case (Get u f)
  have "fst (spec_get u f V) = V"
    unfolding spec_get_def by (rule with_file_cases) simp_all
  then show ?thesis using assms Get by simp
qed (use assms balanced_put balanced_cput balanced_dele balanced_rename in auto)

section \<open>Runs of commands\<close>

text \<open>One request: the connection, the sequence number and the command.\<close>

type_synonym request = "int \<times> int \<times> command"

fun run_requests :: "nat \<Rightarrow> request list \<Rightarrow> kv \<Rightarrow> kv res" where
  "run_requests n [] s = Ok s"
| "run_requests n ((fd, seq, c) # rs) s = rbind (run_command n fd seq c s) (run_requests n rs)"

fun spec_requests :: "int \<Rightarrow> bool \<Rightarrow> request list \<Rightarrow> view \<Rightarrow> view \<times> (int \<times> string) list" where
  "spec_requests cap pr [] V = (V, [])"
| "spec_requests cap pr ((fd, seq, c) # rs) V =
     (let (V, out) = spec_command cap pr seq c V; (V, outs) = spec_requests cap pr rs V
      in (V, map (Pair fd) out @ outs))"

fun all_within :: "int \<Rightarrow> bool \<Rightarrow> request list \<Rightarrow> view \<Rightarrow> bool" where
  "all_within cap pr [] V \<longleftrightarrow> True"
| "all_within cap pr ((fd, seq, c) # rs) V \<longleftrightarrow>
     within cap c V \<and> all_within cap pr rs (fst (spec_command cap pr seq c V))"

lemma balanced_ok:
  assumes "balanced (capacity s) (view_of s)" and "capacity s < 2 ^ 31"
  shows "counters_ok s u" and "charged s u f"
proof -
  note c = balanced_counters [OF assms(1)]
  show "counters_ok s u" using c(1,2) c(3,4) [of u] assms(2) by (simp add: counters_ok_def)
  have "int (length (oget_def [] (files_list s u) f)) \<le> msize (files_list s u)"
    using msize_le [of "files_list s u" f] by (auto simp: oget_def_def split: option.split)
  then show "charged s u f" using c(4,5) [of u] by (simp add: charged_def Let_def)
qed

lemma command_refines:
  assumes wf: "kv_wf s" and res: "virmem_meta s = []"
    and bal: "balanced (capacity s) (view_of s)" and cap: "capacity s < 2 ^ 31"
    and w: "within (capacity s) c (view_of s)"
  shows "refines fd s (run_command (Suc n) fd seq c s) (spec_command (capacity s) (is_primary s) seq c)"
proof -
  have r: "oget (virmem_meta s) u = None" for u by (simp add: res)
  note ok = balanced_ok [OF bal cap]
  show ?thesis
  proof (cases c)
    case (Put u f v)
    then show ?thesis using lru_put_refines [OF wf r ok(1), of v] w by simp
  next
    case (Cput u f v x)
    then show ?thesis using lru_cput_refines [OF wf r ok(1) _ ok(2), of x] w by simp
  next
    case (Dele u f)
    then show ?thesis using lru_dele_refines [OF wf r ok] by simp
  qed (simp_all add: lru_get_refines [OF wf r] lru_rename_refines [OF wf r])
qed

text \<open>C1: Any sequence of the commands put, get, cput, dele and rename succeeds on the linked list, the
  address table and the files, and does to the mapping of users and files to values and to the
  memory counters, and answers, exactly what the abstract specification of the commands says, and
  the structure stays well formed: from a state where no user is on disk and the counters cover what
  is held, as long as each value put either fits below the memory counter or is refused by the quota
  of the user, and a comparison that succeeds is followed by a value for which there is room. A
  rename onto another existing file is included: the specification says that the bytes of the
  overwritten file stay charged.\<close>

theorem requests_refine:
  assumes "kv_wf s" and "virmem_meta s = []" and "balanced (capacity s) (view_of s)"
    and "capacity s < 2 ^ 31" and "all_within (capacity s) (is_primary s) rs (view_of s)"
  shows "\<exists>s'. run_requests (Suc n) rs s = Ok s' \<and> kv_wf s' \<and> same_node s s' \<and>
    balanced (capacity s) (view_of s') \<and>
    view_of s' = fst (spec_requests (capacity s) (is_primary s) rs (view_of s)) \<and>
    sent s' = sent s @ snd (spec_requests (capacity s) (is_primary s) rs (view_of s))"
  using assms
proof (induction rs arbitrary: s)
  case (Cons r rs)
  obtain fd seq c where r: "r = (fd, seq, c)" by (cases r)
  have w: "within (capacity s) c (view_of s)" using Cons.prems(5) by (simp add: r)
  let ?act = "spec_command (capacity s) (is_primary s) seq c (view_of s)"
  obtain t where t: "run_command (Suc n) fd seq c s = Ok t" "kv_wf t" "same_node s t"
    "view_of t = fst ?act" "sent t = sent s @ map (Pair fd) (snd ?act)"
    using command_refines [OF Cons.prems(1-4) w] unfolding refines_def by blast
  have same: "capacity t = capacity s" "virmem_meta t = virmem_meta s" "is_primary t = is_primary s"
    using t(3) by (simp_all add: same_node_def)
  have "balanced (capacity t) (view_of t)"
    using balanced_command [OF Cons.prems(3) w] t(4) same by simp
  from Cons.IH [OF t(2) _ this] obtain u where u: "run_requests (Suc n) rs t = Ok u" "kv_wf u"
    "same_node t u" "balanced (capacity s) (view_of u)"
    "view_of u = fst (spec_requests (capacity s) (is_primary s) rs (view_of t))"
    "sent u = sent t @ snd (spec_requests (capacity s) (is_primary s) rs (view_of t))"
    using Cons.prems same t(4) by (auto simp: r)
  show ?case
    using t u same_node_trans [OF t(3) u(3)]
    by (auto simp: r split_beta Let_def)
qed simp

end
