(* ===== verification/KV_Chunkserver.thy ===== *)
theory KV_Chunkserver
  imports KV_Lru
begin

text \<open>
  The chunk server of a node (\<open>kvstore/chunkserver.cc\<close>): the request lines and their arguments,
  the log, the metadata files, checkpoints, the copy sent to the secondary and data migration.

  \<^item> A request is a C string. The handlers cut the command off with \<open>strlen(line) - k\<close>, which wraps
    around for a shorter line; \<open>arguments\<close> has the outcomes of the allocation and the copy.
  \<^item> \<open>parse_line\<close> uses a variable \<open>counter\<close> that no file declares. The model reads it as the count
    of the arguments parsed so far, starting at zero, as in the functions next to it.
  \<^item> Replay and reload send their replies to descriptor -1, where they are lost; \<open>sent\<close> keeps them.
\<close>

section \<open>Arguments of a request\<close>

definition msg_not_supported :: string where "msg_not_supported = ''-ERR Not supported'' @ crlf"

definition cs_error :: "int \<Rightarrow> kv \<Rightarrow> kv" where
  "cs_error fd s = send_msg fd msg_not_supported s"

fun parse_line_from :: "nat \<Rightarrow> string \<Rightarrow> nat \<Rightarrow> string list" where
  "parse_line_from counter s num_of_args =
     (if counter < num_of_args - 1
      then (case cut (CHR '','') s of
              Some (t, r) \<Rightarrow> t # parse_line_from (Suc counter) r num_of_args
            | None \<Rightarrow> [s])
      else [s])"

declare parse_line_from.simps [simp del]

definition parse_line :: "string \<Rightarrow> nat \<Rightarrow> string list" where
  "parse_line s num_of_args = parse_line_from 0 s num_of_args"

text \<open>\<open>strlen(line) - k\<close> characters from \<open>line + k\<close>, into a buffer of one more.\<close>

definition arguments :: "nat \<Rightarrow> string \<Rightarrow> string res" where
  "arguments k line =
     (let n = length (c_str line)
      in if Suc n < k then Fail BadAlloc else if n < k then Fail Undefined else Ok (drop k (c_str line)))"

text \<open>\<open>t.assign(s, 0, s.size() - 2)\<close>: all of \<open>s\<close> when the subtraction wraps around.\<close>

definition chop_end :: "string \<Rightarrow> string" where
  "chop_end s = (if length s < 2 then s else take (length s - 2) s)"

section \<open>The log and the secondary\<close>

definition log_path :: string where "log_path = ''log''"

definition write_log :: "string \<Rightarrow> kv \<Rightarrow> kv" where
  "write_log request s = s\<lparr>disk := write_file log_path (c_str request) (disk s)\<rparr>"

definition send_to_secondary :: "string \<Rightarrow> string \<Rightarrow> kv \<Rightarrow> kv res" where
  "send_to_secondary line user s =
     rbind (i32_add (oget_def 0 (seq_num_records s) user) 1) (\<lambda>sequence.
     let operation = c_str line;
         s = s\<lparr>seq_num_records := oupd user sequence (seq_num_records s),
               primary_holdback :=
                 oupd user (oget_def [] (primary_holdback s) user @ [\<lparr>sq = sequence, msg = operation\<rparr>])
                   (primary_holdback s)\<rparr>
     in Ok (send_msg (secondary_fd s) (to_string sequence @ '','' @ operation) s))"

text \<open>What follows the command in every handler that writes.\<close>

definition log_and_send :: "string \<Rightarrow> string \<Rightarrow> bool \<Rightarrow> kv \<Rightarrow> kv res" where
  "log_and_send line user external s =
     (if external then
        (let s = write_log line s
         in if is_primary s then send_to_secondary line user s else Ok s)
      else Ok s)"

section \<open>The handlers\<close>

definition cs_put :: "nat \<Rightarrow> string \<Rightarrow> bool \<Rightarrow> int \<Rightarrow> int \<Rightarrow> kv \<Rightarrow> kv res" where
  "cs_put n line external fd seq s =
     rbind (arguments 4 line) (\<lambda>to_be_parsed.
     case parse_line to_be_parsed 3 of
       [user, filename, value] \<Rightarrow>
         rbind (lru_put n user filename value fd True seq s) (log_and_send line user external)
     | _ \<Rightarrow> Ok (cs_error fd s))"

definition cs_get :: "nat \<Rightarrow> string \<Rightarrow> int \<Rightarrow> kv \<Rightarrow> kv res" where
  "cs_get n line fd s =
     rbind (arguments 4 line) (\<lambda>to_be_parsed.
     case parse_line to_be_parsed 2 of
       [user, filename] \<Rightarrow> lru_get n user (chop_end filename) fd s
     | _ \<Rightarrow> Ok (cs_error fd s))"

definition cs_cput :: "nat \<Rightarrow> string \<Rightarrow> bool \<Rightarrow> int \<Rightarrow> int \<Rightarrow> kv \<Rightarrow> kv res" where
  "cs_cput n line external fd seq s =
     rbind (arguments 5 line) (\<lambda>to_be_parsed.
     case parse_line to_be_parsed 4 of
       [user, filename, old, new_value] \<Rightarrow>
         rbind (lru_cput n user filename (old @ crlf) new_value fd seq s) (log_and_send line user external)
     | _ \<Rightarrow> Ok (cs_error fd s))"

definition cs_dele :: "nat \<Rightarrow> string \<Rightarrow> bool \<Rightarrow> bool \<Rightarrow> int \<Rightarrow> int \<Rightarrow> kv \<Rightarrow> kv res" where
  "cs_dele n line external is_migration fd seq s =
     rbind (arguments 5 line) (\<lambda>to_be_parsed.
     case parse_line to_be_parsed 2 of
       [user, filename] \<Rightarrow>
         rbind (lru_dele n user (chop_end filename) fd seq is_migration s) (log_and_send line user external)
     | _ \<Rightarrow> Ok (cs_error fd s))"

definition cs_getlist :: "nat \<Rightarrow> string \<Rightarrow> int \<Rightarrow> kv \<Rightarrow> kv res" where
  "cs_getlist n line fd s =
     rbind (arguments 8 line) (\<lambda>to_be_parsed.
     case parse_line to_be_parsed 2 of
       [user, type] \<Rightarrow> lru_getlist n user (chop_end type) fd s
     | _ \<Rightarrow> Ok (cs_error fd s))"

definition cs_getfile :: "nat \<Rightarrow> string \<Rightarrow> int \<Rightarrow> kv \<Rightarrow> kv res" where
  "cs_getfile n line fd s =
     (if length (c_str line) > 10
      then rbind (substr (c_str line) 8 (length (c_str line) - 10)) (\<lambda>user. lru_getfile n user fd s)
      else Ok (cs_error fd s))"

definition cs_rename :: "nat \<Rightarrow> string \<Rightarrow> bool \<Rightarrow> int \<Rightarrow> int \<Rightarrow> kv \<Rightarrow> kv res" where
  "cs_rename n line external fd seq s =
     rbind (arguments 7 line) (\<lambda>to_be_parsed.
     case parse_line to_be_parsed 3 of
       [user, old_filename, new_filename] \<Rightarrow>
         rbind (lru_rename n user old_filename (chop_end new_filename) fd seq s)
           (log_and_send line user external)
     | _ \<Rightarrow> Ok (cs_error fd s))"

section \<open>Replaying the log\<close>

definition first_word :: "string \<Rightarrow> string" where
  "first_word line = (case cut (CHR '' '') line of None \<Rightarrow> [] | Some (t, _) \<Rightarrow> t)"

text \<open>The record is the C string of the line, with its newline again.\<close>

definition replay_line :: "nat \<Rightarrow> string \<Rightarrow> kv \<Rightarrow> kv res" where
  "replay_line n line s =
     (let record = c_str line @ [LF]; command = first_word line in
      if command = ''put'' then cs_put n record False (- 1) 0 s
      else if command = ''cput'' then cs_cput n record False (- 1) 0 s
      else if command = ''dele'' then cs_dele n record False False (- 1) 0 s
      else Ok s)"

definition replay_log :: "nat \<Rightarrow> kv \<Rightarrow> kv res" where
  "replay_log n s =
     (case file_content (disk s) log_path of
        None \<Rightarrow> Ok s
      | Some c \<Rightarrow> foldr_res (replay_line n) (getlines LF c) s)"

section \<open>The metadata files\<close>

definition record_text :: "int list \<Rightarrow> string res" where
  "record_text r =
     (if length r < 3 then Fail OutOfRange
      else Ok (to_string (r ! 0) @ '','' @ to_string (r ! 1) @ '','' @ to_string (r ! 2) @ '';''))"

fun records_text :: "int list list \<Rightarrow> string res" where
  "records_text [] = Ok []"
| "records_text (r # rs) =
     rbind (record_text r) (\<lambda>t. rbind (records_text rs) (\<lambda>ts. Ok (t @ ts)))"

fun meta_text :: "meta \<Rightarrow> string res" where
  "meta_text [] = Ok []"
| "meta_text ((user, rs) # m) =
     rbind (records_text rs) (\<lambda>t. rbind (meta_text m) (\<lambda>ts. Ok (''@'' @ user @ '';'' @ t @ ts)))"

definition write_cp_meta :: "kv \<Rightarrow> kv res" where
  "write_cp_meta s =
     rbind (meta_text (cp_meta s)) (\<lambda>meta. Ok (s\<lparr>disk := write_file ''metadata/cp_meta'' meta (disk s)\<rparr>))"

definition write_virmem_meta :: "kv \<Rightarrow> kv res" where
  "write_virmem_meta s =
     rbind (meta_text (virmem_meta s)) (\<lambda>meta.
     Ok (s\<lparr>disk := write_file ''metadata/virmem_meta'' meta (disk s)\<rparr>))"

definition chunk_info_text :: "kv \<Rightarrow> string res" where
  "chunk_info_text s =
     rbind (info_at ''checkpointing'' 0 s) (\<lambda>a.
     rbind (info_at ''checkpointing'' 1 s) (\<lambda>b.
     rbind (info_at ''virtual memory'' 0 s) (\<lambda>c.
     rbind (info_at ''virtual memory'' 1 s) (\<lambda>d.
     Ok (to_string a @ '','' @ to_string b @ '','' @ to_string c @ '','' @ to_string d @ '','' @
         to_string (memory_used s))))))"

definition write_chunk_info :: "kv \<Rightarrow> kv res" where
  "write_chunk_info s =
     rbind (chunk_info_text s) (\<lambda>meta.
     Ok (s\<lparr>disk := write_file ''metadata/chunk_info'' meta (disk s)\<rparr>))"

definition user_size_text :: "(string, int) omap \<Rightarrow> string" where
  "user_size_text m = concat (map (\<lambda>(user, n). user @ '','' @ to_string n @ '','') m)"

definition write_user_size :: "kv \<Rightarrow> kv" where
  "write_user_size s =
     s\<lparr>disk := write_file ''metadata/user_size'' (user_size_text (user_size s)) (disk s)\<rparr>"

section \<open>Loading the metadata\<close>

fun stoi_list :: "string list \<Rightarrow> int list res" where
  "stoi_list [] = Ok []"
| "stoi_list (t # ts) = rbind (stoi t) (\<lambda>i. rbind (stoi_list ts) (\<lambda>is. Ok (i # is)))"

definition rebuild_vector :: "string \<Rightarrow> int list res" where
  "rebuild_vector s = (let (ts, l) = tokens (CHR '','') s in stoi_list (ts @ [l]))"

definition push_record :: "string \<Rightarrow> string \<Rightarrow> int list \<Rightarrow> kv \<Rightarrow> kv" where
  "push_record type user r s =
     (let s1 = (if type = ''virtual memory''
                then s\<lparr>virmem_meta := oupd user (oget_def [] (virmem_meta s) user @ [r]) (virmem_meta s)\<rparr>
                else s)
      in if type = ''checkpointing''
         then s1\<lparr>cp_meta := oupd user (oget_def [] (cp_meta s1) user @ [r]) (cp_meta s1)\<rparr>
         else s1)"

definition parse_meta :: "string \<Rightarrow> string \<Rightarrow> kv \<Rightarrow> kv res" where
  "parse_meta text type s =
     (case fst (tokens (CHR '';'') text) of
        [] \<Rightarrow> Ok s
      | user # rs \<Rightarrow>
          foldr_res (\<lambda>t s. rbind (rebuild_vector t) (\<lambda>record. Ok (push_record type user record s))) rs s)"

definition load_cp_vm_meta :: "string \<Rightarrow> string \<Rightarrow> kv \<Rightarrow> kv res" where
  "load_cp_vm_meta path type s =
     (let (ts, l) = tokens (CHR ''@'') (read_file path (disk s))
      in rbind (foldr_res (\<lambda>t. parse_meta t type) (tl ts) s) (parse_meta l type))"

definition push_info :: "string \<Rightarrow> int \<Rightarrow> kv \<Rightarrow> kv" where
  "push_info type i s =
     s\<lparr>chunk_info := oupd type (oget_def [] (chunk_info s) type @ [i]) (chunk_info s)\<rparr>"

definition load_chunk_info_step :: "nat \<times> string \<Rightarrow> kv \<Rightarrow> kv res" where
  "load_chunk_info_step ct s =
     (let (counter, t) = ct in
      rbind (if counter = 0 \<or> counter = 1
             then rbind (stoi t) (\<lambda>i. Ok (push_info ''checkpointing'' i s)) else Ok s) (\<lambda>s.
      if counter = 2 \<or> counter = 3
      then rbind (stoi t) (\<lambda>i. Ok (push_info ''virtual memory'' i s)) else Ok s))"

definition load_chunk_info :: "kv \<Rightarrow> kv res" where
  "load_chunk_info s =
     foldr_res load_chunk_info_step
       (enumerate 0 (fst (tokens (CHR '','') (read_file ''metadata/chunk_info'' (disk s))))) s"

fun user_size_pairs :: "string list \<Rightarrow> kv \<Rightarrow> kv res" where
  "user_size_pairs (user # n # ts) s =
     rbind (stoi n) (\<lambda>i. user_size_pairs ts (s\<lparr>user_size := oupd user i (user_size s)\<rparr>))"
| "user_size_pairs _ s = Ok s"

definition load_user_size :: "kv \<Rightarrow> kv res" where
  "load_user_size s = user_size_pairs (fst (tokens (CHR '','') (read_file ''metadata/user_size'' (disk s)))) s"

section \<open>Checkpoints\<close>

definition checkpoint_user :: "string \<Rightarrow> kv \<Rightarrow> kv res" where
  "checkpoint_user k s =
     rbind (of_option NullDeref (oget (tablets s) k)) (\<lambda>a.
     rbind (load (heap s) (Some a)) (\<lambda>user.
     write_to_chunk (nkey user) (fst (format_node user [])) ''checkpointing'' s))"

definition on_files :: "(fsys \<Rightarrow> fsys) \<Rightarrow> kv \<Rightarrow> kv" where
  "on_files f s = s\<lparr>disk := f (disk s)\<rparr>"

definition checkpointing :: "kv \<Rightarrow> kv res" where
  "checkpointing s =
     (let s = on_files (remove_path log_path \<circ> clear_dir ''metadata/'' \<circ> clear_dir ''checkpointing/'' \<circ>
                clear_dir ''checkpointing/virtual memory/'') s;
          s = s\<lparr>cp_meta := []\<rparr>
      in
      rbind (info_at ''checkpointing'' 0 s) (\<lambda>_.
      let s = set_info ''checkpointing'' 0 0 s in
      rbind (info_at ''checkpointing'' 1 s) (\<lambda>_.
      let s = set_info ''checkpointing'' 1 0 s in
      rbind (foldr_res checkpoint_user (okeys (tablets s)) s) (\<lambda>s.
      rbind (write_cp_meta s) (\<lambda>s.
      rbind (write_virmem_meta s) (\<lambda>s.
      rbind (write_chunk_info s) (\<lambda>s.
      let s = write_user_size s in
      Ok (on_files (copy_dir ''virtual memory/'' ''checkpointing/virtual memory/'' \<circ>
            create_dir ''checkpointing/virtual memory'') s))))))))"

definition load_cp_user :: "nat \<Rightarrow> string \<Rightarrow> kv \<Rightarrow> kv res" where
  "load_cp_user n =
     load_user_from_disk (\<lambda>u f v. put_entry (- 1) v (put_loop n u f v (- 1) False 0)) ''checkpointing''"

definition load_checkpointing :: "nat \<Rightarrow> kv \<Rightarrow> kv res" where
  "load_checkpointing n s =
     rbind (load_cp_vm_meta ''metadata/cp_meta'' ''checkpointing'' s) (\<lambda>s.
     rbind (load_cp_vm_meta ''metadata/virmem_meta'' ''virtual memory'' s) (\<lambda>s.
     rbind (load_chunk_info s) (\<lambda>s.
     rbind (load_user_size s) (\<lambda>s.
     rbind (foldr_res (load_cp_user n) (okeys (cp_meta s)) s) (\<lambda>s.
     Ok (on_files (copy_dir ''checkpointing/virtual memory/'' ''virtual memory/'' \<circ>
           clear_dir ''virtual memory/'') s))))))"

section \<open>Migration\<close>

definition migrate_entry :: "nat \<Rightarrow> string \<Rightarrow> int \<Rightarrow> string \<Rightarrow> nat \<Rightarrow> kv \<Rightarrow> kv res" where
  "migrate_entry n user fd filename counter s =
     rbind (get_helper (reload n fd) user filename fd s) (\<lambda>(r, s).
     case r of
       None \<Rightarrow> Ok s
     | Some value_read \<Rightarrow> Ok (send_msg fd (''put '' @ user @ '','' @ filename @ '','' @ value_read) s))"

text \<open>
  The second loop erases the entry its iterator stands on: the increment that follows is undefined.
\<close>

definition delete_entry :: "nat \<Rightarrow> string \<Rightarrow> nat \<Rightarrow> int \<Rightarrow> string \<Rightarrow> nat \<Rightarrow> kv \<Rightarrow> kv res" where
  "delete_entry n user a fd filename counter s =
     rbind (get_helper (reload n fd) user filename fd s) (\<lambda>(r, s).
     case r of
       None \<Rightarrow> Ok s
     | Some _ \<Rightarrow>
         rbind (cs_dele n (''dele '' @ user @ '','' @ filename @ crlf) True True fd 0 s) (\<lambda>s.
         rbind (load (heap s) (Some a)) (\<lambda>nd.
         if oget (nvalue nd) filename = None then Fail Undefined else Ok s)))"

definition migrate_data :: "nat \<Rightarrow> string \<Rightarrow> int \<Rightarrow> kv \<Rightarrow> kv res" where
  "migrate_data n user fd s =
     rbind (of_option NullDeref (oget (tablets s) user)) (\<lambda>a.
     rbind (file_loop n (migrate_entry n user fd) a None 0 s) (\<lambda>s.
     rbind (of_option NullDeref (oget (tablets s) user)) (\<lambda>a.
     file_loop n (delete_entry n user a fd) a None 0 s)))"

end
