(* ===== verification/KV_Server.thy ===== *)
theory KV_Server
  imports KV_Chunkserver
begin

text \<open>
  The storage server (\<open>kvstore/kvstore.cc\<close>): start-up, the identity the master gives a node, the
  messages between primary and secondary, data migration, and one step of each worker thread.

  \<^item> A step takes the bytes one \<open>recv\<close> returned. The sockets, threads and signals are not modelled;
    the threads share the state without locks, and the model runs their steps one after another.
  \<^item> \<open>migration_fd\<close>, \<open>space_left\<close> and \<open>secondary_holdback\<close> are never read and have no counterpart.
\<close>

section \<open>Commands\<close>

definition parse_command :: "string \<Rightarrow> string res" where
  "parse_command line =
     (let c = c_str line; n = length c in
      case cut (CHR '' '') c of
        Some (word, _) \<Rightarrow>
          if word \<noteq> [] then Ok (map lower word)
          else if n < 1 then Fail BadAlloc else if n < 2 then Fail Undefined
          else Ok (map lower (take (n - 2) c))
      | None \<Rightarrow>
          if n < 1 then Fail BadAlloc else if n < 2 then Fail Undefined
          else Ok (map lower (take (n - 2) c)))"

text \<open>Start-up\<close>

definition initialize_chunk_info :: "string \<Rightarrow> kv \<Rightarrow> kv" where
  "initialize_chunk_info key s =
     s\<lparr>chunk_info := oupd key (oget_def [] (chunk_info s) key @ [0, 0]) (chunk_info s)\<rparr>"

definition initialization :: "nat \<Rightarrow> bool \<Rightarrow> kv \<Rightarrow> kv res" where
  "initialization n opt_n s =
     (let s = on_files (create_dir ''metadata'' \<circ> create_dir ''checkpointing'' \<circ>
                create_dir ''virtual memory'') s
      in
      if opt_n then
        (let s = on_files (clear_dir ''metadata/'' \<circ> clear_dir ''checkpointing/'' \<circ>
                   clear_dir ''checkpointing/virtual memory/'' \<circ> clear_dir ''virtual memory/'') s
         in Ok (initialize_chunk_info ''checkpointing'' (initialize_chunk_info ''virtual memory'' s)))
      else rbind (load_checkpointing n s) (replay_log n))"

section \<open>Identity\<close>

text \<open>\<open>ip\<close> keeps the part before the last colon.\<close>

definition parse_ip_and_port :: "string \<Rightarrow> string \<Rightarrow> (string \<times> int) res" where
  "parse_ip_and_port s ip =
     (let (ts, l) = tokens (CHR '':'') s
      in rbind (stoi l) (\<lambda>port. Ok (if ts = [] then ip else last ts, port mod 2 ^ 32)))"

datatype identity =
    Primary
  | Primary_migrating "string \<times> int" string
  | Secondary "string \<times> int"

definition confirm_identity :: "string \<Rightarrow> identity res" where
  "confirm_identity feedback =
     (let s = c_str feedback in
      if s = ''P'' then Ok Primary
      else if length s > 1 \<and> s ! 1 = CHR '' '' then
        (case cut (CHR '','') s of
           Some (t, r) \<Rightarrow>
             rbind (substr s 2 (length t)) (\<lambda>ip_port.
             rbind (parse_ip_and_port ip_port []) (\<lambda>addr. Ok (Primary_migrating addr r)))
         | None \<Rightarrow> rbind (parse_ip_and_port [] []) (\<lambda>addr. Ok (Primary_migrating addr s)))
      else
        rbind (substr_from s 2) (\<lambda>ip_port.
        rbind (parse_ip_and_port ip_port []) (\<lambda>addr. Ok (Secondary addr))))"

text \<open>The datagram to the master, and its answer in a buffer of 255 bytes.\<close>

definition ask_master :: "int \<Rightarrow> string" where
  "ask_master node_id = CHR ''!'' # to_string node_id"

definition contact_master :: "(string \<Rightarrow> string) \<Rightarrow> int \<Rightarrow> identity res" where
  "contact_master master node_id = confirm_identity (take 254 (master (ask_master node_id)))"

definition identity_primary :: "identity \<Rightarrow> bool" where
  "identity_primary i = (case i of Secondary _ \<Rightarrow> False | _ \<Rightarrow> True)"

section \<open>Primary and secondary\<close>

fun report_user :: "string \<Rightarrow> string list \<Rightarrow> string" where
  "report_user user [] = user"
| "report_user user (t # ts) = report_user t ts"

definition handle_secondary_report :: "string \<Rightarrow> kv \<Rightarrow> kv res" where
  "handle_secondary_report line s =
     rbind (substr_from (c_str line) 5) (\<lambda>t.
     let (ts, l) = tokens (CHR '','') t; user = report_user [] ts in
     rbind (stoi l) (\<lambda>seq_num.
     let left = filter (\<lambda>p. sq p \<noteq> seq_num) (oget_def [] (primary_holdback s) user)
     in Ok (s\<lparr>primary_holdback :=
          if left = [] then odel user (primary_holdback s)
          else oupd user left (primary_holdback s)\<rparr>)))"

definition check_primary_holdback :: "kv \<Rightarrow> kv" where
  "check_primary_holdback s =
     fold (\<lambda>(user, ps). fold (\<lambda>p. send_msg (secondary_fd s) (to_string (sq p) @ '','' @ msg p)) ps)
       (primary_holdback s) s"

text \<open>
  One message of the primary. Without a comma the code subtracts from a null pointer.
\<close>

definition ps_step :: "nat \<Rightarrow> int \<Rightarrow> string \<Rightarrow> kv \<Rightarrow> kv res" where
  "ps_step n fd buffer s =
     (case cut (CHR '','') (c_str buffer) of
        None \<Rightarrow> Fail Undefined
      | Some (seq_text, line) \<Rightarrow>
          (let seq_num = atoi seq_text in
           rbind (parse_command line) (\<lambda>command.
           if command = ''put'' then cs_put n line True fd seq_num s
           else if command = ''cput'' then cs_cput n line True fd seq_num s
           else if command = ''dele'' then cs_dele n line True False fd seq_num s
           else if command = ''rename'' then cs_rename n line True fd seq_num s
           else Ok s)))"

section \<open>Migration\<close>

definition msg_migrated :: string where "msg_migrated = ''MIGRATION DONE'' @ crlf"

definition data_migration :: "nat \<Rightarrow> string \<Rightarrow> int \<Rightarrow> kv \<Rightarrow> kv res" where
  "data_migration n line fd s =
     rbind (substr_from (c_str line) 8) (\<lambda>t.
     rbind (foldr_res (\<lambda>user. migrate_data n user fd) (fst (tokens (CHR '','') t)) s) (\<lambda>s.
     Ok (send_msg fd msg_migrated s)))"

text \<open>One message in \<open>migrate_worker\<close>; the result says whether it was the last one.\<close>

definition migrate_step :: "nat \<Rightarrow> int \<Rightarrow> string \<Rightarrow> kv \<Rightarrow> (bool \<times> kv) res" where
  "migrate_step n fd line s =
     rbind (parse_command line) (\<lambda>command.
     rbind (if command = ''put'' then cs_put n line False fd 0 s else Ok s) (\<lambda>s.
     Ok (c_str line = msg_migrated, s)))"

section \<open>The worker\<close>

definition msg_done :: string where "msg_done = ''!!!DONE!!!'' @ crlf"

definition answered :: "int \<Rightarrow> kv res \<Rightarrow> kv res" where
  "answered fd r = rbind r (\<lambda>s. Ok (send_msg fd msg_done s))"

text \<open>
  One message of a client or of the secondary. The flag is \<open>isQuit\<close>: a connection that is not the
  secondary's is closed after one command.
\<close>

definition worker_step :: "nat \<Rightarrow> int \<Rightarrow> string \<Rightarrow> bool \<times> kv \<Rightarrow> (bool \<times> kv) res" where
  "worker_step n fd line st =
     (let (isQuit, s) = st; c = c_str line in
      if c = ''S'' @ crlf then Ok (isQuit, check_primary_holdback (s\<lparr>secondary_fd := fd\<rparr>))
      else if c = ''shutdown'' @ crlf then Fail (Exit 5)
      else
        (let isQuit = (isQuit \<or> fd \<noteq> secondary_fd s) in
         rbind (parse_command line) (\<lambda>command.
         if command = ''quit'' then Ok (True, s)
         else
           rbind
             (if command = ''put'' then answered fd (cs_put n line True fd 0 s)
              else if command = ''get'' then answered fd (cs_get n line fd s)
              else if command = ''cput'' then answered fd (cs_cput n line True fd 0 s)
              else if command = ''dele'' then answered fd (cs_dele n line True False fd 0 s)
              else if command = ''getlist'' then answered fd (cs_getlist n line fd s)
              else if command = ''getfile'' then answered fd (cs_getfile n line fd s)
              else if command = ''rename'' then answered fd (cs_rename n line True fd 0 s)
              else if command = ''done'' then handle_secondary_report line s
              else if command = ''request'' then data_migration n line fd s
              else Ok (cs_error fd s))
             (\<lambda>s. Ok (isQuit, s)))))"

text \<open>
  The loop over what \<open>recv\<close> returns. At the end of the connection it returns nothing, and the loop
  goes on: \<open>k\<close> bounds the rounds.
\<close>

fun worker :: "nat \<Rightarrow> nat \<Rightarrow> int \<Rightarrow> string list \<Rightarrow> bool \<times> kv \<Rightarrow> kv res" where
  "worker 0 n fd ms st = Fail OutOfFuel"
| "worker (Suc k) n fd ms st =
     (if fst st then Ok (snd st)
      else case ms of
             [] \<Rightarrow> worker k n fd [] st
           | m # ms \<Rightarrow> if m = [] then worker k n fd ms st else rbind (worker_step n fd m st) (worker k n fd ms))"

text \<open>
  The accept loop of \<open>main\<close>. Each turn begins with a test: a secondary with a worker thread takes over as
  primary. \<open>accept_connection\<close> is what happens from the return of \<open>accept\<close> to its next call: the thread
  is started and counted, and the next turn begins. The count is that of the worker threads.
\<close>

definition loop_top :: "int \<times> kv \<Rightarrow> int \<times> kv" where
  "loop_top st =
     (let (thread_counter, s) = st
      in (thread_counter, if thread_counter \<noteq> 0 \<and> \<not> is_primary s then s\<lparr>is_primary := True\<rparr> else s))"

definition accept_connection :: "int \<times> kv \<Rightarrow> int \<times> kv" where
  "accept_connection st = (let (thread_counter, s) = st in loop_top (thread_counter + 1, s))"

end
