(* ===== verification/KV_Protocol.thy ===== *)
theory KV_Protocol
  imports KV_Trace KV_Server
begin

text \<open>
  Requests on the wire, in the log and between the replicas. \<open>wire c\<close> is the line a client sends
  for a command; the worker, the log replay and the secondary all parse it back to that command.
  From this follow the recovery of a crashed node from its log, and the agreement of primary and
  secondary.
\<close>

section \<open>Parsing\<close>

lemma parse_line_stop: "num \<le> Suc k \<Longrightarrow> parse_line_from k s num = [s]"
  by (subst parse_line_from.simps) simp

lemma parse_line_more:
  "CHR '','' \<notin> set t \<Longrightarrow> Suc k < num \<Longrightarrow>
   parse_line_from k (t @ CHR '','' # r) num = t # parse_line_from (Suc k) r num"
  by (subst parse_line_from.simps) (simp add: cut_append)

lemma parse_line_args:
  "CHR '','' \<notin> set u \<Longrightarrow> parse_line (u @ CHR '','' # f) 2 = [u, f]"
  "CHR '','' \<notin> set u \<Longrightarrow> CHR '','' \<notin> set f \<Longrightarrow>
   parse_line (u @ CHR '','' # f @ CHR '','' # v) 3 = [u, f, v]"
  "CHR '','' \<notin> set u \<Longrightarrow> CHR '','' \<notin> set f \<Longrightarrow> CHR '','' \<notin> set v \<Longrightarrow>
   parse_line (u @ CHR '','' # f @ CHR '','' # v @ CHR '','' # w) 4 = [u, f, v, w]"
  by (simp_all add: parse_line_def parse_line_more parse_line_stop)

lemma chop_end_crlf [simp]: "chop_end (s @ crlf) = s"
  by (simp add: chop_end_def)

section \<open>Request lines\<close>

fun wire :: "command \<Rightarrow> string" where
  "wire (Put u f v) = ''put '' @ u @ '','' @ f @ '','' @ v"
| "wire (Get u f) = ''get '' @ u @ '','' @ f @ crlf"
| "wire (Cput u f v w) = ''cput '' @ u @ '','' @ f @ '','' @ v @ '','' @ w"
| "wire (Dele u f) = ''dele '' @ u @ '','' @ f @ crlf"
| "wire (Rename u f g) = ''rename '' @ u @ '','' @ f @ '','' @ g @ crlf"

text \<open>What the handlers make of it: \<open>cput\<close> puts the line end back that \<open>parse_line\<close> cannot see.\<close>

fun executed :: "command \<Rightarrow> command" where
  "executed (Cput u f v w) = Cput u f (v @ crlf) w"
| "executed c = c"

fun user_of :: "command \<Rightarrow> string" where
  "user_of (Put u f v) = u"
| "user_of (Get u f) = u"
| "user_of (Cput u f v w) = u"
| "user_of (Dele u f) = u"
| "user_of (Rename u f g) = u"

fun writes :: "command \<Rightarrow> bool" where
  "writes (Get u f) = False"
| "writes c = True"

fun fields :: "command \<Rightarrow> string list" where
  "fields (Put u f v) = [u, f]"
| "fields (Get u f) = [u]"
| "fields (Cput u f v w) = [u, f, v]"
| "fields (Dele u f) = [u]"
| "fields (Rename u f g) = [u, f]"

text \<open>The line is a C string, and the fields before the last one hold no comma.\<close>

definition sane :: "command \<Rightarrow> bool" where
  "sane c \<longleftrightarrow> NUL \<notin> set (wire c) \<and> (\<forall>t \<in> set (fields c). CHR '','' \<notin> set t)"

lemma c_str_wire [simp]: "sane c \<Longrightarrow> c_str (wire c) = wire c"
  by (simp add: sane_def c_str_id)

definition after_write :: "command \<Rightarrow> bool \<Rightarrow> kv \<Rightarrow> kv res" where
  "after_write c external s = (if writes c then log_and_send (wire c) (user_of c) external s else Ok s)"

lemma arguments_drop: "NUL \<notin> set s \<Longrightarrow> k \<le> length s \<Longrightarrow> arguments k s = Ok (drop k s)"
  by (simp add: arguments_def c_str_id Let_def)

lemma rbind_Ok_right [simp]: "rbind m (\<lambda>x. Ok x) = m"
  by (cases m) simp_all

lemma after_write_put: "after_write (Put u f v) external = log_and_send (wire (Put u f v)) u external"
  and after_write_cput: "after_write (Cput u f v w) external = log_and_send (wire (Cput u f v w)) u external"
  and after_write_dele: "after_write (Dele u f) external = log_and_send (wire (Dele u f)) u external"
  and after_write_rename: "after_write (Rename u f g) external = log_and_send (wire (Rename u f g)) u external"
  by (rule ext, simp add: after_write_def)+

text \<open>Each handler, on the line of its command.\<close>

lemma cs_put_wire: "sane (Put u f v) \<Longrightarrow>
   cs_put n (wire (Put u f v)) external fd seq s =
     rbind (run_command n fd seq (Put u f v) s) (after_write (Put u f v) external)"
  unfolding after_write_put by (simp add: cs_put_def sane_def arguments_drop parse_line_args)

lemma cs_get_wire: "sane (Get u f) \<Longrightarrow>
   cs_get n (wire (Get u f)) fd s = lru_get n u f fd s"
  using chop_end_crlf [of f]
  by (simp add: cs_get_def sane_def arguments_drop parse_line_args del: chop_end_crlf)

lemma cs_cput_wire: "sane (Cput u f v w) \<Longrightarrow>
   cs_cput n (wire (Cput u f v w)) external fd seq s =
     rbind (run_command n fd seq (executed (Cput u f v w)) s) (after_write (Cput u f v w) external)"
  unfolding after_write_cput by (simp add: cs_cput_def sane_def arguments_drop parse_line_args)

lemma cs_dele_wire: "sane (Dele u f) \<Longrightarrow>
   cs_dele n (wire (Dele u f)) external False fd seq s =
     rbind (run_command n fd seq (Dele u f) s) (after_write (Dele u f) external)"
  unfolding after_write_dele
  using chop_end_crlf [of f]
  by (simp add: cs_dele_def sane_def arguments_drop parse_line_args del: chop_end_crlf)

lemma cs_rename_wire: "sane (Rename u f g) \<Longrightarrow>
   cs_rename n (wire (Rename u f g)) external fd seq s =
     rbind (run_command n fd seq (Rename u f g) s) (after_write (Rename u f g) external)"
  unfolding after_write_rename
  using chop_end_crlf [of g]
  by (simp add: cs_rename_def sane_def arguments_drop parse_line_args del: chop_end_crlf)

lemmas handler_wire = cs_put_wire cs_get_wire cs_cput_wire cs_dele_wire cs_rename_wire

text \<open>The command word in front of the first space.\<close>

fun word_of :: "command \<Rightarrow> string" where
  "word_of (Put u f v) = ''put''"
| "word_of (Get u f) = ''get''"
| "word_of (Cput u f v w) = ''cput''"
| "word_of (Dele u f) = ''dele''"
| "word_of (Rename u f g) = ''rename''"

lemma wire_word: "\<exists>r. wire c = word_of c @ CHR '' '' # r"
  by (cases c) simp_all

lemma cut_wire: "\<exists>r. cut (CHR '' '') (wire c) = Some (word_of c, r)"
proof -
  obtain r where "wire c = word_of c @ CHR '' '' # r" using wire_word by blast
  moreover have "CHR '' '' \<notin> set (word_of c)" by (cases c) simp_all
  ultimately show ?thesis by (auto simp: cut_append)
qed

lemma lower_word [simp]: "map lower (word_of c) = word_of c"
  by (cases c; simp only: word_of.simps; code_simp)

lemma parse_command_wire: "sane c \<Longrightarrow> parse_command (wire c) = Ok (word_of c)"
proof -
  assume "sane c"
  moreover obtain r where "cut (CHR '' '') (wire c) = Some (word_of c, r)" using cut_wire by blast
  moreover have "word_of c \<noteq> []" by (cases c) simp_all
  ultimately show ?thesis by (simp add: parse_command_def Let_def)
qed

lemma first_word_wire: "first_word (wire c) = word_of c"
  using cut_wire [of c] by (auto simp: first_word_def)

section \<open>The worker\<close>

lemma worker_request:
  assumes "sane c"
  shows "worker_step n fd (wire c) (q, s) =
    rbind (run_command n fd 0 (executed c) s) (\<lambda>t. rbind (after_write c True t) (\<lambda>t.
      Ok (q \<or> fd \<noteq> secondary_fd s, send_msg fd msg_done t)))"
proof -
  have "wire c \<noteq> ''S'' @ crlf" "wire c \<noteq> ''shutdown'' @ crlf" by (cases c; simp)+
  moreover have "after_write (Get u f) True = Ok" for u f
    by (rule ext) (simp add: after_write_def)
  ultimately show ?thesis
    using assms parse_command_wire [OF assms]
    by (cases c) (simp_all add: worker_step_def Let_def answered_def handler_wire rbind_assoc del: wire.simps)
qed

section \<open>The log\<close>

text \<open>A command that the replay of the log executes again.\<close>

fun loggable :: "command \<Rightarrow> bool" where
  "loggable (Get u f) \<longleftrightarrow> False"
| "loggable (Rename u f g) \<longleftrightarrow> False"
| "loggable c \<longleftrightarrow> sane c \<and> wire c \<noteq> [] \<and> last (wire c) = LF \<and> LF \<notin> set (butlast (wire c))"

lemma loggable_sane: "loggable c \<Longrightarrow> sane c"
  by (cases c) simp_all

lemma first_word_prefix: "CHR '' '' \<in> set t \<Longrightarrow> first_word (t @ r) = first_word t"
proof -
  assume "CHR '' '' \<in> set t"
  then obtain a b where "t = a @ CHR '' '' # b" "CHR '' '' \<notin> set a" by (meson split_list_first)
  then show ?thesis by (simp add: first_word_def cut_append)
qed

lemma replay_line_wire:
  assumes "loggable c" and "wire c = t @ [LF]"
  shows "replay_line n t s = run_command n (- 1) 0 (executed c) s"
proof -
  have "NUL \<notin> set (wire c)" using loggable_sane [OF assms(1)] by (simp add: sane_def)
  then have rec: "c_str t @ [LF] = wire c" using assms(2) by (simp add: c_str_id)
  have "CHR '' '' \<in> set (wire c)" using wire_word [of c] by auto
  then have "CHR '' '' \<in> set t" by (simp add: assms(2) del: wire.simps)
  then have "first_word t = word_of c"
    using first_word_prefix [of t "[LF]"] first_word_wire [of c] assms(2) by simp
  moreover have "rbind m (after_write d False) = m" for m d
    by (cases m) (simp_all add: after_write_def log_and_send_def)
  ultimately show ?thesis
    using assms(1) loggable_sane [OF assms(1)]
    by (cases c) (simp_all add: replay_line_def Let_def rec handler_wire del: wire.simps)
qed

text \<open>The line of a renaming is passed over.\<close>

definition replayed :: "command \<Rightarrow> bool" where
  "replayed c \<longleftrightarrow> (\<forall>u f g. c \<noteq> Rename u f g)"

definition log_line :: "command \<Rightarrow> bool" where
  "log_line c \<longleftrightarrow> sane c \<and> writes c \<and> wire c \<noteq> [] \<and> last (wire c) = LF \<and> LF \<notin> set (butlast (wire c))"

lemma loggable_iff: "loggable c \<longleftrightarrow> log_line c \<and> replayed c"
  by (cases c) (simp_all add: log_line_def replayed_def)

lemma log_line_cases:
  assumes "log_line c"
  obtains t where "wire c = t @ [LF]" and "LF \<notin> set t" and "CHR '' '' \<in> set t"
proof -
  have l: "wire c \<noteq> []" "last (wire c) = LF" "LF \<notin> set (butlast (wire c))"
    using assms by (simp_all add: log_line_def del: wire.simps)
  then have w: "wire c = butlast (wire c) @ [LF]" by (metis append_butlast_last_id)
  have "CHR '' '' \<in> set (wire c)" using wire_word [of c] by auto
  then have "CHR '' '' \<in> set (butlast (wire c))" by (subst (asm) w) (simp del: wire.simps)
  then show thesis using that w l(3) by blast
qed

lemma replay_line_log:
  assumes "log_line c" and "wire c = t @ [LF]" and "CHR '' '' \<in> set t"
  shows "replay_line n t s = (if replayed c then run_command n (- 1) 0 (executed c) s else Ok s)"
proof (cases "replayed c")
  case True
  then show ?thesis using assms replay_line_wire [of c t n s] by (simp add: loggable_iff)
next
  case False
  then obtain u f g where c: "c = Rename u f g" by (auto simp: replayed_def)
  have "first_word t = word_of c"
    using first_word_prefix [OF assms(3), of "[LF]"] first_word_wire [of c] assms(2) by simp
  then show ?thesis using False by (simp add: replay_line_def c)
qed

lemma replay_log_lines:
  assumes "\<And>c. c \<in> set cs \<Longrightarrow> log_line c"
    and "file_content (disk s) log_path = Some (concat (map wire cs))"
  shows "replay_log n s = run_requests n (map (\<lambda>c. (- 1, 0, executed c)) (filter replayed cs)) s"
proof -
  have "foldr_res (replay_line n) (getlines LF (concat (map wire cs))) s =
      run_requests n (map (\<lambda>c. (- 1, 0, executed c)) (filter replayed cs)) s"
    using assms(1)
  proof (induction cs arbitrary: s)
    case (Cons c cs)
    have c: "log_line c" using Cons.prems by simp
    then obtain t where t: "wire c = t @ [LF]" "LF \<notin> set t" "CHR '' '' \<in> set t" by (rule log_line_cases)
    have "getlines LF (concat (map wire (c # cs))) = t # getlines LF (concat (map wire cs))"
      using t by (simp add: getlines_cons)
    then show ?case
      using Cons replay_line_log [OF c t(1,3)] by (auto intro: rbind_cong)
  qed simp
  then show ?thesis using assms(2) by (simp add: replay_log_def)
qed

lemma replay_log_requests:
  assumes "\<And>c. c \<in> set cs \<Longrightarrow> loggable c"
    and "file_content (disk s) log_path = Some (concat (map wire cs))"
  shows "replay_log n s = run_requests n (map (\<lambda>c. (- 1, 0, executed c)) cs) s"
proof -
  have "filter replayed cs = cs" using assms(1) by (simp add: filter_id_conv loggable_iff)
  then show ?thesis using replay_log_lines [of cs s n] assms by (simp add: loggable_iff)
qed

section \<open>A node that serves requests\<close>

definition log_of :: "kv \<Rightarrow> string" where
  "log_of s = (case file_content (disk s) log_path of None \<Rightarrow> [] | Some c \<Rightarrow> c)"

text \<open>A log that does not exist is an empty one.\<close>

lemma replay_log_of:
  assumes "\<And>c. c \<in> set cs \<Longrightarrow> loggable c" and "log_of s = concat (map wire cs)"
  shows "replay_log n s = run_requests n (map (\<lambda>c. (- 1, 0, executed c)) cs) s"
proof (cases "file_content (disk s) log_path")
  case None
  then have "concat (map wire cs) = []" using assms(2) by (simp add: log_of_def)
  then have "wire c = []" if "c \<in> set cs" for c using that unfolding concat_eq_Nil_conv by simp
  moreover have "wire c \<noteq> []" for c using wire_word [of c] by force
  ultimately have "set cs = {}" by (metis all_not_in_conv)
  then have "cs = []" by (simp only: set_empty)
  then show ?thesis using None by (simp add: replay_log_def)
next
  case (Some c)
  then have "file_content (disk s) log_path = Some (concat (map wire cs))"
    using assms(2) by (simp add: log_of_def)
  then show ?thesis using assms(1) by (intro replay_log_requests)
qed

definition next_seq :: "kv \<Rightarrow> string \<Rightarrow> int" where
  "next_seq s u = oget_def 0 (seq_num_records s) u + 1"

lemma next_seq_send [simp]: "next_seq (send_msg fd m s) = next_seq s"
  by (simp add: next_seq_def fun_eq_iff)

text \<open>The state after a line was logged and, on the primary, sent to the secondary.\<close>

definition logged :: "string \<Rightarrow> string \<Rightarrow> kv \<Rightarrow> kv" where
  "logged line u s =
     (let t = s\<lparr>disk := write_file log_path line (disk s)\<rparr> in
      if is_primary s then
        send_msg (secondary_fd s) (to_string (next_seq s u) @ '','' @ line)
          (t\<lparr>seq_num_records := oupd u (next_seq s u) (seq_num_records s),
             primary_holdback :=
               oupd u (oget_def [] (primary_holdback s) u @ [\<lparr>sq = next_seq s u, msg = line\<rparr>])
                 (primary_holdback s)\<rparr>)
      else t)"

lemma log_and_send_logged:
  "NUL \<notin> set line \<Longrightarrow> in_i32 (next_seq s u) \<Longrightarrow> log_and_send line u True s = Ok (logged line u s)"
  by (simp add: log_and_send_def logged_def write_log_def send_to_secondary_def c_str_id Let_def next_seq_def)

lemma logged_simps [simp]:
  "heap (logged line u s) = heap s" "tablets (logged line u s) = tablets s"
  "next_addr (logged line u s) = next_addr s" "memory_used (logged line u s) = memory_used s"
  "user_size (logged line u s) = user_size s" "capacity (logged line u s) = capacity s"
  "virmem_meta (logged line u s) = virmem_meta s" "is_primary (logged line u s) = is_primary s"
  "secondary_fd (logged line u s) = secondary_fd s"
  "disk (logged line u s) = write_file log_path line (disk s)"
  "sent (logged line u s) = sent s @
     (if is_primary s then [(secondary_fd s, to_string (next_seq s u) @ '','' @ line)] else [])"
  "next_seq (logged line u s) w = (if is_primary s \<and> w = u then next_seq s u + 1 else next_seq s w)"
  "primary_holdback (logged line u s) =
     (if is_primary s then oupd u (oget_def [] (primary_holdback s) u @ [\<lparr>sq = next_seq s u, msg = line\<rparr>])
        (primary_holdback s) else primary_holdback s)"
  by (simp_all add: logged_def Let_def next_seq_def)

lemma logged_view [simp]: "view_of (logged line u s) = view_of s"
  by (rule view_of_frame, rule files_of_frame) simp_all

lemma logged_wf [simp]: "kv_wf (logged line u s) = kv_wf s"
  by (simp add: kv_wf_def nodes_ok_def)

lemma logged_log: "can_create (disk s) log_path \<Longrightarrow> log_of (logged line u s) = log_of s @ line"
  by (simp add: log_of_def content_write_file)

text \<open>
  A node whose users are all in memory and whose counters agree with what it holds; \<open>k\<close> more
  requests can be numbered.
\<close>

definition serving :: "nat \<Rightarrow> kv \<Rightarrow> bool" where
  "serving k s \<longleftrightarrow>
     kv_wf s \<and> virmem_meta s = [] \<and> balanced (capacity s) (view_of s) \<and> capacity s < 2 ^ 31 \<and>
     can_create (disk s) log_path \<and> (\<forall>u. 0 \<le> next_seq s u \<and> next_seq s u + int k < 2 ^ 31)"

definition replies :: "kv \<Rightarrow> int \<Rightarrow> int \<Rightarrow> command \<Rightarrow> string list" where
  "replies s fd seq c = snd (spec_command (capacity s) (is_primary s) seq (executed c) (view_of s))"

text \<open>The lines the primary keeps until the secondary reports them.\<close>

definition held_line :: "command \<Rightarrow> kv \<Rightarrow> (string, msg_pair list) omap" where
  "held_line c s =
     (if is_primary s \<and> writes c
      then oupd (user_of c) (oget_def [] (primary_holdback s) (user_of c) @
             [\<lparr>sq = next_seq s (user_of c), msg = wire c\<rparr>]) (primary_holdback s)
      else primary_holdback s)"

text \<open>Requests change no file but the log.\<close>

definition only_log :: "kv \<Rightarrow> kv \<Rightarrow> bool" where
  "only_log s t \<longleftrightarrow> (\<forall>p. p \<noteq> log_path \<longrightarrow> oget (disk t) p = oget (disk s) p)"

lemma only_log_refl: "disk t = disk s \<Longrightarrow> only_log s t"
  by (simp add: only_log_def)

lemma only_log_trans: "only_log s t \<Longrightarrow> only_log t w \<Longrightarrow> only_log s w"
  by (simp add: only_log_def)

lemma only_log_logged: "disk t = disk s \<Longrightarrow> only_log s (logged line u t)"
  by (simp add: only_log_def write_file_other)

text \<open>One command with what follows it, on any connection.\<close>

lemma serve_command:
  assumes srv: "serving (Suc k) s" and c: "sane c"
    and w: "within (capacity s) (executed c) (view_of s)"
  shows "\<exists>t. rbind (run_command (Suc n) fd seq (executed c) s) (after_write c True) = Ok t \<and> serving k t \<and>
    view_of t = fst (spec_command (capacity s) (is_primary s) seq (executed c) (view_of s)) \<and>
    log_of t = log_of s @ (if writes c then wire c else []) \<and>
    capacity t = capacity s \<and> is_primary t = is_primary s \<and> secondary_fd t = secondary_fd s \<and>
    next_seq t = (next_seq s)(user_of c := next_seq s (user_of c) + (if is_primary s \<and> writes c then 1 else 0)) \<and>
    primary_holdback t = held_line c s \<and> only_log s t \<and>
    sent t = sent s @ map (Pair fd) (replies s fd seq c) @
      (if is_primary s \<and> writes c
       then [(secondary_fd s, to_string (next_seq s (user_of c)) @ '','' @ wire c)] else [])"
proof -
  let ?act = "spec_command (capacity s) (is_primary s) seq (executed c) (view_of s)"
  have s: "kv_wf s" "virmem_meta s = []" "balanced (capacity s) (view_of s)" "capacity s < 2 ^ 31"
    "can_create (disk s) log_path" "\<And>u. 0 \<le> next_seq s u \<and> next_seq s u + int (Suc k) < 2 ^ 31"
    using srv by (auto simp: serving_def)
  obtain t where t: "run_command (Suc n) fd seq (executed c) s = Ok t" "kv_wf t" "same_node s t"
    "view_of t = fst ?act" "sent t = sent s @ map (Pair fd) (snd ?act)"
    using command_refines [OF s(1-4) w] unfolding refines_def by blast
  have same: "capacity t = capacity s" "virmem_meta t = []" "is_primary t = is_primary s" "disk t = disk s"
    "secondary_fd t = secondary_fd s" "next_seq t = next_seq s" "primary_holdback t = primary_holdback s"
    using t(3) s(2) by (simp_all add: same_node_def next_seq_def fun_eq_iff)
  have bal: "balanced (capacity s) (view_of t)"
    using balanced_command [OF s(3) w] t(4) by simp
  have num: "next_seq s u + int k < 2 ^ 31" "next_seq s u + 1 + int k < 2 ^ 31" for u
    using s(6) [of u] by auto
  show ?thesis
  proof (cases "writes c")
    case False
    then have "after_write c True t = Ok t" by (simp add: after_write_def)
    moreover have "serving k t" using t(2) same bal s num by (simp add: serving_def)
    ultimately show ?thesis
      using t same False by (simp add: replies_def log_of_def fun_eq_iff held_line_def only_log_refl)
  next
    case True
    let ?u = "user_of c"
    have "in_i32 (next_seq t ?u)" using s(6) [of ?u] by (simp add: same in_i32_def)
    moreover have "NUL \<notin> set (wire c)" using c by (simp add: sane_def)
    ultimately have "after_write c True t = Ok (logged (wire c) ?u t)"
      using True by (simp add: after_write_def log_and_send_logged)
    moreover have "serving k (logged (wire c) ?u t)"
      using t(2) same bal s num by (simp add: serving_def)
    ultimately show ?thesis
      using t same True logged_log [of t "wire c" ?u] s(5)
      by (simp add: replies_def fun_eq_iff log_of_def held_line_def only_log_logged)
  qed
qed

text \<open>Requests served one after another, each on a connection of its own.\<close>

fun serve :: "nat \<Rightarrow> (int \<times> command) list \<Rightarrow> kv \<Rightarrow> kv res" where
  "serve n [] s = Ok s"
| "serve n ((fd, c) # rs) s = rbind (worker_step n fd (wire c) (False, s)) (\<lambda>(_, s). serve n rs s)"

text \<open>The view does not depend on the role of the node nor on the sequence numbers.\<close>

definition view_step :: "int \<Rightarrow> command \<Rightarrow> view \<Rightarrow> view" where
  "view_step cap c V = fst (spec_command cap True 0 (executed c) V)"

lemma with_file_fst:
  "(\<And>m v. fst (f m v V) = fst (g m v V)) \<Longrightarrow> fst (with_file u fn f V) = fst (with_file u fn g V)"
  by (simp add: with_file_def split: option.split)

lemma view_step_eq: "fst (spec_command cap pr seq (executed c) V) = view_step cap c V"
  unfolding view_step_def
  by (cases c) (auto simp: spec_put_def spec_get_def spec_cput_def spec_dele_def spec_rename_def Let_def
      intro!: with_file_fst)

fun commands_within :: "int \<Rightarrow> command list \<Rightarrow> view \<Rightarrow> bool" where
  "commands_within cap [] V \<longleftrightarrow> True"
| "commands_within cap (c # cs) V \<longleftrightarrow>
     sane c \<and> within cap (executed c) V \<and> commands_within cap cs (view_step cap c V)"

lemma serving_less: "serving (Suc k) s \<Longrightarrow> serving k s"
  unfolding serving_def by (metis (no_types, lifting) add_strict_left_mono dual_order.strict_trans lessI of_nat_less_iff)

lemma serving_num: "serving k s \<Longrightarrow> in_i32 (next_seq s u)"
proof -
  assume "serving k s"
  then have "0 \<le> next_seq s u" "next_seq s u + int k < 2 ^ 31" by (simp_all add: serving_def)
  then show ?thesis unfolding in_i32_def by linarith
qed

text \<open>One request at the worker.\<close>

lemma serve_one:
  assumes "serving (Suc k) s" and "sane c" and "within (capacity s) (executed c) (view_of s)"
  shows "\<exists>q t. worker_step (Suc n) fd (wire c) (False, s) = Ok (q, t) \<and> serving k t \<and>
    view_of t = view_step (capacity s) c (view_of s) \<and>
    log_of t = log_of s @ (if writes c then wire c else []) \<and>
    capacity t = capacity s \<and> is_primary t = is_primary s \<and> secondary_fd t = secondary_fd s \<and>
    next_seq t = (next_seq s)(user_of c := next_seq s (user_of c) + (if is_primary s \<and> writes c then 1 else 0)) \<and>
    primary_holdback t = held_line c s \<and> only_log s t \<and>
    sent t = sent s @ map (Pair fd) (replies s fd 0 c) @
      (if is_primary s \<and> writes c
       then [(secondary_fd s, to_string (next_seq s (user_of c)) @ '','' @ wire c)] else []) @
      [(fd, msg_done)]"
proof -
  obtain t where t: "rbind (run_command (Suc n) fd 0 (executed c) s) (after_write c True) = Ok t" "serving k t"
    "view_of t = view_step (capacity s) c (view_of s)"
    "log_of t = log_of s @ (if writes c then wire c else [])"
    "capacity t = capacity s" "is_primary t = is_primary s" "secondary_fd t = secondary_fd s"
    "next_seq t = (next_seq s)(user_of c := next_seq s (user_of c) + (if is_primary s \<and> writes c then 1 else 0))"
    "primary_holdback t = held_line c s" "only_log s t"
    "sent t = sent s @ map (Pair fd) (replies s fd 0 c) @
      (if is_primary s \<and> writes c
       then [(secondary_fd s, to_string (next_seq s (user_of c)) @ '','' @ wire c)] else [])"
    using serve_command [OF assms, of n fd 0] by (auto simp: view_step_eq)
  have "worker_step (Suc n) fd (wire c) (False, s) = Ok (fd \<noteq> secondary_fd s, send_msg fd msg_done t)"
    unfolding worker_request [OF assms(2)] using t(1) by (simp add: rbind_assoc [symmetric])
  moreover have "serving k (send_msg fd msg_done t)"
    using t(2) by (simp add: serving_def next_seq_def)
  moreover have "only_log s (send_msg fd msg_done t)" using t(10) by (simp add: only_log_def)
  ultimately show ?thesis using t by (simp add: log_of_def)
qed

lemma serve_requests:
  assumes "serving (length rs) s" and "commands_within (capacity s) (map snd rs) (view_of s)"
  shows "\<exists>t. serve (Suc n) rs s = Ok t \<and> serving 0 t \<and> capacity t = capacity s \<and> only_log s t \<and>
    view_of t = fold (view_step (capacity s)) (map snd rs) (view_of s) \<and>
    log_of t = log_of s @ concat (map wire (filter writes (map snd rs)))"
  using assms
proof (induction rs arbitrary: s)
  case (Cons r rs)
  obtain fd c where r: "r = (fd, c)" by force
  obtain q t where t: "worker_step (Suc n) fd (wire c) (False, s) = Ok (q, t)" "serving (length rs) t"
    "view_of t = view_step (capacity s) c (view_of s)" "capacity t = capacity s"
    "log_of t = log_of s @ (if writes c then wire c else [])" "only_log s t"
    using serve_one [of "length rs" s c n fd] Cons.prems by (auto simp: r)
  obtain u where "serve (Suc n) rs t = Ok u" "serving 0 u" "capacity u = capacity t"
    "view_of u = fold (view_step (capacity t)) (map snd rs) (view_of t)"
    "only_log t u" "log_of u = log_of t @ concat (map wire (filter writes (map snd rs)))"
    using Cons.IH [OF t(2)] Cons.prems t(3,4) by (auto simp: r)
  moreover have "only_log s u" using only_log_trans [OF t(6) calculation(5)] .
  ultimately show ?case using t by (simp add: r del: wire.simps)
qed (simp add: log_of_def only_log_refl)

section \<open>Recovery from the log\<close>

lemma view_step_get: "\<not> writes c \<Longrightarrow> view_step cap c V = V"
  by (cases c) (auto simp: view_step_def spec_get_def intro: with_file_cases)

lemma fold_writes: "fold (view_step cap) (filter writes cs) V = fold (view_step cap) cs V"
  by (induction cs arbitrary: V) (simp_all add: view_step_get)

lemma within_writes: "commands_within cap cs V \<Longrightarrow> commands_within cap (filter writes cs) V"
  by (induction cs arbitrary: V) (auto simp: view_step_get)

lemma replay_requests:
  assumes "serving 0 s" and "commands_within (capacity s) cs (view_of s)"
  shows "\<exists>t. run_requests (Suc n) (map (\<lambda>c. (- 1, 0, executed c)) cs) s = Ok t \<and> serving 0 t \<and>
    view_of t = fold (view_step (capacity s)) cs (view_of s) \<and> same_node s t"
  using assms
proof (induction cs arbitrary: s)
  case (Cons c cs)
  have s: "kv_wf s" "virmem_meta s = []" "balanced (capacity s) (view_of s)" "capacity s < 2 ^ 31"
    and w: "within (capacity s) (executed c) (view_of s)"
    using Cons.prems by (auto simp: serving_def)
  obtain t where t: "run_command (Suc n) (- 1) 0 (executed c) s = Ok t" "kv_wf t" "same_node s t"
    "view_of t = view_step (capacity s) c (view_of s)"
    using command_refines [where n = n and fd = "- 1" and seq = 0, OF s w] by (auto simp: refines_def view_step_eq)
  have "serving 0 t"
    using Cons.prems(1) t balanced_command [OF s(3) w, of True 0]
    by (simp add: serving_def same_node_def next_seq_def view_step_def)
  moreover have "capacity t = capacity s" using t(3) by (simp add: same_node_def)
  ultimately show ?case using Cons.IH [of t] Cons.prems t same_node_trans [OF t(3)] by auto
qed simp

text \<open>C10: A node with an empty log serves a sequence of requests whose data fits into the memory; then
  any node of the same capacity that has the data the first one had at the start, all of it in
  memory, and whose log is the file the first one wrote, reaches the data of the first one at the
  end by replaying the log. The requests have no zero byte and no comma in a field before the last,
  and the write requests are lines that the replay executes again: one line each, and no rename.
  (How a new process gets the data of the start from a checkpoint is crash_recovery.)\<close>

theorem recovery_from_log:
  assumes srv: "serving (length rs) s" and w: "commands_within (capacity s) (map snd rs) (view_of s)"
    and log: "log_of s = []" and lines: "\<And>c. c \<in> snd ` set rs \<Longrightarrow> writes c \<Longrightarrow> loggable c"
  shows "\<exists>t. serve (Suc n) rs s = Ok t \<and>
    (\<forall>r. serving 0 r \<and> view_of r = view_of s \<and> capacity r = capacity s \<and>
       file_content (disk r) log_path = Some (log_of t) \<longrightarrow>
      (\<exists>r'. replay_log (Suc n) r = Ok r' \<and> view_of r' = view_of t))"
proof -
  let ?cs = "filter writes (map snd rs)"
  obtain t where t: "serve (Suc n) rs s = Ok t" "log_of t = concat (map wire ?cs)"
    "view_of t = fold (view_step (capacity s)) (map snd rs) (view_of s)"
    using serve_requests [OF srv w] log by auto
  moreover have "\<exists>r'. replay_log (Suc n) r = Ok r' \<and> view_of r' = view_of t"
    if r: "serving 0 r" "view_of r = view_of s" "capacity r = capacity s"
      "file_content (disk r) log_path = Some (log_of t)" for r
  proof -
    have "replay_log (Suc n) r = run_requests (Suc n) (map (\<lambda>c. (- 1, 0, executed c)) ?cs) r"
      using lines r(4) t(2) by (intro replay_log_requests) auto
    moreover have "commands_within (capacity r) ?cs (view_of r)"
      using within_writes [OF w] r by simp
    ultimately show ?thesis
      using replay_requests [OF r(1), of ?cs n] r t(3) by (auto simp: fold_writes)
  qed
  ultimately show ?thesis by blast
qed

section \<open>Primary and secondary\<close>

lemma ps_step_wire:
  assumes c: "sane c" "writes c" and k: "in_i32 k"
  shows "ps_step n fd (to_string k @ CHR '','' # wire c) s =
    rbind (run_command n fd k (executed c) s) (after_write c True)"
proof -
  have "c_str (to_string k @ CHR '','' # wire c) = to_string k @ CHR '','' # wire c"
    using c(1) by (simp add: sane_def c_str_id)
  moreover have "atoi (to_string k) = k" using atoi_to_string [OF k, of "[]"] by simp
  ultimately show ?thesis
    using c parse_command_wire [OF c(1)]
    by (cases c) (simp_all add: ps_step_def cut_append handler_wire del: wire.simps)
qed

definition messages_to :: "int \<Rightarrow> (int \<times> string) list \<Rightarrow> string list" where
  "messages_to fd out = map snd (filter (\<lambda>m. fst m = fd) out)"

lemma messages_to_simps [simp]:
  "messages_to fd [] = []"
  "messages_to fd (a @ b) = messages_to fd a @ messages_to fd b"
  "messages_to fd ((d, m) # r) = (if d = fd then m # messages_to fd r else messages_to fd r)"
  "messages_to fd (map (Pair d) ms) = (if d = fd then ms else [])"
  by (auto simp: messages_to_def filter_map o_def)

text \<open>
  The secondary executes what the primary forwards, in order and one message per \<open>recv\<close>, and
  arrives at the same view.
\<close>

text \<open>C14: A primary and a secondary start with the same data and no user on disk. If the secondary
  executes, in order, exactly the messages the primary sent to it while serving a sequence of
  requests whose data fits into the memory, so that nothing is evicted, which have no zero byte and
  no comma in a field before the last, and which arrive on other connections than that of the
  secondary, the two end with the same contents, which are those the abstract specification gives
  for the sequence.\<close>

theorem replicas_agree:
  assumes "serving (length rs) p" and "is_primary p" and "serving (length rs) q" and "\<not> is_primary q"
    and "view_of q = view_of p" and "capacity q = capacity p"
    and "commands_within (capacity p) (map snd rs) (view_of p)"
    and "\<And>fd. fd \<in> fst ` set rs \<Longrightarrow> fd \<noteq> secondary_fd p"
  shows "\<exists>p' q' out. serve (Suc n) rs p = Ok p' \<and> sent p' = sent p @ out \<and>
    foldr_res (ps_step (Suc n) fd) (messages_to (secondary_fd p) out) q = Ok q' \<and>
    view_of q' = view_of p' \<and>
    view_of p' = fold (view_step (capacity p)) (map snd rs) (view_of p)"
  using assms
proof (induction rs arbitrary: p q)
  case (Cons r rs)
  obtain d c where r: "r = (d, c)" by force
  have c: "sane c" "within (capacity p) (executed c) (view_of p)" "d \<noteq> secondary_fd p"
    using Cons.prems by (auto simp: r)
  let ?k = "next_seq p (user_of c)"
  let ?fwd = "if writes c then [to_string ?k @ '','' @ wire c] else []"
  obtain f p1 where p1: "worker_step (Suc n) d (wire c) (False, p) = Ok (f, p1)" "serving (length rs) p1"
    "view_of p1 = view_step (capacity p) c (view_of p)" "capacity p1 = capacity p" "is_primary p1"
    "secondary_fd p1 = secondary_fd p"
    "sent p1 = sent p @ map (Pair d) (replies p d 0 c) @
      (if is_primary p \<and> writes c then [(secondary_fd p, to_string ?k @ '','' @ wire c)] else []) @
      [(d, msg_done)]"
    using serve_one [of "length rs" p c n d] Cons.prems c by (auto simp: r)
  obtain q1 where q1: "foldr_res (ps_step (Suc n) fd) ?fwd q = Ok q1" "serving (length rs) q1"
    "view_of q1 = view_of p1" "capacity q1 = capacity p" "\<not> is_primary q1"
  proof (cases "writes c")
    case False
    then show thesis
      using that [of q] Cons.prems p1(3) serving_less by (simp add: view_step_get)
  next
    case True
    have "in_i32 ?k" using Cons.prems(1) by (rule serving_num)
    then show thesis
      using that serve_command [of "length rs" q c n fd ?k] Cons.prems c True p1(3)
      by (auto simp: ps_step_wire view_step_eq)
  qed
  obtain p2 q2 out where *: "serve (Suc n) rs p1 = Ok p2" "sent p2 = sent p1 @ out"
    "foldr_res (ps_step (Suc n) fd) (messages_to (secondary_fd p1) out) q1 = Ok q2"
    "view_of q2 = view_of p2" "view_of p2 = fold (view_step (capacity p1)) (map snd rs) (view_of p1)"
    using Cons.IH [OF p1(2,5) q1(2,5,3)] q1(4) p1(3,4,6) Cons.prems by (auto simp: r)
  have "messages_to (secondary_fd p) (map (Pair d) (replies p d 0 c) @
      (if is_primary p \<and> writes c then [(secondary_fd p, to_string ?k @ '','' @ wire c)] else []) @
      [(d, msg_done)] @ out) = ?fwd @ messages_to (secondary_fd p) out"
    using c(3) Cons.prems(2) by simp
  then show ?case
    using * p1 q1 by (intro exI [of _ p2] exI [of _ q2]) (simp add: r foldr_res_append)
qed simp

section \<open>The hold-back queue\<close>

lemma report_parts:
  assumes "CHR '','' \<notin> set u" and "NUL \<notin> set u" and k: "in_i32 k"
  shows "handle_secondary_report (done_report u k) s =
    (let left = filter (\<lambda>p. sq p \<noteq> k) (oget_def [] (primary_holdback s) u)
     in Ok (s\<lparr>primary_holdback :=
          if left = [] then odel u (primary_holdback s) else oupd u left (primary_holdback s)\<rparr>))"
proof -
  have c: "c_str (done_report u k) = ''DONE '' @ (u @ CHR '','' # to_string k @ crlf)"
    using assms by (simp add: done_report_def c_str_id)
  have t: "tokens (CHR '','') (u @ CHR '','' # to_string k @ crlf) = ([u], to_string k @ crlf)"
    using assms(1) by (simp add: tokens_cons tokens_none)
  have "stoi (to_string k @ crlf) = Ok k"
    using stoi_to_string [OF k, of crlf] by (simp add: is_digit_def)
  then show ?thesis
    by (simp add: handle_secondary_report_def substr_from_def c t)
qed

text \<open>Sending a line and receiving its acknowledgement leaves the queue as it was.\<close>

text \<open>Sending a line to the secondary numbers it, appends it to the holdback queue of its user and
  writes it to the socket; the DONE report for that number removes exactly this entry and the queues
  are as before.\<close>

theorem holdback_ack:
  assumes u: "CHR '','' \<notin> set u" "NUL \<notin> set u" and line: "NUL \<notin> set line"
    and k: "in_i32 (next_seq s u)" and p: "is_primary s" and sorted: "osorted (primary_holdback s)"
    and older: "\<forall>m \<in> set (oget_def [] (primary_holdback s) u). sq m < next_seq s u"
    and nonempty: "oget (primary_holdback s) u \<noteq> Some []"
  shows "\<exists>t t'. send_to_secondary line u s = Ok t \<and>
    oget_def [] (primary_holdback t) u =
      oget_def [] (primary_holdback s) u @ [\<lparr>sq = next_seq s u, msg = line\<rparr>] \<and>
    sent t = sent s @ [(secondary_fd s, to_string (next_seq s u) @ '','' @ line)] \<and>
    handle_secondary_report (done_report u (next_seq s u)) t = Ok t' \<and>
    primary_holdback t' = primary_holdback s"
proof -
  let ?k = "next_seq s u" and ?old = "oget_def [] (primary_holdback s) u"
  define t where "t = send_msg (secondary_fd s) (to_string ?k @ '','' @ line)
    (s\<lparr>seq_num_records := oupd u ?k (seq_num_records s),
       primary_holdback := oupd u (?old @ [\<lparr>sq = ?k, msg = line\<rparr>]) (primary_holdback s)\<rparr>)"
  have t: "send_to_secondary line u s = Ok t"
    using k line by (simp add: send_to_secondary_def t_def next_seq_def c_str_id Let_def)
  have h: "oget_def [] (primary_holdback t) u = ?old @ [\<lparr>sq = ?k, msg = line\<rparr>]"
    "osorted (primary_holdback t)"
    "\<And>w. oget (primary_holdback t) w = (if w = u then Some (?old @ [\<lparr>sq = ?k, msg = line\<rparr>]) else oget (primary_holdback s) w)"
    using sorted by (simp_all add: t_def)
  have "filter (\<lambda>m. sq m \<noteq> ?k) ?old = ?old" using older by (auto simp: filter_id_conv)
  then have r: "handle_secondary_report (done_report u ?k) t = Ok (t\<lparr>primary_holdback :=
      if ?old = [] then odel u (primary_holdback t) else oupd u ?old (primary_holdback t)\<rparr>)"
    by (simp add: report_parts [OF u k] h(1) Let_def)
  have "(if ?old = [] then odel u (primary_holdback t) else oupd u ?old (primary_holdback t)) = primary_holdback s"
    using sorted h(2,3) nonempty
    by (intro osorted_ext) (auto simp: oget_def_def split: option.splits if_splits)
  then show ?thesis using t h(1) r by (simp add: t_def)
qed

section \<open>What the protocol loses\<close>

text \<open>Renamings are logged, and the replay passes over them.\<close>

text \<open>The log records renamings, but its replay passes over them: a log with a renaming is replayed
  as if that line were not there.\<close>

theorem rename_not_replayed:
  assumes "\<And>c. c \<in> set (as @ bs) \<Longrightarrow> loggable c" and "log_line (Rename u f g)"
    and "file_content (disk s) log_path = Some (concat (map wire (as @ [Rename u f g] @ bs)))"
  shows "replay_log n s = run_requests n (map (\<lambda>c. (- 1, 0, executed c)) (as @ bs)) s"
proof -
  have "filter replayed (as @ [Rename u f g] @ bs) = as @ bs"
    using assms(1) by (auto simp: filter_id_conv loggable_iff) (auto simp: replayed_def)
  then show ?thesis
    using replay_log_lines [of "as @ [Rename u f g] @ bs" s n] assms by (auto simp: loggable_iff)
qed

text \<open>A message of one byte stops the server.\<close>

text \<open>A message of a single byte makes the worker thread compute a negative length in
  parse_command, which is undefined behaviour.\<close>

theorem short_message_fails:
  "c \<noteq> NUL \<Longrightarrow> worker_step n fd [c] (q, s) = Fail Undefined"
  by (simp add: worker_step_def parse_command_def c_str_def cut_def Let_def)

end
