(* ===== verification/KV_Store.thy ===== *)
theory KV_Store
  imports KV_Lru
begin

text \<open>
  The interface through which rows and logs are replayed: a store whose \<open>put\<close> appends to a file.
  \<open>restore_user\<close> (a row read from disk) and the replay of a log both reduce to a sequence of
  \<open>put\<close>s, and what they rebuild follows from the laws of one \<open>put\<close>.
\<close>

section \<open>The interface\<close>

text \<open>The bytes of the values in a list of files.\<close>

definition bytes_of :: "(string \<times> string) list \<Rightarrow> nat" where
  "bytes_of ps = (\<Sum>(f, v)\<leftarrow>ps. length v)"

lemma bytes_of_simps [simp]:
  "bytes_of [] = 0" "bytes_of ((f, v) # ps) = length v + bytes_of ps"
  by (simp_all add: bytes_of_def)

text \<open>
  \<open>room s u n\<close>: \<open>n\<close> more bytes of user \<open>u\<close> are admitted. \<open>frame\<close> relates the states a \<open>put\<close> may lead
  to, and \<open>used\<close> counts the bytes stored.
\<close>

locale append_store =
  fixes ok :: "'s \<Rightarrow> bool" and room :: "'s \<Rightarrow> string \<Rightarrow> nat \<Rightarrow> bool"
    and files :: "'s \<Rightarrow> string \<Rightarrow> (string, string) omap option" and used :: "'s \<Rightarrow> int"
    and frame :: "'s \<Rightarrow> 's \<Rightarrow> bool" and put :: "string \<Rightarrow> string \<Rightarrow> string \<Rightarrow> 's \<Rightarrow> 's res"
  assumes files_sorted: "ok s \<Longrightarrow> files s u = Some m \<Longrightarrow> osorted m"
    and frame_refl: "frame s s"
    and frame_trans: "frame s t \<Longrightarrow> frame t w \<Longrightarrow> frame s w"
    and room_less: "room s u (n + k) \<Longrightarrow> room s u n"
    and put_law: "\<lbrakk>ok s; room s u (length v)\<rbrakk> \<Longrightarrow>
      \<exists>s'. put u f v s = Inr s' \<and> ok s' \<and> frame s s' \<and> used s' = used s + int (length v) \<and>
        files s' = (files s)(u \<mapsto> append_value f v (case files s u of None \<Rightarrow> [] | Some m \<Rightarrow> m)) \<and>
        (\<forall>k. room s u (length v + k) \<longrightarrow> room s' u k)"
begin

text \<open>Several \<open>put\<close>s of one user.\<close>

lemma put_many:
  assumes "ok s" and "room s u (bytes_of ps)"
  shows "\<exists>s'. foldr_res (\<lambda>(f, v). put u f v) ps s = Inr s' \<and> ok s' \<and> frame s s' \<and>
    used s' = used s + int (bytes_of ps) \<and>
    files s' = (if ps = [] then files s else (files s)(u \<mapsto>
      fold (\<lambda>(f, v). append_value f v) ps (case files s u of None \<Rightarrow> [] | Some m \<Rightarrow> m)))"
  using assms
proof (induction ps arbitrary: s)
  case Nil
  then show ?case by (simp add: frame_refl)
next
  case (Cons p ps)
  obtain f v where p: "p = (f, v)" by force
  obtain t where t: "put u f v s = Inr t" "ok t" "frame s t" "used t = used s + int (length v)"
    "files t = (files s)(u \<mapsto> append_value f v (case files s u of None \<Rightarrow> [] | Some m \<Rightarrow> m))"
    "room t u (bytes_of ps)"
    using put_law [OF Cons.prems(1) room_less, of u v "bytes_of ps" f] Cons.prems(2)
    by (auto simp: p)
  obtain w where w: "foldr_res (\<lambda>(f, v). put u f v) ps t = Inr w" "ok w" "frame t w"
    "used w = used t + int (bytes_of ps)"
    "files w = (if ps = [] then files t else (files t)(u \<mapsto>
      fold (\<lambda>(f, v). append_value f v) ps (case files t u of None \<Rightarrow> [] | Some m \<Rightarrow> m)))"
    using Cons.IH [OF t(2,6)] by blast
  show ?case
    using t w frame_trans [OF t(3) w(3)] by (auto simp: p intro!: ext)
qed

end

section \<open>Restoring a row\<close>

text \<open>The file map that a sequence of appends builds from the empty one.\<close>

lemma append_value_new: "(\<And>x. x \<in> fst ` set m \<Longrightarrow> x < f) \<Longrightarrow> append_value f v m = m @ [(f, v)]"
proof -
  assume new: "\<And>x. x \<in> fst ` set m \<Longrightarrow> x < f"
  then have "oget m f = None" by (metis map_of_eq_None_iff order_less_irrefl)
  with oupd_append [OF new, where v = v] show ?thesis by (simp add: append_value_def oget_def_def)
qed

lemma fold_append_value:
  "osorted (acc @ m) \<Longrightarrow> fold (\<lambda>(f, v). append_value f v) m acc = acc @ m"
proof (induction m arbitrary: acc)
  case (Cons p m)
  obtain f v where p: "p = (f, v)" by force
  have "x < f" if "x \<in> fst ` set acc" for x
    using Cons.prems that by (auto simp: p osorted_def sorted_wrt_append)
  then have "append_value f v acc = acc @ [(f, v)]" by (rule append_value_new)
  then show ?case using Cons.IH [of "acc @ [(f, v)]"] Cons.prems by (simp add: p)
qed simp

definition comma_free :: "(string, string) omap \<Rightarrow> bool" where
  "comma_free m \<longleftrightarrow> (\<forall>(f, v) \<in> set m. CHR '','' \<notin> set f \<and> CHR '','' \<notin> set v)"

lemma tokens_row:
  "comma_free m \<Longrightarrow> tokens (CHR '','') (row_of m) = (concat (map (\<lambda>(f, v). [f, v]) m), [])"
proof (induction m)
  case (Cons p m)
  obtain f v where p: "p = (f, v)" by force
  have "tokens (CHR '','') (row_of (p # m)) = tokens (CHR '','') (f @ CHR '','' # v @ CHR '','' # row_of m)"
    by (simp add: p row_of_def)
  with Cons show ?case by (simp add: p comma_free_def tokens_cons)
qed (simp add: row_of_def)

lemma restore_tokens_pairs:
  "restore_tokens put (concat (map (\<lambda>(f, v). [f, v]) m)) s = foldr_res (\<lambda>(f, v). put f v) m s"
proof (induction m arbitrary: s)
  case (Cons p m)
  then show ?case by (cases p) (auto intro: rbind_cong)
qed simp

context append_store begin

text \<open>A row that was written by \<open>row_of\<close> rebuilds the files of a user the store does not hold.\<close>

lemma restore_row:
  assumes "ok s" and "comma_free m" and "osorted m" and "m \<noteq> []" and "files s u = None"
    and "room s u (bytes_of m)"
  shows "\<exists>s'. restore_user (put u) (row_of m) s = Inr s' \<and> ok s' \<and> frame s s' \<and>
    used s' = used s + int (bytes_of m) \<and> files s' = (files s)(u \<mapsto> m)"
  using put_many [OF assms(1,6)] fold_append_value [of "[]" m] assms
  by (simp add: restore_user_def tokens_row restore_tokens_pairs)

end

end
