(* ===== verification/KV_Evict.thy ===== *)
theory KV_Evict
  imports KV_Trace KV_Store
begin

text \<open>
  Eviction and the way back. \<open>evict_ok\<close>: with a list that is linked in both directions,
  \<open>use_virtual_memory\<close> writes the least recently used user to the chunk file and forgets it.
  \<open>reload_ok\<close>: the next command on that user finds the same files again, provided no file name
  and no value contains a comma. The \<open>put\<close>s in between are those of the interface
  \<open>append_store\<close>, interpreted here on the cache.
\<close>

section \<open>The cache as a store that appends\<close>

text \<open>What a \<open>put\<close> that is not counted leaves alone.\<close>

definition quiet :: "kv \<Rightarrow> kv \<Rightarrow> bool" where
  "quiet s s' \<longleftrightarrow> same_node s s' \<and> sent s' = sent s \<and>
     (\<forall>u. oget_def 0 (user_size s') u = oget_def 0 (user_size s) u)"

definition put_room :: "kv \<Rightarrow> string \<Rightarrow> nat \<Rightarrow> bool" where
  "put_room s u n \<longleftrightarrow> oget (virmem_meta s) u = None \<and> mem_room s n"

definition internal_put :: "nat \<Rightarrow> int \<Rightarrow> string \<Rightarrow> string \<Rightarrow> string \<Rightarrow> kv \<Rightarrow> kv res" where
  "internal_put n fd u f v = put_entry fd v (put_loop n u f v fd False 0)"

lemma internal_put_ok:
  assumes wf: "kv_wf s" and room: "put_room s u (length v)"
  shows "\<exists>s'. internal_put (Suc n) fd u f v s = Ok s' \<and> kv_wf s' \<and> quiet s s' \<and>
    memory_used s' = memory_used s + int (length v) \<and>
    files_of s' = (files_of s)(u \<mapsto> append_value f v (case files_of s u of None \<Rightarrow> [] | Some m \<Rightarrow> m)) \<and>
    (\<forall>k. put_room s u (length v + k) \<longrightarrow> put_room s' u k)"
proof -
  have r: "oget (virmem_meta s) u = None" "mem_room s (length v)"
    using room by (simp_all add: put_room_def)
  obtain s' where s': "put_helper (reload n fd) u f v fd False False 0 s = Ok (True, s')" "kv_wf s'"
    "same_node s s'" "memory_used s' = memory_used s + int (length v)"
    "files_of s' = (files_of s)(u \<mapsto> append_value f v (files_list s u))"
    "\<forall>w. oget_def 0 (user_size s') w = oget_def 0 (user_size s) w" "sent s' = sent s"
    using put_helper_resident [where external = False and isCPUT = False and fetch = "reload n fd"
        and user = u and filename = f and fd = fd and seq = 0, OF wf r]
    by auto
  have "\<not> to_u64 (capacity s) < int (length v)"
    using r(2) by (auto simp: mem_room_def to_u64_def)
  then have "internal_put (Suc n) fd u f v s = Ok s'"
    using s'(1) by (simp add: internal_put_def put_entry_def reload_def)
  moreover have "put_room s u (length v + k) \<longrightarrow> put_room s' u k" for k
    using s'(3,4) by (auto simp: put_room_def mem_room_def same_node_def)
  ultimately show ?thesis
    using s' by (auto simp: quiet_def files_list_def)
qed

interpretation cache: append_store kv_wf put_room files_of memory_used quiet "internal_put (Suc n) fd"
  for n fd
proof unfold_locales
  show "quiet s t \<Longrightarrow> quiet t w \<Longrightarrow> quiet s w" for s t w
    by (auto simp: quiet_def intro: same_node_trans)
qed (use kv_wf_files_sorted internal_put_ok in \<open>auto simp: quiet_def put_room_def mem_room_def\<close>)

section \<open>Eviction\<close>

lemma value_size_of_append:
  "0 \<le> n \<Longrightarrow> n + msize m < 2 ^ 31 \<Longrightarrow>
   foldl (\<lambda>n (fn, v). to_i32 (n + int (length v))) n m = n + msize m"
proof (induction m arbitrary: n)
  case (Cons p m)
  obtain f v where p: "p = (f, v)" by force
  have "to_i32 (n + int (length v)) = n + int (length v)"
  proof (rule to_i32_small)
    show "n + int (length v) < 2 ^ 31" using Cons.prems(2) msize_nonneg [of m] unfolding p msize_simps by linarith
  qed (use Cons.prems(1) in simp)
  then show ?case using Cons by (simp add: p)
qed simp

lemma value_size_of_msize: "msize m < 2 ^ 31 \<Longrightarrow> value_size_of m = msize m"
  using value_size_of_append [of 0 m] by (simp add: value_size_of_def)

text \<open>Relinking \<open>head\<close> to the second node is the unlinking of the first one.\<close>

lemma drop_first:
  assumes "dll h (a # xs)"
  shows "\<exists>hd n h1 h'. h head_addr = Some hd \<and> nnext hd = Some a \<and> h a = Some n \<and>
    set_next (Some head_addr) (nnext n) h = Ok h1 \<and> set_prev (nnext n) (Some head_addr) h1 = Ok h' \<and>
    unlink (Some a) h = Ok h' \<and> dll h' xs \<and> contents h' = contents h"
proof -
  have l: "nx h head_addr = Some a" "pv h a = Some head_addr" "h head_addr \<noteq> None" "h a \<noteq> None"
    "a \<noteq> head_addr"
    using assms by (cases xs; auto simp: dll_def)+
  then obtain hd n where n: "h head_addr = Some hd" "nnext hd = Some a" "h a = Some n" "nprev n = Some head_addr"
    by (auto simp: nx_def pv_def)
  obtain h' where h': "unlink (Some a) h = Ok h'" "dll h' xs" "contents h' = contents h"
    using dll_unlink [of h "[]" a xs] assms by auto
  have "set_next (Some head_addr) (nnext n) h = Ok (h(head_addr \<mapsto> hd\<lparr>nnext := nnext n\<rparr>))"
    using n by (simp add: set_next_def)
  then show ?thesis using n h' l(5) by (auto simp: unlink_def)
qed

definition least_recent :: "kv \<Rightarrow> string \<Rightarrow> (string, string) omap \<Rightarrow> bool" where
  "least_recent s u m \<longleftrightarrow>
     (\<exists>a xs. dll (heap s) (a # xs) \<and> contents (heap s) a = Some (u, m) \<and> oget (tablets s) u = Some a)"

text \<open>The current chunk has room for \<open>n\<close> more bytes.\<close>

definition chunk_room :: "string \<Rightarrow> nat \<Rightarrow> kv \<Rightarrow> bool" where
  "chunk_room type n s \<longleftrightarrow> chunks_ok type s \<and> chunk_size s < 2 ^ 31 \<and>
     (\<forall>c b. oget (chunk_info s) type = Some [c, b] \<longrightarrow> b + int n \<le> chunk_size s)"

abbreviation VM :: string where "VM \<equiv> ''virtual memory''"

lemma evict_ok:
  assumes wf: "kv_wf s" and lru: "least_recent s u m" and room: "chunk_room VM (length (row_of m)) s"
    and sz: "msize m \<le> memory_used s" "memory_used s < 2 ^ 31"
  shows "\<exists>s'. use_virtual_memory s = Ok s' \<and> kv_wf s' \<and> files_of s' = (files_of s)(u := None) \<and>
    stored_row VM u s' = Ok (row_of m) \<and> oget (virmem_meta s') u \<noteq> None \<and>
    (\<forall>w. w \<noteq> u \<longrightarrow> stored_row VM w s' = stored_row VM w s) \<and> chunks_ok VM s' \<and>
    memory_used s' = memory_used s - msize m \<and> capacity s' = capacity s \<and> sent s' = sent s \<and>
    user_size s' = user_size s \<and> (osorted (virmem_meta s) \<longrightarrow> osorted (virmem_meta s'))"
proof -
  obtain a xs where a: "dll (heap s) (a # xs)" "contents (heap s) a = Some (u, m)" "oget (tablets s) u = Some a"
    using lru by (auto simp: least_recent_def)
  obtain hd n h1 h' where h: "heap s head_addr = Some hd" "nnext hd = Some a" "heap s a = Some n"
    "set_next (Some head_addr) (nnext n) (heap s) = Ok h1" "set_prev (nnext n) (Some head_addr) h1 = Ok h'"
    "unlink (Some a) (heap s) = Ok h'" "contents h' = contents (heap s)"
    using drop_first [OF a(1)] by blast
  have n: "nkey n = u" "nvalue n = m" using a(2) h(3) by (simp_all add: contents_def)
  have fmt: "format_node n [] = (row_of m, msize m)"
    using sz by (simp add: format_node_def n value_size_of_msize)
  obtain c b where info: "oget (chunk_info s) VM = Some [c, b]" "b + int (length (row_of m)) \<le> chunk_size s"
    "chunk_size s < 2 ^ 31" "chunks_ok VM s"
    using room unfolding chunk_room_def chunks_ok_def by blast
  obtain t where t: "write_to_chunk u (row_of m) VM s = Ok t" "chunks_ok VM t"
    "\<And>w. stored_row VM w t = (if w = u then Ok (row_of m) else stored_row VM w s)"
    "heap t = heap s" "tablets t = tablets s" "memory_used t = memory_used s"
    "user_size t = user_size s" "next_addr t = next_addr s" "sent t = sent s"
    "oget (virmem_meta t) u \<noteq> None" "capacity t = capacity s"
    "osorted (virmem_meta s) \<Longrightarrow> osorted (virmem_meta t)"
    using write_to_chunk_stores [OF info(4,1-3), of u] by (auto simp: meta_of_def)
  define s' where "s' = t\<lparr>tablets := odel u (tablets t), heap := h', memory_used := memory_used s - msize m\<rparr>"
  have run: "use_virtual_memory s = Ok s'"
  proof -
    have "in_i32 (memory_used s + - msize m)"
      unfolding in_i32_def using sz msize_nonneg [of m] by (intro conjI; linarith)
    then have "i32_add (memory_used s) (- msize m) = Ok (memory_used s - msize m)" by simp
    then show ?thesis using h t fmt n by (simp add: use_virtual_memory_def s'_def Let_def)
  qed
  have "links_ok h'"
  proof -
    have "a \<noteq> head_addr" "a \<noteq> tail_addr" using a(1) by (auto simp: dll_def)
    then show ?thesis using links_unlink [of "heap s" a] h wf by (auto simp: kv_wf_def)
  qed
  then have w: "kv_wf (s\<lparr>heap := h'\<rparr>)" "files_of (s\<lparr>heap := h'\<rparr>) = files_of s"
    using kv_wf_heap [OF wf] h(7) by blast+
  define r where "r = s\<lparr>heap := h'\<rparr>\<lparr>tablets := odel u (tablets (s\<lparr>heap := h'\<rparr>))\<rparr>"
  have r: "kv_wf r" "files_of r = (files_of s)(u := None)"
    using erase_user_ok [OF w(1)] w(2) by (simp_all add: r_def)
  have f: "heap s' = heap r" "tablets s' = tablets r" "next_addr s' = next_addr r" "user_size s' = user_size r"
    using t by (simp_all add: s'_def r_def)
  have "kv_wf s'" using kv_wf_frame [OF f(1-3) _ r(1)] f(4) r(1) by (simp add: kv_wf_def)
  moreover have "files_of s' = (files_of s)(u := None)" using files_of_frame [OF f(1,2)] r(2) by simp
  moreover have "stored_row VM w s' = stored_row VM w t" for w
    by (simp add: stored_row_def meta_of_def s'_def)
  moreover have "chunks_ok VM s'"
    using t(2) by (simp add: chunks_ok_def s'_def chunk_file_def meta_of_def)
  ultimately show ?thesis using run t by (auto simp: s'_def)
qed

section \<open>The way back\<close>

lemma bytes_of_msize: "int (bytes_of m) = msize m"
  by (induction m) auto

definition on_disk :: "kv \<Rightarrow> string \<Rightarrow> (string, string) omap \<Rightarrow> bool" where
  "on_disk s u m \<longleftrightarrow>
     files_of s u = None \<and> oget (virmem_meta s) u \<noteq> None \<and> stored_row VM u s = Ok (row_of m) \<and>
     comma_free m \<and> osorted m \<and> m \<noteq> []"

lemma reload_ok:
  assumes wf: "kv_wf s" and disk: "on_disk s u m" and room: "mem_room s (bytes_of m)"
  shows "\<exists>s'. reload (Suc n) fd u s = Ok s' \<and> kv_wf s' \<and> files_of s' = (files_of s)(u \<mapsto> m) \<and>
    memory_used s' = memory_used s + msize m \<and> virmem_meta s' = odel u (virmem_meta s) \<and>
    quiet (s\<lparr>virmem_meta := odel u (virmem_meta s)\<rparr>) s'"
proof -
  define t where "t = s\<lparr>virmem_meta := odel u (virmem_meta s)\<rparr>"
  have t: "kv_wf t" "files_of t = files_of s" "memory_used t = memory_used s"
    using wf files_of_frame [of t s] by (simp_all add: t_def kv_wf_def nodes_ok_def)
  have "put_room t u (bytes_of m)"
    using room by (simp add: put_room_def mem_room_def t_def)
  then obtain s' where s': "restore_user (internal_put (Suc n) fd u) (row_of m) t = Ok s'" "kv_wf s'"
    "quiet t s'" "memory_used s' = memory_used t + int (bytes_of m)" "files_of s' = (files_of t)(u \<mapsto> m)"
    using cache.restore_row [OF t(1), of m u n fd] disk t(2) by (auto simp: on_disk_def)
  have "internal_put (Suc n) fd = (\<lambda>u f v. put_entry fd v (put_loop (Suc n) u f v fd False 0))"
    by (intro ext) (simp add: internal_put_def)
  then have "reload (Suc n) fd u s = Ok s'"
    using s'(1) disk by (simp add: reload_def load_user_from_disk_def on_disk_def stored_row_def meta_of_def t_def)
  moreover have "virmem_meta s' = odel u (virmem_meta s)"
    using s'(3) by (simp add: quiet_def same_node_def t_def)
  ultimately show ?thesis using s' t by (auto simp: bytes_of_msize t_def)
qed

lemma get_helper_fetch:
  assumes "oget (virmem_meta s) u \<noteq> None" and "fetch u s = Ok t" and "oget (virmem_meta t) u = None"
    and "oget (tablets t) u \<noteq> None"
  shows "get_helper fetch u f fd s = get_helper fetch u f fd t"
  using assms by (simp add: get_helper_def)

text \<open>The round trip through the disk: eviction, and a \<open>get\<close> of one of the files.\<close>

text \<open>C11: While the recency list is intact and the memory counter covers the bytes of the user and is
  within the capacity: evicting the least recently used user, whose file names and values have no
  comma, writes its row to the chunk file, which has room for it, and frees its memory; the next get
  of one of its files reads the row back, answers the stored value, and leaves the store with the
  contents and the accounting it had before. (A value with a comma would be split when its row is
  read back.)\<close>

theorem evict_then_get:
  assumes wf: "kv_wf s" and lru: "least_recent s u m" and room: "chunk_room VM (length (row_of m)) s"
    and mem: "msize m \<le> memory_used s" "memory_used s \<le> capacity s" "capacity s < 2 ^ 31"
    and names: "comma_free m" and found: "oget m f = Some v"
  shows "\<exists>s1 s2. use_virtual_memory s = Ok s1 \<and> files_of s1 u = None \<and>
    memory_used s1 = memory_used s - msize m \<and>
    lru_get (Suc n) u f fd s1 = Ok s2 \<and> kv_wf s2 \<and> files_of s2 = files_of s \<and>
    memory_used s2 = memory_used s \<and> oget (virmem_meta s2) u = None \<and>
    sent s2 = sent s @ [(fd, msg_value), (fd, v)]"
proof -
  have m: "files_of s u = Some m" "osorted m" "m \<noteq> []"
  proof -
    show "files_of s u = Some m" using lru by (auto simp: least_recent_def files_of_def)
    then show "osorted m" by (rule kv_wf_files_sorted [OF wf])
    show "m \<noteq> []" using found by auto
  qed
  have lt: "memory_used s < 2 ^ 31" using mem(2,3) by (rule order_le_less_trans)
  obtain s1 where s1: "use_virtual_memory s = Ok s1" "kv_wf s1" "files_of s1 = (files_of s)(u := None)"
    "stored_row VM u s1 = Ok (row_of m)" "oget (virmem_meta s1) u \<noteq> None"
    "memory_used s1 = memory_used s - msize m" "capacity s1 = capacity s" "sent s1 = sent s"
    using evict_ok [OF wf lru room mem(1) lt] by blast
  have "on_disk s1 u m" using s1 m names by (simp add: on_disk_def)
  moreover have "mem_room s1 (bytes_of m)" using mem s1 by (simp add: mem_room_def bytes_of_msize)
  ultimately obtain t where t: "reload (Suc n) fd u s1 = Ok t" "kv_wf t" "files_of t = (files_of s1)(u \<mapsto> m)"
    "memory_used t = memory_used s1 + msize m" "virmem_meta t = odel u (virmem_meta s1)"
    "quiet (s1\<lparr>virmem_meta := odel u (virmem_meta s1)\<rparr>) t"
    using reload_ok [OF s1(2)] by blast
  have none: "oget (virmem_meta t) u = None" by (simp add: t(5))
  have tu: "files_of t u = Some m" by (simp add: t(3))
  then have "oget (tablets t) u \<noteq> None" by (auto simp: files_of_def split: option.splits)
  then have "lru_get (Suc n) u f fd s1 = lru_get (Suc n) u f fd t"
    using get_helper_fetch [of s1 u "reload (Suc n) fd" t f fd, OF s1(5) t(1) none] by (simp add: lru_get_def)
  moreover obtain s2 where s2: "lru_get (Suc n) u f fd t = Ok s2" "kv_wf s2" "same_node t s2"
    "view_of s2 = view_of t" "sent s2 = sent t @ [(fd, msg_value), (fd, v)]"
    using lru_get_refines [OF t(2) none, of fd "Suc n" f] tu found
    by (auto simp: refines_def spec_get_def with_file_def)
  moreover have "files_of s2 = files_of t" "memory_used s2 = memory_used t"
    using s2(4) by (simp_all add: view_of_def)
  moreover have "files_of t = files_of s"
    using m(1) by (auto simp: t(3) s1(3))
  moreover have "oget (virmem_meta s2) u = None" using s2(3) none by (simp add: same_node_def)
  ultimately show ?thesis using s1 t by (auto simp: quiet_def)
qed

end
