(* ===== verification/KV_Pressure.thy ===== *)
theory KV_Pressure
  imports KV_Evict
begin

text \<open>
  A \<open>put\<close> that does not fit into the memory (\<open>LRUCache::put\<close> in \<open>kvstore/lrucache.cc\<close>): the loop
  evicts the least recently used users until it does. \<open>to_evict\<close> says which users these are; the
  proof that the loop makes that many rounds and no more is by induction on the users in memory.

  \<^item> \<open>in_order s us\<close>: the list of the cache links exactly the nodes of the users \<open>us\<close>, the least
    recently used one first. A put on a user in memory can cut the list (theory \<open>KV_Order\<close>), so this
    is a hypothesis and not an invariant.
  \<^item> The current chunk has room for the rows of all users in memory, so that no row is split.
\<close>

section \<open>The users in eviction order\<close>

type_synonym user_files = "string \<times> (string, string) omap"

definition in_order :: "kv \<Rightarrow> user_files list \<Rightarrow> bool" where
  "in_order s us \<longleftrightarrow>
     (\<exists>xs. dll (heap s) xs \<and>
        list_all2 (\<lambda>a (u, m). contents (heap s) a = Some (u, m) \<and> oget (tablets s) u = Some a) xs us)"

definition mem_total :: "user_files list \<Rightarrow> int" where
  "mem_total us = sum_list (map (\<lambda>(u, m). msize m) us)"

definition rows :: "user_files list \<Rightarrow> nat" where
  "rows us = sum_list (map (\<lambda>(u, m). length (row_of m)) us)"

lemma mem_total_simps [simp]: "mem_total [] = 0" "mem_total ((u, m) # us) = msize m + mem_total us"
  by (simp_all add: mem_total_def)

lemma rows_simps [simp]: "rows [] = 0" "rows ((u, m) # us) = length (row_of m) + rows us"
  by (simp_all add: rows_def)

lemma mem_total_nonneg [simp]: "0 \<le> mem_total us"
  by (induction us) (auto simp: msize_nonneg)

text \<open>The users that have to go before \<open>n\<close> more bytes fit.\<close>

fun to_evict :: "int \<Rightarrow> int \<Rightarrow> user_files list \<Rightarrow> user_files list" where
  "to_evict cap n [] = []"
| "to_evict cap n (x # us) = (if mem_total (x # us) + n \<le> cap then [] else x # to_evict cap n us)"

lemma to_evict_prefix: "prefix (to_evict cap n us) us"
  by (induction cap n us rule: to_evict.induct) auto

text \<open>What is left fits, and with one user more it would not.\<close>

lemma to_evict_fits: "n \<le> cap \<Longrightarrow> mem_total us - mem_total (to_evict cap n us) + n \<le> cap"
proof (induction cap n us rule: to_evict.induct)
  case (2 cap n x us)
  then show ?case by (cases x) auto
qed simp

lemma to_evict_needed:
  "to_evict cap n us = vs @ [x] \<Longrightarrow> cap < mem_total us - mem_total vs + n"
proof (induction cap n us arbitrary: vs rule: to_evict.induct)
  case (2 cap n y us)
  then show ?case by (cases y; cases vs) (auto split: if_splits)
qed simp

section \<open>One eviction\<close>

lemma evict_links:
  assumes d: "dll (heap s) (a # xs)" and c: "contents (heap s) a = Some (u, m)"
    and info: "oget (chunk_info s) VM = Some [k, b]"
    and fits: "0 \<le> b" "b + int (length (row_of m)) \<le> chunk_size s" "chunk_size s < 2 ^ 31"
    and sz: "msize m \<le> memory_used s" "memory_used s < 2 ^ 31"
  obtains h' where "dll h' xs" "contents h' = contents (heap s)"
    "use_virtual_memory s =
       Ok (s\<lparr>virmem_meta := oupd u [[k, b, int (length (row_of m))]] (odel u (virmem_meta s)),
             disk := write_file (chunk_path VM k) (row_of m) (disk s),
             chunk_info := oupd VM [k, b + int (length (row_of m))] (chunk_info s),
             tablets := odel u (tablets s), heap := h', memory_used := memory_used s - msize m\<rparr>)"
proof -
  obtain hd n h1 h' where h: "heap s head_addr = Some hd" "nnext hd = Some a" "heap s a = Some n"
    "set_next (Some head_addr) (nnext n) (heap s) = Ok h1" "set_prev (nnext n) (Some head_addr) h1 = Ok h'"
    "dll h' xs" "contents h' = contents (heap s)"
    using drop_first [OF d] by blast
  have n: "nkey n = u" "nvalue n = m" using c h(3) by (simp_all add: contents_def)
  have fmt: "format_node n [] = (row_of m, msize m)"
    using sz by (simp add: format_node_def n value_size_of_msize)
  have "in_i32 (memory_used s + - msize m)"
    unfolding in_i32_def using sz msize_nonneg [of m] by (intro conjI; linarith)
  then have sub: "i32_add (memory_used s) (- msize m) = Ok (memory_used s - msize m)" by simp
  have w: "write_to_chunk u (row_of m) VM s =
      Ok (s\<lparr>virmem_meta := oupd u [[k, b, int (length (row_of m))]] (odel u (virmem_meta s)),
            disk := write_file (chunk_path VM k) (row_of m) (disk s),
            chunk_info := oupd VM [k, b + int (length (row_of m))] (chunk_info s)\<rparr>)"
    using write_to_chunk_fits [OF _ info fits, of u] by (simp add: with_meta_def meta_of_def)
  have "use_virtual_memory s =
       Ok (s\<lparr>virmem_meta := oupd u [[k, b, int (length (row_of m))]] (odel u (virmem_meta s)),
             disk := write_file (chunk_path VM k) (row_of m) (disk s),
             chunk_info := oupd VM [k, b + int (length (row_of m))] (chunk_info s),
             tablets := odel u (tablets s), heap := h', memory_used := memory_used s - msize m\<rparr>)"
    using h w sub n fmt by (simp add: use_virtual_memory_def Let_def)
  then show ?thesis using that h(6,7) by blast
qed

lemma evict_step:
  assumes wf: "kv_wf s" and ord: "in_order s ((u, m) # us)" and room: "chunk_room VM (length (row_of m) + j) s"
    and mem: "msize m \<le> memory_used s" "memory_used s < 2 ^ 31"
  obtains s' where "use_virtual_memory s = Ok s'" "kv_wf s'" "in_order s' us" "chunk_room VM j s'"
    "memory_used s' = memory_used s - msize m" "files_of s' = (files_of s)(u := None)"
    "stored_row VM u s' = Ok (row_of m)" "\<And>w. w \<noteq> u \<Longrightarrow> stored_row VM w s' = stored_row VM w s"
    "\<And>w. w \<noteq> u \<Longrightarrow> oget (virmem_meta s') w = oget (virmem_meta s) w" "capacity s' = capacity s"
    "is_primary s' = is_primary s" "sent s' = sent s" "user_size s' = user_size s" "u \<notin> fst ` set us"
proof -
  obtain a xs where a: "dll (heap s) (a # xs)" "contents (heap s) a = Some (u, m)" "oget (tablets s) u = Some a"
    and rest: "list_all2 (\<lambda>a (u, m). contents (heap s) a = Some (u, m) \<and> oget (tablets s) u = Some a) xs us"
    using ord by (auto simp: in_order_def list_all2_Cons2)
  obtain k b where info: "oget (chunk_info s) VM = Some [k, b]" "0 \<le> b" "chunks_ok VM s" "chunk_size s < 2 ^ 31"
    and fit: "b + int (length (row_of m) + j) \<le> chunk_size s"
    using room unfolding chunk_room_def chunks_ok_def by blast
  then have fits: "b + int (length (row_of m)) \<le> chunk_size s" by simp
  obtain h' where h: "dll h' xs" "contents h' = contents (heap s)"
    "use_virtual_memory s =
       Ok (s\<lparr>virmem_meta := oupd u [[k, b, int (length (row_of m))]] (odel u (virmem_meta s)),
             disk := write_file (chunk_path VM k) (row_of m) (disk s),
             chunk_info := oupd VM [k, b + int (length (row_of m))] (chunk_info s),
             tablets := odel u (tablets s), heap := h', memory_used := memory_used s - msize m\<rparr>)"
    (is "_ = Ok ?t")
    using evict_links [OF a(1,2) info(1,2) fits info(4) mem] .
  have lru: "least_recent s u m" unfolding least_recent_def using a by blast
  have row: "chunk_room VM (length (row_of m)) s" using room unfolding chunk_room_def by force
  have t: "kv_wf ?t" "files_of ?t = (files_of s)(u := None)" "stored_row VM u ?t = Ok (row_of m)"
    "\<And>w. w \<noteq> u \<Longrightarrow> stored_row VM w ?t = stored_row VM w s" "chunks_ok VM ?t"
    using evict_ok [OF wf lru row mem] unfolding h(3) by auto
  have new: "u \<notin> fst ` set us" "list_all2 (\<lambda>a (v, m). contents h' a = Some (v, m) \<and> oget (odel u (tablets s)) v = Some a) xs us"
  proof -
    have "a \<notin> set xs" using a(1) by (simp add: dll_def)
    then have "\<forall>(v, m) \<in> set us. v \<noteq> u"
      using rest a(3) by (auto simp: list_all2_conv_all_nth in_set_conv_nth split_beta) (metis fst_conv option.inject)
    then show "u \<notin> fst ` set us" by auto
    then show "list_all2 (\<lambda>a (v, m). contents h' a = Some (v, m) \<and> oget (odel u (tablets s)) v = Some a) xs us"
      using rest h(2) by (auto simp: list_all2_conv_all_nth split_beta image_iff)
  qed
  show ?thesis
  proof (rule that [OF h(3) t(1) _ _ _ t(2-4)])
    show "in_order ?t us" unfolding in_order_def using h(1) new(2) by auto
    show "chunk_room VM j ?t" unfolding chunk_room_def using t(5) fit info(4) by simp
  qed (use new(1) in simp_all)
qed

section \<open>The loop\<close>

text \<open>A round that finds no room changes nothing but the entry that \<open>user_size[user]\<close> creates.\<close>

lemma put_helper_full:
  assumes "capacity s < memory_used s + int (length v)" and "0 \<le> memory_used s" "memory_used s \<le> capacity s"
    and "capacity s < 2 ^ 31" "int (length v) \<le> capacity s" and "external \<Longrightarrow> quota_room s user (length v)"
  obtains t where "put_helper fetch user f v fd external False seq s = Ok (False, t)"
    "t = (if external then s\<lparr>user_size := oindex 0 user (user_size s)\<rparr> else s)"
proof -
  have u: "to_u64 (capacity s) = capacity s" "to_u64 (memory_used s + int (length v)) = memory_used s + int (length v)"
    using assms(1-5) by (auto simp: to_u64_def)
  have q: "to_u64 (oget_def 0 (user_size s) user + int (length v)) = oget_def 0 (user_size s) user + int (length v)"
    "oget_def 0 (user_size s) user + int (length v) < capacity s" if external
    using assms(4) assms(6) [OF that] by (auto simp: quota_room_def to_u64_def)
  show ?thesis
    by (rule that [OF _ refl], cases external) (use u q assms(1) in \<open>simp_all add: put_helper_def Let_def\<close>)
qed

lemma counted_frame:
  assumes "t = (if external then s\<lparr>user_size := oindex 0 user (user_size s)\<rparr> else s)" and "kv_wf s"
  shows "kv_wf t" "files_of t = files_of s" "in_order t us = in_order s us" "chunk_room VM j t = chunk_room VM j s"
    "memory_used t = memory_used s" "capacity t = capacity s" "virmem_meta t = virmem_meta s"
    "stored_row VM w t = stored_row VM w s" "is_primary t = is_primary s" "sent t = sent s"
    "quota_room t u k = quota_room s u k"
  using assms files_of_frame [of t s]
  by (simp_all add: in_order_def chunk_room_def chunks_ok_def chunk_file_def meta_of_def stored_row_def quota_room_def)

lemma put_loop_fits:
  assumes wf: "kv_wf s" and none: "oget (virmem_meta s) u = None" and room: "mem_room s (length v)"
    and quota: "external \<Longrightarrow> quota_room s u (length v)"
  obtains s' where "put_loop (Suc n) u f v fd external seq s = Ok s'" "kv_wf s'" "capacity s' = capacity s"
    "files_of s' = (files_of s)(u \<mapsto> append_value f v (files_list s u))"
    "\<And>w. stored_row VM w s' = stored_row VM w s" "memory_used s' = memory_used s + int (length v)"
    "sent s' = sent s @ (if external then [(fd, if is_primary s then msg_stored else done_report u seq)] else [])"
    "same_node s s'" "\<And>w. w \<noteq> u \<Longrightarrow> oget_def 0 (user_size s') w = oget_def 0 (user_size s) w"
proof -
  have q: "external \<or> False \<Longrightarrow> quota_room s u (length v)" using quota by simp
  obtain s' where "put_helper (reload n fd) u f v fd external False seq s = Ok (True, s')" "kv_wf s'"
    "same_node s s'" "memory_used s' = memory_used s + int (length v)"
    "files_of s' = (files_of s)(u \<mapsto> (if False then oupd f v else append_value f v) (files_list s u))"
    "sent s' = sent s @ (if external then
      [(fd, if is_primary s then if False then msg_new_stored else msg_stored else done_report u seq)] else [])"
    "\<forall>w. oget_def 0 (user_size s') w = oget_def 0 (user_size s) w + (if (external \<or> False) \<and> w = u then int (length v) else 0)"
    using put_helper_resident [OF wf none room q, where fetch = "reload n fd" and filename = f and fd = fd and seq = seq]
    by blast
  then show ?thesis
    by (intro that [of s']) (simp_all add: reload_def same_node_def stored_row_def meta_of_def)
qed

lemma put_loop_evicts:
  assumes "kv_wf s" and "in_order s us" and "chunk_room VM (rows us) s" and "memory_used s = mem_total us"
    and "mem_total us \<le> capacity s" and "capacity s < 2 ^ 31" and "int (length v) \<le> capacity s"
    and "oget (virmem_meta s) u = None" and "u \<notin> fst ` set (to_evict (capacity s) (int (length v)) us)"
    and "external \<Longrightarrow> quota_room s u (length v)" and "length us \<le> n"
  shows "\<exists>s'. put_loop (Suc n) u f v fd external seq s = Ok s' \<and> kv_wf s' \<and> capacity s' = capacity s \<and>
    files_of s' = (\<lambda>w. if w \<in> fst ` set (to_evict (capacity s) (int (length v)) us) then None else files_of s w)
      (u \<mapsto> append_value f v (files_list s u)) \<and>
    (\<forall>w. w \<notin> fst ` set (to_evict (capacity s) (int (length v)) us) \<longrightarrow> stored_row VM w s' = stored_row VM w s) \<and>
    (\<forall>(w, m) \<in> set (to_evict (capacity s) (int (length v)) us). stored_row VM w s' = Ok (row_of m)) \<and>
    memory_used s' = mem_total us - mem_total (to_evict (capacity s) (int (length v)) us) + int (length v) \<and>
    sent s' = sent s @ (if external then [(fd, if is_primary s then msg_stored else done_report u seq)] else [])"
  using assms
proof (induction us arbitrary: s n)
  case Nil
  then have "mem_room s (length v)" by (simp add: mem_room_def)
  then obtain s' where "put_loop (Suc n) u f v fd external seq s = Ok s'" "kv_wf s'" "capacity s' = capacity s"
    "files_of s' = (files_of s)(u \<mapsto> append_value f v (files_list s u))"
    "\<And>w. stored_row VM w s' = stored_row VM w s" "memory_used s' = memory_used s + int (length v)"
    "sent s' = sent s @ (if external then [(fd, if is_primary s then msg_stored else done_report u seq)] else [])"
    using put_loop_fits [OF Nil.prems(1,8)] Nil.prems(10) by metis
  then show ?case using Nil.prems(4) by (intro exI [of _ s']) simp
next
  case (Cons x us)
  obtain w m where x: "x = (w, m)" by force
  let ?n = "int (length v)"
  show ?case
  proof (cases "mem_total (x # us) + ?n \<le> capacity s")
    case True
    then have "mem_room s (length v)" using Cons.prems(4,6) mem_total_nonneg [of "x # us"] by (simp only: mem_room_def)
    then obtain s' where "put_loop (Suc n) u f v fd external seq s = Ok s'" "kv_wf s'" "capacity s' = capacity s"
      "files_of s' = (files_of s)(u \<mapsto> append_value f v (files_list s u))"
      "\<And>w. stored_row VM w s' = stored_row VM w s" "memory_used s' = memory_used s + int (length v)"
      "sent s' = sent s @ (if external then [(fd, if is_primary s then msg_stored else done_report u seq)] else [])"
      using put_loop_fits [OF Cons.prems(1,8)] Cons.prems(10) by metis
    then show ?thesis using Cons.prems(4) True by (intro exI [of _ s']) simp
  next
    case False
    obtain k where k: "n = Suc k" "length us \<le> k" using Cons.prems(11) by (cases n) auto
    have full: "capacity s < memory_used s + ?n" "0 \<le> memory_used s" "memory_used s \<le> capacity s"
      using False Cons.prems(4,5) mem_total_nonneg [of "x # us"] by simp_all
    obtain t where t: "put_helper (reload n fd) u f v fd external False seq s = Ok (False, t)"
      "t = (if external then s\<lparr>user_size := oindex 0 u (user_size s)\<rparr> else s)"
      by (rule put_helper_full [OF full Cons.prems(6,7,10)])
    note tf = counted_frame [OF t(2) Cons.prems(1)]
    have pre: "in_order t ((w, m) # us)" "chunk_room VM (length (row_of m) + rows us) t"
      "msize m \<le> memory_used t" "memory_used t < 2 ^ 31"
      using Cons.prems(2-6) by (simp_all add: tf x)
    obtain r where r: "use_virtual_memory t = Ok r" "kv_wf r" "in_order r us" "chunk_room VM (rows us) r"
      "memory_used r = memory_used t - msize m" "files_of r = (files_of t)(w := None)"
      "stored_row VM w r = Ok (row_of m)" "\<And>z. z \<noteq> w \<Longrightarrow> stored_row VM z r = stored_row VM z t"
      "\<And>z. z \<noteq> w \<Longrightarrow> oget (virmem_meta r) z = oget (virmem_meta t) z" "capacity r = capacity t"
      "is_primary r = is_primary t" "sent r = sent t" "user_size r = user_size t" "w \<notin> fst ` set us"
      by (rule evict_step [OF tf(1) pre]) blast
    have ev: "to_evict (capacity s) ?n (x # us) = x # to_evict (capacity s) ?n us" using False by simp
    have uw: "u \<noteq> w" "u \<notin> fst ` set (to_evict (capacity s) ?n us)" using Cons.prems(9) unfolding ev by (auto simp: x)
    have fl: "files_list r u = files_list s u" using uw(1) by (simp add: files_list_def r(6) tf)
    have wn: "w \<notin> fst ` set (to_evict (capacity s) ?n us)"
      using r(14) set_mono_prefix [OF to_evict_prefix] by (meson image_mono subsetD)
    have cap: "capacity r = capacity s" by (simp only: r(10) tf(6))
    have le: "mem_total us \<le> capacity s"
      using Cons.prems(5) msize_nonneg [of m] unfolding x mem_total_simps by linarith
    have h: "memory_used r = mem_total us" "mem_total us \<le> capacity r" "capacity r < 2 ^ 31"
      "int (length v) \<le> capacity r" "oget (virmem_meta r) u = None"
      "u \<notin> fst ` set (to_evict (capacity r) ?n us)"
      using Cons.prems(4,6-8) le r(5) r(9) [OF uw(1)] uw(2) unfolding cap tf by (simp_all add: x)
    have quota: "external \<Longrightarrow> quota_room r u (length v)"
      using Cons.prems(10) tf(11) [of u "length v"] by (simp add: quota_room_def r(10,13))
    obtain s' where s': "put_loop (Suc k) u f v fd external seq r = Ok s'" "kv_wf s'" "capacity s' = capacity r"
      "files_of s' = (\<lambda>z. if z \<in> fst ` set (to_evict (capacity r) ?n us) then None else files_of r z)
        (u \<mapsto> append_value f v (files_list r u))"
      "\<forall>z. z \<notin> fst ` set (to_evict (capacity r) ?n us) \<longrightarrow> stored_row VM z s' = stored_row VM z r"
      "\<forall>(z, m) \<in> set (to_evict (capacity r) ?n us). stored_row VM z s' = Ok (row_of m)"
      "memory_used s' = mem_total us - mem_total (to_evict (capacity r) ?n us) + ?n"
      "sent s' = sent r @ (if external then [(fd, if is_primary r then msg_stored else done_report u seq)] else [])"
      using Cons.IH [OF r(2-4) h quota k(2)] by blast
    have "put_loop (Suc n) u f v fd external seq s = Ok s'"
      using t(1) r(1) s'(1) k(1) by (simp add: reload_def)
    moreover have "files_of s' = (\<lambda>z. if z \<in> fst ` set (to_evict (capacity s) ?n (x # us)) then None else files_of s z)
        (u \<mapsto> append_value f v (files_list s u))"
      using s'(4) unfolding ev by (auto simp: x r(6,10) tf fl fun_eq_iff)
    ultimately show ?thesis
      unfolding ev using s' r(7,8) wn by (intro exI [of _ s']) (auto simp: x r(10-12) tf)
  qed
qed

section \<open>The command\<close>

text \<open>A put that does not fit ends: with one round for each user in memory at most, it evicts exactly
  the least recently used users that have to go, writes their rows to the chunk file, keeps all
  others, and stores the value.\<close>

text \<open>C3: A put that does not fit into the memory ends, with at most one round of its loop for each user
  in memory: it evicts exactly the least recently used users that have to go, their rows are in the
  chunk file, all other users keep their files, and the value is stored. This holds while the
  recency list links every user in memory, the memory counter is the sum of the bytes held, the
  current chunk has room for the rows of all users, the value is no longer than the memory, and the
  user of the put is not on disk, is below its quota and is not itself among the users that have to
  go.\<close>

theorem put_ends_by_evicting:
  assumes "kv_wf s" and "in_order s us" and "chunk_room VM (rows us) s" and "memory_used s = mem_total us"
    and "mem_total us \<le> capacity s" and "capacity s < 2 ^ 31" and "int (length v) \<le> capacity s"
    and "oget (virmem_meta s) u = None" and "u \<notin> fst ` set (to_evict (capacity s) (int (length v)) us)"
    and "quota_room s u (length v)" and "length us \<le> n"
  shows "\<exists>s'. lru_put (Suc n) u f v fd True seq s = Ok s' \<and> kv_wf s' \<and>
    files_of s' = (\<lambda>w. if w \<in> fst ` set (to_evict (capacity s) (int (length v)) us) then None else files_of s w)
      (u \<mapsto> append_value f v (files_list s u)) \<and>
    (\<forall>(w, m) \<in> set (to_evict (capacity s) (int (length v)) us). stored_row VM w s' = Ok (row_of m)) \<and>
    memory_used s' = mem_total us - mem_total (to_evict (capacity s) (int (length v)) us) + int (length v) \<and>
    memory_used s' \<le> capacity s' \<and>
    sent s' = sent s @ [(fd, if is_primary s then msg_stored else done_report u seq)]"
proof -
  obtain s' where s': "put_loop (Suc n) u f v fd True seq s = Ok s'" "kv_wf s'" "capacity s' = capacity s"
    "files_of s' = (\<lambda>w. if w \<in> fst ` set (to_evict (capacity s) (int (length v)) us) then None else files_of s w)
      (u \<mapsto> append_value f v (files_list s u))"
    "\<forall>(w, m) \<in> set (to_evict (capacity s) (int (length v)) us). stored_row VM w s' = Ok (row_of m)"
    "memory_used s' = mem_total us - mem_total (to_evict (capacity s) (int (length v)) us) + int (length v)"
    "sent s' = sent s @ [(fd, if is_primary s then msg_stored else done_report u seq)]"
    using put_loop_evicts [OF assms(1-9) _ assms(11), of True f fd seq] assms(10) by auto
  have "\<not> to_u64 (capacity s) < int (length v)" using assms(6,7) by (simp add: to_u64_def)
  then have "lru_put (Suc n) u f v fd True seq s = Ok s'"
    using s'(1) by (simp only: lru_put_def put_entry_def if_False)
  then show ?thesis using s' to_evict_fits [OF assms(7), of us] by (intro exI [of _ s']) simp
qed

end
