(* ===== verification/KV_Order.thy ===== *)
theory KV_Order
  imports KV_Evict
begin

text \<open>
  The recency order. As long as the list is linked in both directions, a \<open>get\<close> moves its user to
  the most recent end and a new user is added there. A \<open>put\<close> to a user the cache holds does not
  unlink its node first: the users behind it are lost for eviction, and once the front of the list
  is used up, \<open>use_virtual_memory\<close> reads through the \<open>prev\<close> or \<open>next\<close> of a sentinel.
\<close>

section \<open>What keeps the order\<close>

text \<open>A get of a user in memory moves its node to the end of the recency list and keeps the order
  of the others.\<close>

theorem get_order:
  assumes "kv_wf s" and "oget (virmem_meta s) u = None" and "oget (tablets s) u = Some a"
    and "dll (heap s) (xs @ a # ys)"
  shows "\<exists>s'. lru_get n u f fd s = Ok s' \<and> dll (heap s') (xs @ ys @ [a])"
proof -
  obtain h where h: "rbind (unlink (Some a) (heap s)) (move_to_tail (Some a)) = Ok h"
    "dll h (xs @ ys @ [a])" "contents h = contents (heap s)"
    using dll_touch [OF assms(4)] by blast
  obtain h1 where h1: "unlink (Some a) (heap s) = Ok h1" "move_to_tail (Some a) h1 = Ok h"
    using h(1) by (auto simp: rbind_eq_Ok)
  obtain nd where nd: "h a = Some nd" using h(2) by (auto simp: dll_def)
  show ?thesis
    using assms h1 h(2) nd by (cases "oget (nvalue nd) f") (simp_all add: lru_get_def get_helper_def Let_def)
qed

text \<open>Storing the first value of a new user appends a fresh node to the recency list, and the
  address table points to it.\<close>

theorem new_user_order:
  assumes wf: "kv_wf s" and new: "oget (tablets s) u = None" and dll: "dll (heap s) xs"
  shows "\<exists>s'. insert_user u f v s = Ok s' \<and> dll (heap s') (xs @ [next_addr s]) \<and>
    oget (tablets s') u = Some (next_addr s)"
proof -
  define a where "a = next_addr s"
  define n where "n = (new_node u)\<lparr>nvalue := [(f, v)]\<rparr>"
  have a: "heap s a = None" using wf by (simp add: kv_wf_def a_def)
  then have fresh: "a \<notin> set (head_addr # xs @ [tail_addr])"
    using dll by (auto simp: dll_def)
  have nxpv: "nx ((heap s)(a \<mapsto> n)) b = nx (heap s) b" "pv ((heap s)(a \<mapsto> n)) b = pv (heap s) b"
    if "b \<noteq> a" for b using that by (simp_all add: nx_def pv_def)
  have "dll ((heap s)(a \<mapsto> n)) xs"
    unfolding dll_def
  proof (intro conjI)
    show "linked (nx ((heap s)(a \<mapsto> n))) (pv ((heap s)(a \<mapsto> n))) (head_addr # xs @ [tail_addr])"
      using dll fresh unfolding dll_def
      by (subst linked_frame [where f = "nx (heap s)" and g = "pv (heap s)"])
        (auto intro!: nxpv dest: in_set_butlastD)
  qed (use dll fresh nxpv in \<open>auto simp: dll_def\<close>)
  then obtain h where "move_to_tail (Some a) ((heap s)(a \<mapsto> n)) = Ok h" "dll h (xs @ [a])"
    using dll_move_to_tail [of "(heap s)(a \<mapsto> n)" xs a] fresh by auto
  then show ?thesis by (simp add: insert_user_def Let_def flip: a_def n_def)
qed

section \<open>What breaks it\<close>

text \<open>C35: A put on a user in memory that is not the most recent one does not unlink the node before it
  is moved to the tail: the users behind it are cut off the eviction list.\<close>

theorem put_cuts_list:
  assumes wf: "kv_wf s" and res: "oget (virmem_meta s) u = None" and room: "room s u (length v)"
    and a: "oget (tablets s) u = Some a" and dll: "dll (heap s) (xs @ a # ys)" and "ys \<noteq> []"
    and "length xs < k"
  shows "\<exists>s'. lru_put (Suc n) u f v fd True seq s = Ok s' \<and> eviction_order k (heap s') = xs @ [a]"
proof -
  obtain s' where s': "lru_put (Suc n) u f v fd True seq s = Ok s'"
    using lru_put_resident [OF wf res room] by blast
  obtain nd where nd: "heap s a = Some nd" using dll by (auto simp: dll_def)
  obtain h1 where h1: "store (Some a) (\<lambda>n. n\<lparr>nvalue := append_value f v (nvalue n)\<rparr>) (heap s) = Ok h1"
    "nx h1 = nx (heap s)" "pv h1 = pv (heap s)" "contents h1 = (contents (heap s))(a \<mapsto> (nkey nd, append_value f v (nvalue nd)))"
    using store_value_effect [of "heap s" a nd "append_value f v"] nd by blast
  have "h1 b = None \<longleftrightarrow> heap s b = None" for b
    using fun_cong [OF h1(4), of b] nd by (auto simp: contents_def split: if_splits)
  then have "dll h1 (xs @ a # ys)" using dll by (simp add: dll_def h1)
  moreover obtain h where h: "move_to_tail (Some a) h1 = Ok h"
    using move_linked_node [OF calculation assms(6)] by blast
  ultimately have "eviction_order k h = xs @ [a]"
    using eviction_order_move_linked assms(6,7) by blast
  moreover have "heap s' = h"
    using s' room res a h1(1) h
    by (auto simp: lru_put_def put_entry_def put_helper_def Let_def update_user_def room_def mem_room_def
        quota_room_def to_u64_small put_reply_def add_user_size_def split: if_splits)
  ultimately show ?thesis using s' by blast
qed

text \<open>Runs on a node of ten bytes, with requests on one connection.\<close>

definition small_node :: kv where
  "small_node =
     (init_kv 10 100)\<lparr>is_primary := True, chunk_info := [(VM, [0, 0])], disk := [(VM, Dir)]\<rparr>"

definition answers :: "command list \<Rightarrow> cpp_error + string list" where
  "answers cs = map_sum id (\<lambda>s. map snd (sent s)) (run_requests 9 (map (\<lambda>c. (5, 1, c)) cs) small_node)"

text \<open>Four requests that only store values: the last needs two evictions.\<close>

text \<open>Four put requests on an empty store with a budget of ten bytes end in a null pointer
  dereference, because the users cut off the list cannot be evicted.\<close>

theorem put_crash:
  "answers [Put ''A'' ''f'' ''aa'', Put ''B'' ''f'' ''bb'', Put ''A'' ''f'' ''c'',
     Put ''C'' ''f'' ''123456789''] = Fail NullDeref"
  by code_simp

text \<open>A user whose last file was deleted, and who comes back.\<close>

text \<open>Deleting the last file of a user leaves its node in the recency list; when the user comes
  back and space is needed, the node is evicted instead of the live data and a get of the user
  dereferences a null pointer.\<close>

theorem stale_node_crash:
  "answers [Put ''A'' ''f'' ''aa'', Dele ''A'' ''f'', Put ''B'' ''f'' ''bbbb'', Put ''A'' ''g'' ''xyz'',
     Get ''A'' ''g'', Put ''C'' ''f'' ''123456'', Get ''A'' ''g''] = Fail NullDeref"
  by code_simp

end
