(* ===== verification/KV_Workload.thy ===== *)
theory KV_Workload
  imports KV_Pressure KV_Order
begin

text \<open>
  Any number of new users on a node with little memory: each put evicts what has to go
  (\<open>KV_Pressure\<close>), and leaves the cache in a state where the next one can do the same. No user is
  lost: each is in memory, or its row is in the chunk file. The chunk has to have room for all rows.
\<close>

section \<open>The state between two puts\<close>

definition pressure :: "kv \<Rightarrow> user_files list \<Rightarrow> nat \<Rightarrow> bool" where
  "pressure s us j \<longleftrightarrow>
     kv_wf s \<and> in_order s us \<and> chunk_room VM (rows us + j) s \<and> memory_used s = mem_total us \<and>
     mem_total us \<le> capacity s \<and> capacity s < 2 ^ 31"

definition kept :: "kv \<Rightarrow> user_files \<Rightarrow> bool" where
  "kept s = (\<lambda>(u, m). files_of s u = Some m \<or> (files_of s u = None \<and> stored_row VM u s = Ok (row_of m)))"

definition unknown :: "kv \<Rightarrow> string \<Rightarrow> bool" where
  "unknown s u \<longleftrightarrow> files_of s u = None \<and> oget (virmem_meta s) u = None \<and> oget_def 0 (user_size s) u = 0"

lemma rows_append [simp]: "rows (us @ vs) = rows us + rows vs"
  by (simp add: rows_def)

lemma mem_total_append [simp]: "mem_total (us @ vs) = mem_total us + mem_total vs"
  by (simp add: mem_total_def)

lemma in_order_files:
  assumes "kv_wf s"
  shows "in_order s us \<longleftrightarrow>
    (\<exists>xs. dll (heap s) xs \<and> list_all2 (\<lambda>a (u, m). oget (tablets s) u = Some a \<and> files_of s u = Some m) xs us)"
proof -
  have "contents (heap s) a = Some (u, m) \<and> oget (tablets s) u = Some a \<longleftrightarrow>
      oget (tablets s) u = Some a \<and> files_of s u = Some m" for a u m
  proof (cases "oget (tablets s) u = Some a")
    case True
    then obtain n where "heap s a = Some n" "nkey n = u" "files_of s u = Some (nvalue n)"
      using kv_wf_node [OF assms True] by metis
    then show ?thesis using True by (auto simp: contents_def)
  qed simp
  then show ?thesis by (simp add: in_order_def)
qed

lemma in_order_file: "kv_wf s \<Longrightarrow> in_order s us \<Longrightarrow> (u, m) \<in> set us \<Longrightarrow> files_of s u = Some m"
  by (auto simp: in_order_files list_all2_conv_all_nth in_set_conv_nth split_beta)

lemma unknown_order: "kv_wf s \<Longrightarrow> in_order s us \<Longrightarrow> unknown s u \<Longrightarrow> u \<notin> fst ` set us"
  by (auto simp: unknown_def dest: in_order_file)

lemma unknown_tablets:
  assumes "kv_wf s" and "unknown s u"
  shows "oget (tablets s) u = None"
proof (cases "oget (tablets s) u")
  case (Some a)
  then show ?thesis using kv_wf_node [OF assms(1) Some] assms(2) by (metis unknown_def option.distinct(1))
qed

section \<open>One put of a new user\<close>

lemma new_user_links:
  assumes "put_loop (Suc n) u f v fd True seq s = Ok s'" and "unknown s u" and "oget (tablets s) u = None" and "room s u (length v)"
    and "insert_user u f v (s\<lparr>user_size := oindex 0 u (user_size s)\<rparr>) = Ok s1"
  shows "heap s' = heap s1 \<and> tablets s' = tablets s1"
  using assms
  by (auto simp: put_helper_def Let_def unknown_def room_def mem_room_def quota_room_def to_u64_small
      put_reply_def add_user_size_def split: if_splits)

lemma put_new_fits:
  assumes p: "pressure s us (length (row_of [(f, v)]) + j)" and new: "unknown s u"
    and fits: "mem_total us + int (length v) \<le> capacity s" and quota: "int (length v) < capacity s"
  obtains s' where "put_loop (Suc n) u f v fd True seq s = Ok s'" "pressure s' (us @ [(u, [(f, v)])]) j"
    "capacity s' = capacity s" "virmem_meta s' = virmem_meta s" "files_of s' = (files_of s)(u \<mapsto> [(f, v)])"
    "\<And>w. stored_row VM w s' = stored_row VM w s" "\<And>w. w \<noteq> u \<Longrightarrow> unknown s w \<Longrightarrow> unknown s' w"
proof -
  have wf: "kv_wf s" and ord: "in_order s us" and mem: "memory_used s = mem_total us" "capacity s < 2 ^ 31"
    and chunk: "chunk_room VM (rows us + (length (row_of [(f, v)]) + j)) s"
    using p by (simp_all add: pressure_def)
  have none: "oget (tablets s) u = None" "oget (virmem_meta s) u = None" "files_of s u = None"
    using new unknown_tablets [OF wf new] by (simp_all add: unknown_def)
  have room: "room s u (length v)"
    using mem fits quota new by (simp add: room_def mem_room_def quota_room_def unknown_def)
  then have rm: "mem_room s (length v)" "quota_room s u (length v)" by (simp_all add: room_def)
  define t where "t = s\<lparr>user_size := oindex 0 u (user_size s)\<rparr>"
  have t: "kv_wf t" "files_of t = files_of s" "heap t = heap s" "tablets t = tablets s" "next_addr t = next_addr s"
    using counted_frame [of t True u s] wf by (simp_all add: t_def)
  obtain xs where xs: "dll (heap s) xs" "list_all2 (\<lambda>a (u, m). oget (tablets s) u = Some a \<and> files_of s u = Some m) xs us"
    using ord in_order_files [OF wf] by blast
  obtain s1 where s1: "insert_user u f v t = Ok s1" "dll (heap s1) (xs @ [next_addr s])"
    using new_user_order [OF t(1), of u xs f v] none t xs by auto
  have tab: "tablets s1 = oupd u (next_addr s) (tablets s)"
    using insert_user_ok [OF t(1), of u f v] none t s1(1) by (auto simp: Let_def)
  obtain s' where s': "put_loop (Suc n) u f v fd True seq s = Ok s'" "kv_wf s'" "same_node s s'"
    "memory_used s' = memory_used s + int (length v)" "files_of s' = (files_of s)(u \<mapsto> append_value f v (files_list s u))"
    "\<And>w. w \<noteq> u \<Longrightarrow> oget_def 0 (user_size s') w = oget_def 0 (user_size s) w"
    by (rule put_loop_fits [OF wf none(2) rm(1), of True n f fd seq]) (use rm(2) in blast)+
  have fl: "append_value f v (files_list s u) = [(f, v)]"
    using none by (simp add: append_value_def files_list_def files_of_def oget_def_def)
  have l: "heap s' = heap s1" "tablets s' = tablets s1"
    using new_user_links [OF s'(1) new none(1) room s1(1) [unfolded t_def]] by blast+
  have un: "u \<notin> fst ` set us" using unknown_order [OF wf ord new] .
  have "in_order s' (us @ [(u, [(f, v)])])"
    unfolding in_order_files [OF s'(2)]
  proof (intro exI conjI)
    show "dll (heap s') (xs @ [next_addr s])" using s1(2) l(1) by simp
    have "list_all2 (\<lambda>a (w, m). oget (tablets s') w = Some a \<and> files_of s' w = Some m) xs us"
      using xs(2) un by (auto simp: list_all2_conv_all_nth split_beta l(2) tab s'(5) image_iff)
    then show "list_all2 (\<lambda>a (w, m). oget (tablets s') w = Some a \<and> files_of s' w = Some m) (xs @ [next_addr s]) (us @ [(u, [(f, v)])])"
      by (simp add: list_all2_appendI l(2) tab s'(5) fl)
  qed
  moreover have "chunk_room VM j' s' = chunk_room VM j' s" for j'
    using s'(3) by (simp add: chunk_room_def chunks_ok_def chunk_file_def meta_of_def same_node_def)
  ultimately have "pressure s' (us @ [(u, [(f, v)])]) j"
    using s' chunk mem fits by (simp add: pressure_def same_node_def add.assoc)
  moreover have "unknown s' w" if "w \<noteq> u" "unknown s w" for w
    using that s'(3,5,6) by (simp add: unknown_def same_node_def)
  ultimately show ?thesis
    using that [of s'] s' by (simp add: fl same_node_def stored_row_def meta_of_def)
qed

lemma put_new:
  assumes "pressure s us (length (row_of [(f, v)]) + j)" and "unknown s u" and "int (length v) < capacity s"
    and "length us \<le> n"
  shows "\<exists>s' vs ws. us = vs @ ws \<and> put_loop (Suc n) u f v fd True seq s = Ok s' \<and>
    pressure s' (ws @ [(u, [(f, v)])]) j \<and> capacity s' = capacity s \<and> files_of s' u = Some [(f, v)] \<and>
    (\<forall>w. w \<noteq> u \<longrightarrow> w \<notin> fst ` set vs \<longrightarrow> files_of s' w = files_of s w \<and> stored_row VM w s' = stored_row VM w s) \<and>
    (\<forall>(w, m) \<in> set vs. files_of s' w = None \<and> stored_row VM w s' = Ok (row_of m)) \<and>
    (\<forall>w. w \<noteq> u \<longrightarrow> w \<notin> fst ` set us \<longrightarrow> unknown s w \<longrightarrow> unknown s' w)"
  using assms
proof (induction us arbitrary: s n)
  case Nil
  then have "mem_total [] + int (length v) \<le> capacity s" by simp
  then obtain s' where "put_loop (Suc n) u f v fd True seq s = Ok s'" "pressure s' ([] @ [(u, [(f, v)])]) j"
    "capacity s' = capacity s" "files_of s' = (files_of s)(u \<mapsto> [(f, v)])"
    "\<And>w. stored_row VM w s' = stored_row VM w s" "\<And>w. w \<noteq> u \<Longrightarrow> unknown s w \<Longrightarrow> unknown s' w"
    using put_new_fits [OF Nil.prems(1,2) _ Nil.prems(3)] by metis
  then show ?case by (intro exI [of _ s'] exI [of _ "[]"]) simp
next
  case (Cons x us)
  obtain w m where x: "x = (w, m)" by force
  show ?case
  proof (cases "mem_total (x # us) + int (length v) \<le> capacity s")
    case True
    obtain s' where "put_loop (Suc n) u f v fd True seq s = Ok s'" "pressure s' ((x # us) @ [(u, [(f, v)])]) j"
      "capacity s' = capacity s" "files_of s' = (files_of s)(u \<mapsto> [(f, v)])"
      "\<And>w. stored_row VM w s' = stored_row VM w s" "\<And>w. w \<noteq> u \<Longrightarrow> unknown s w \<Longrightarrow> unknown s' w"
      using put_new_fits [OF Cons.prems(1,2) True Cons.prems(3)] by metis
    then show ?thesis by (intro exI [of _ s'] exI [of _ "[]"] exI [of _ "x # us"]) simp
  next
    case False
    obtain k where k: "n = Suc k" "length us \<le> k" using Cons.prems(4) by (cases n) auto
    have p: "kv_wf s" "in_order s (x # us)" "chunk_room VM (rows (x # us) + (length (row_of [(f, v)]) + j)) s"
      "memory_used s = mem_total (x # us)" "mem_total (x # us) \<le> capacity s" "capacity s < 2 ^ 31"
      using Cons.prems(1) by (simp_all add: pressure_def)
    have full: "capacity s < memory_used s + int (length v)" "0 \<le> memory_used s" "memory_used s \<le> capacity s"
      "int (length v) \<le> capacity s" "quota_room s u (length v)"
      using False p(4,5) mem_total_nonneg [of "x # us"] Cons.prems(2,3) by (simp_all add: quota_room_def unknown_def)
    obtain t where t: "put_helper (reload n fd) u f v fd True False seq s = Ok (False, t)"
      "t = (if True then s\<lparr>user_size := oindex 0 u (user_size s)\<rparr> else s)"
      by (rule put_helper_full [OF full(1-3) p(6) full(4)]) (use full(5) in blast)+
    note tf = counted_frame [OF t(2) p(1)]
    have pre: "in_order t ((w, m) # us)" "chunk_room VM (length (row_of m) + (rows us + (length (row_of [(f, v)]) + j))) t"
      "msize m \<le> memory_used t" "memory_used t < 2 ^ 31"
      using p(2-6) by (simp_all add: tf x add.assoc)
    obtain r where r: "use_virtual_memory t = Ok r" "kv_wf r" "in_order r us"
      "chunk_room VM (rows us + (length (row_of [(f, v)]) + j)) r"
      "memory_used r = memory_used t - msize m" "files_of r = (files_of t)(w := None)"
      "stored_row VM w r = Ok (row_of m)" "\<And>z. z \<noteq> w \<Longrightarrow> stored_row VM z r = stored_row VM z t"
      "\<And>z. z \<noteq> w \<Longrightarrow> oget (virmem_meta r) z = oget (virmem_meta t) z" "capacity r = capacity t"
      "user_size r = user_size t" "w \<notin> fst ` set us"
      by (rule evict_step [OF tf(1) pre]) blast
    have fw: "files_of s w = Some m" using in_order_file [OF p(1,2)] by (simp add: x)
    have uw: "u \<noteq> w" using Cons.prems(2) fw by (auto simp: unknown_def files_of_def)
    have le: "mem_total us \<le> capacity s"
      using p(5) msize_nonneg [of m] unfolding x mem_total_simps by linarith
    have pr: "pressure r us (length (row_of [(f, v)]) + j)"
      unfolding pressure_def using r le p(4,6) by (simp add: tf x)
    have unk: "unknown r z" if "z \<noteq> w" "unknown s z" for z
      using that r(9) [OF that(1)] unfolding unknown_def
      by (simp add: r(6,11) tf) (simp add: t(2))
    obtain s' vs ws where s': "us = vs @ ws" "put_loop (Suc k) u f v fd True seq r = Ok s'"
      "pressure s' (ws @ [(u, [(f, v)])]) j" "capacity s' = capacity r" "files_of s' u = Some [(f, v)]"
      "\<forall>z. z \<noteq> u \<longrightarrow> z \<notin> fst ` set vs \<longrightarrow> files_of s' z = files_of r z \<and> stored_row VM z s' = stored_row VM z r"
      "\<forall>(z, m) \<in> set vs. files_of s' z = None \<and> stored_row VM z s' = Ok (row_of m)"
      "\<forall>z. z \<noteq> u \<longrightarrow> z \<notin> fst ` set us \<longrightarrow> unknown r z \<longrightarrow> unknown s' z"
      using Cons.IH [OF pr unk [OF uw Cons.prems(2)] _ k(2)] Cons.prems(3) by (auto simp: r(10) tf)
    have "put_loop (Suc n) u f v fd True seq s = Ok s'"
      using t(1) r(1) s'(2) k(1) by (simp add: reload_def)
    moreover have wv: "w \<notin> fst ` set vs" using r(12) s'(1) by auto
    moreover have "files_of s' z = files_of s z \<and> stored_row VM z s' = stored_row VM z s"
      if "z \<noteq> u" "z \<notin> fst ` set (x # vs)" for z
      using that s'(6) r(6,8) by (simp add: x tf)
    moreover have "files_of s' w = None \<and> stored_row VM w s' = Ok (row_of m)"
      using s'(6) uw wv r(6,7) by simp
    ultimately show ?thesis
      using s' unk by (intro exI [of _ s'] exI [of _ "x # vs"] exI [of _ ws]) (auto simp: x r(10) tf)
  qed
qed

section \<open>Many new users\<close>

definition put_users :: "nat \<Rightarrow> int \<Rightarrow> (string \<times> string \<times> string) list \<Rightarrow> kv \<Rightarrow> kv res" where
  "put_users n fd = foldr_res (\<lambda>(u, f, v). lru_put (Suc n) u f v fd True 0)"

definition user_row :: "string \<times> string \<times> string \<Rightarrow> user_files" where
  "user_row = (\<lambda>(u, f, v). (u, [(f, v)]))"

lemma kept_after:
  assumes "kv_wf s" and "in_order s (vs @ ws)" and "kept s (w, m)" and "w \<noteq> u"
    and "\<forall>w. w \<noteq> u \<longrightarrow> w \<notin> fst ` set vs \<longrightarrow> files_of s' w = files_of s w \<and> stored_row VM w s' = stored_row VM w s"
    and "\<forall>(w, m) \<in> set vs. files_of s' w = None \<and> stored_row VM w s' = Ok (row_of m)"
  shows "kept s' (w, m)"
proof (cases "w \<in> fst ` set vs")
  case True
  then obtain m' where m': "(w, m') \<in> set vs" by auto
  then have "files_of s w = Some m'" using in_order_file [OF assms(1,2)] by simp
  then have "m = m'" using assms(3) by (simp add: kept_def)
  then show ?thesis using m' assms(6) by (auto simp: kept_def)
next
  case False
  then show ?thesis using assms(3-5) by (simp add: kept_def)
qed

text \<open>C4: However many new users are put, one value each, on a node with little memory whose recency
  list links every user in memory, and whatever has to be evicted for them: every put succeeds, the
  memory stays within its capacity, and no user is lost, neither the earlier ones nor the new ones:
  each is in memory with its files, or its row in the chunk file holds them. The conditions are that
  each value is shorter than the whole memory, no new name is known to the node and the names
  differ, the memory counter is the sum of the bytes held, and the current chunk has room for all
  rows. (A put on a user that is in memory already is not among the requests: it can break the
  recency list.)\<close>

theorem new_users_are_kept:
  assumes "pressure s us (rows (map user_row rs))" and "\<forall>(u, f, v) \<in> set rs. unknown s u \<and> int (length v) < capacity s"
    and "distinct (map fst rs)" and "length us + length rs \<le> n"
    and "\<forall>x \<in> set olds. kept s x" and "fst ` set olds \<inter> fst ` set rs = {}"
  shows "\<exists>s'. put_users n fd rs s = Ok s' \<and> kv_wf s' \<and> memory_used s' \<le> capacity s \<and>
    (\<forall>x \<in> set olds \<union> user_row ` set rs. kept s' x)"
  using assms
proof (induction rs arbitrary: s us olds)
  case Nil
  then show ?case by (simp add: put_users_def pressure_def)
next
  case (Cons x rs)
  obtain u f v where x: "x = (u, f, v)" by (rule prod_cases3)
  have wf: "kv_wf s" "in_order s us" "capacity s < 2 ^ 31" using Cons.prems(1) by (simp_all add: pressure_def)
  have new: "unknown s u" "int (length v) < capacity s" using Cons.prems(2) by (simp_all add: x)
  have p: "pressure s us (length (row_of [(f, v)]) + rows (map user_row rs))"
    using Cons.prems(1) by (simp add: x user_row_def)
  obtain s1 vs ws where s1: "us = vs @ ws" "put_loop (Suc n) u f v fd True 0 s = Ok s1"
    "pressure s1 (ws @ [(u, [(f, v)])]) (rows (map user_row rs))" "capacity s1 = capacity s"
    "files_of s1 u = Some [(f, v)]"
    "\<forall>w. w \<noteq> u \<longrightarrow> w \<notin> fst ` set vs \<longrightarrow> files_of s1 w = files_of s w \<and> stored_row VM w s1 = stored_row VM w s"
    "\<forall>(w, m) \<in> set vs. files_of s1 w = None \<and> stored_row VM w s1 = Ok (row_of m)"
    "\<forall>w. w \<noteq> u \<longrightarrow> w \<notin> fst ` set us \<longrightarrow> unknown s w \<longrightarrow> unknown s1 w"
    using put_new [OF p new, of n fd 0] Cons.prems(4) by auto
  have unk: "\<forall>(w, g, y) \<in> set rs. unknown s1 w \<and> int (length y) < capacity s1"
  proof (clarify, intro conjI)
    fix w g y assume r: "(w, g, y) \<in> set rs"
    then have w: "unknown s w" "int (length y) < capacity s" "w \<in> fst ` set rs"
      using Cons.prems(2) by force+
    then have "w \<noteq> u" using Cons.prems(3) by (auto simp: x)
    then show "unknown s1 w" using s1(8) w(1) unknown_order [OF wf(1,2) w(1)] by blast
    show "int (length y) < capacity s1" using w(2) s1(4) by simp
  qed
  have old: "\<forall>y \<in> set (user_row x # olds). kept s1 y"
  proof
    fix y assume y: "y \<in> set (user_row x # olds)"
    obtain w m where wm: "y = (w, m)" by force
    show "kept s1 y"
    proof (cases "y = user_row x")
      case True
      then show ?thesis using s1(5) by (simp add: x user_row_def kept_def)
    next
      case False
      then have o: "(w, m) \<in> set olds" using y by (simp add: wm)
      then have "w \<in> fst ` set olds" by (metis fst_conv image_eqI)
      then have "kept s (w, m)" "w \<noteq> u" using o Cons.prems(5,6) by (auto simp: x)
      then show ?thesis
        unfolding wm using kept_after [OF wf(1) wf(2) [unfolded s1(1)] _ _ s1(6,7)] by blast
    qed
  qed
  have disj: "fst ` set (user_row x # olds) \<inter> fst ` set rs = {}"
    using Cons.prems(3,6) by (auto simp: x user_row_def)
  obtain s' where s': "put_users n fd rs s1 = Ok s'" "kv_wf s'" "memory_used s' \<le> capacity s"
    "\<forall>y \<in> set (user_row x # olds) \<union> user_row ` set rs. kept s' y"
    using Cons.IH [OF s1(3) unk _ _ old disj] Cons.prems(3,4) s1(1,4) by auto
  have "\<not> to_u64 (capacity s) < int (length v)" using wf(3) new(2) by (simp add: to_u64_def)
  then have "lru_put (Suc n) u f v fd True 0 s = Ok s1"
    using s1(2) by (simp only: lru_put_def put_entry_def if_False)
  then have "put_users n fd (x # rs) s = Ok s'" using s'(1) by (simp add: put_users_def x)
  then show ?case using s' by auto
qed

end
