(* ===== verification/KV_Examples.thy ===== *)
theory KV_Examples
  imports KV_Protocol KV_Workload
begin

text \<open>
  The theorems about a storage node, each applied to a concrete node: \<open>small_node\<close>, which is new
  and has ten bytes, and \<open>pair_node\<close>, which holds two users of two bytes each.
\<close>

section \<open>The nodes\<close>

lemma small_node_simps [simp]:
  "capacity small_node = 10" "memory_used small_node = 0" "tablets small_node = []"
  "user_size small_node = []" "virmem_meta small_node = []" "is_primary small_node"
  "sent small_node = []" "disk small_node = [(VM, Dir)]" "chunk_info small_node = [(VM, [0, 0])]"
  "seq_num_records small_node = []" "primary_holdback small_node = []" "secondary_fd small_node = 0"
  "heap small_node = heap (init_kv 10 100)" "next_addr small_node = 2"
  by (simp_all add: small_node_def init_kv_def)

lemma small_node_wf [simp]: "kv_wf small_node"
  using kv_wf_init [of 10 100] by (simp add: kv_wf_def nodes_ok_def init_kv_def)

lemma small_node_view [simp]: "view_of small_node = \<lparr>vfiles = (\<lambda>u. None), vused = 0, vquota = (\<lambda>u. 0)\<rparr>"
  by (simp add: view_of_def files_of_def oget_def_def fun_eq_iff)

abbreviation empty_view :: view where
  "empty_view \<equiv> \<lparr>vfiles = (\<lambda>u. None), vused = 0, vquota = (\<lambda>u. 0)\<rparr>"

lemma empty_balanced [simp]: "0 \<le> cap \<Longrightarrow> balanced cap empty_view"
  by (simp add: balanced_def files_in_def)

definition replica :: kv where
  "replica = small_node\<lparr>is_primary := False, secondary_fd := 4\<rparr>"

lemma can_create_log [simp]: "can_create [(VM, Dir)] log_path"
  by code_simp

lemma disk_room: "can_create [(VM, Dir)] (chunk_path VM 0)" "file_content [(VM, Dir)] (chunk_path VM 0) = None"
  by code_simp+

lemma small_node_serving: "serving k small_node" if "k < 100"
  using that by (simp add: serving_def next_seq_def oget_def_def)

definition pair_node :: kv where
  "pair_node = small_node\<lparr>memory_used := 4, next_addr := 4,
     heap := [head_addr \<mapsto> (new_node [])\<lparr>nnext := Some 2\<rparr>,
              2 \<mapsto> \<lparr>nprev = Some head_addr, nnext = Some 3, nkey = ''ann'', nvalue = [(''f'', ''aa'')]\<rparr>,
              3 \<mapsto> \<lparr>nprev = Some 2, nnext = Some tail_addr, nkey = ''bob'', nvalue = [(''g'', ''bb'')]\<rparr>,
              tail_addr \<mapsto> (new_node [])\<lparr>nprev := Some 3\<rparr>],
     tablets := [(''ann'', 2), (''bob'', 3)], user_size := [(''ann'', 2), (''bob'', 2)]\<rparr>"

lemma pair_node_wf: "kv_wf pair_node"
  by (auto simp: kv_wf_def nodes_ok_def pair_node_def links_but_def nx_def pv_def head_addr_def tail_addr_def
      new_node_def contents_def osorted_Cons split: if_splits)

lemma pair_node_dll: "dll (heap pair_node) [2, 3]"
  by (auto simp: dll_def pair_node_def nx_def pv_def head_addr_def tail_addr_def new_node_def)

lemma pair_node_simps [simp]:
  "capacity pair_node = 10" "memory_used pair_node = 4" "tablets pair_node = [(''ann'', 2), (''bob'', 3)]"
  "virmem_meta pair_node = []" "next_addr pair_node = 4" "user_size pair_node = [(''ann'', 2), (''bob'', 2)]"
  by (simp_all add: pair_node_def)

section \<open>The cache\<close>

theorem requests_refine_witness:
  "\<exists>s. run_requests 3 [(5, 1, Put ''ann'' ''f'' ''abc''), (5, 2, Get ''ann'' ''f''),
      (5, 3, Cput ''ann'' ''f'' ''abc'' ''xy''), (5, 4, Dele ''ann'' ''g''), (5, 5, Put ''ann'' ''h'' ''zz''),
      (5, 6, Rename ''ann'' ''f'' ''h'')] small_node = Ok s \<and>
    files_of s ''ann'' = Some [(''h'', ''xy'')] \<and> memory_used s = 4"
proof -
  let ?rs = "[(5, 1, Put ''ann'' ''f'' ''abc''), (5, 2, Get ''ann'' ''f''),
      (5, 3, Cput ''ann'' ''f'' ''abc'' ''xy''), (5, 4, Dele ''ann'' ''g''), (5, 5, Put ''ann'' ''h'' ''zz''),
      (5, 6, Rename ''ann'' ''f'' ''h'')]"
  have w: "all_within 10 True ?rs empty_view"
    and v: "vfiles (fst (spec_requests 10 True ?rs empty_view)) ''ann'' =
        Some [(''h'', ''xy'')]"
      "vused (fst (spec_requests 10 True ?rs empty_view)) = 4"
    by (simp_all add: spec_put_def spec_get_def spec_cput_def spec_dele_def spec_rename_def with_file_def files_in_def
        append_value_def oget_def_def Let_def split_beta)
  obtain s where s: "run_requests 3 ?rs small_node = Ok s" "view_of s =
      fst (spec_requests 10 True ?rs empty_view)"
    using requests_refine [of small_node ?rs 2] w
    by (auto simp: numeral_3_eq_3 simp del: all_within.simps spec_requests.simps run_requests.simps)
  have "files_of s ''ann'' = vfiles (view_of s) ''ann''" "memory_used s = vused (view_of s)"
    by (simp_all add: view_of_def)
  then show ?thesis using s(1) by (intro exI [of _ s]) (simp only: s(2) v simp_thms)
qed

theorem evict_then_get_witness:
  "\<exists>s1 s2. use_virtual_memory pair_node = Ok s1 \<and> files_of s1 ''ann'' = None \<and> memory_used s1 = 2 \<and>
    lru_get 2 ''ann'' ''f'' 5 s1 = Ok s2 \<and> files_of s2 = files_of pair_node \<and>
    sent s2 = sent pair_node @ [(5, msg_value), (5, ''aa'')]"
proof -
  have "least_recent pair_node ''ann'' [(''f'', ''aa'')]"
    unfolding least_recent_def using pair_node_dll by (auto simp: pair_node_def contents_def tail_addr_def)
  moreover have "chunk_room VM (length (row_of [(''f'', ''aa'')])) pair_node"
    unfolding chunk_room_def chunks_ok_def
    by (simp add: chunk_file_def pair_node_def small_node_def row_of_def init_kv_def oget_def_def meta_of_def
        disk_room)
  ultimately show ?thesis
    using evict_then_get [OF pair_node_wf, of "''ann''" "[(''f'', ''aa'')]" "''f''" "''aa''" 1 5]
    by (auto simp: comma_free_def numeral_2_eq_2)
qed

lemma pair_node_order: "in_order pair_node [(''ann'', [(''f'', ''aa'')]), (''bob'', [(''g'', ''bb'')])]"
  unfolding in_order_def using pair_node_dll
  by (intro exI [of _ "[2, 3]"]) (simp add: pair_node_def contents_def tail_addr_def)

lemma pair_node_chunk: "n \<le> 100 \<Longrightarrow> chunk_room VM n pair_node"
  unfolding chunk_room_def chunks_ok_def
  by (simp add: chunk_file_def pair_node_def small_node_def init_kv_def oget_def_def meta_of_def disk_room)

lemma pair_node_files: "files_of pair_node ''ann'' = Some [(''f'', ''aa'')]"
  "files_of pair_node ''bob'' = Some [(''g'', ''bb'')]" "files_of pair_node ''cat'' = None"
  "files_of pair_node ''dog'' = None"
  by (simp_all add: files_of_def pair_node_def contents_def tail_addr_def)

theorem put_ends_by_evicting_witness:
  "\<exists>s. lru_put 3 ''cat'' ''f'' ''cccccccc'' 5 True 1 pair_node = Ok s \<and> files_of s ''ann'' = None \<and>
     files_of s ''bob'' = Some [(''g'', ''bb'')] \<and> files_of s ''cat'' = Some [(''f'', ''cccccccc'')] \<and>
     stored_row VM ''ann'' s = Ok (row_of [(''f'', ''aa'')]) \<and> memory_used s = 10"
proof -
  let ?us = "[(''ann'', [(''f'', ''aa'')]), (''bob'', [(''g'', ''bb'')])]"
  have c: "chunk_room VM (rows ?us) pair_node" by (rule pair_node_chunk) (simp add: row_of_def)
  have e: "to_evict 10 8 ?us = [(''ann'', [(''f'', ''aa'')])]" by simp
  show ?thesis
    using put_ends_by_evicting [OF pair_node_wf pair_node_order c, of "''cccccccc''" "''cat''" 2 "''f''" 5 1]
    by (auto simp: e quota_room_def oget_def_def files_list_def append_value_def numeral_3_eq_3 pair_node_files)
qed

theorem new_users_are_kept_witness:
  "\<exists>s. put_users 4 5 [(''cat'', ''f'', ''cccccccc''), (''dog'', ''g'', ''ddddddddd'')] pair_node = Ok s \<and>
     memory_used s \<le> 10 \<and> kept s (''ann'', [(''f'', ''aa'')]) \<and> kept s (''bob'', [(''g'', ''bb'')]) \<and>
     kept s (''cat'', [(''f'', ''cccccccc'')]) \<and> kept s (''dog'', [(''g'', ''ddddddddd'')])"
proof -
  let ?us = "[(''ann'', [(''f'', ''aa'')]), (''bob'', [(''g'', ''bb'')])]"
  let ?rs = "[(''cat'', ''f'', ''cccccccc''), (''dog'', ''g'', ''ddddddddd'')]"
  have p: "pressure pair_node ?us (rows (map user_row ?rs))"
    unfolding pressure_def using pair_node_wf pair_node_order pair_node_chunk
    by (simp add: row_of_def user_row_def)
  have u: "\<forall>(u, f, v) \<in> set ?rs. unknown pair_node u \<and> int (length v) < capacity pair_node"
    by (simp add: unknown_def oget_def_def pair_node_files)
  have o: "\<forall>x \<in> set ?us. kept pair_node x" by (simp add: kept_def pair_node_files)
  show ?thesis
    using new_users_are_kept [OF p u _ _ o, of 4 5] by (auto simp: user_row_def)
qed

theorem get_order_witness:
  "\<exists>s. lru_get 1 ''ann'' ''f'' 5 pair_node = Ok s \<and> dll (heap s) [3, 2]"
  using get_order [OF pair_node_wf, of "''ann''" 2 "[]" "[3]" 1 "''f''" 5] pair_node_dll by simp

theorem new_user_order_witness:
  "\<exists>s. insert_user ''cat'' ''f'' ''cc'' pair_node = Ok s \<and> dll (heap s) [2, 3, 4]"
  using new_user_order [OF pair_node_wf _ pair_node_dll, of "''cat''" "''f''" "''cc''"] by auto

theorem put_cuts_list_witness:
  "\<exists>s. lru_put 1 ''ann'' ''f'' ''c'' 5 True 1 pair_node = Ok s \<and> eviction_order 9 (heap s) = [2]"
  using put_cuts_list [OF pair_node_wf, of "''ann''" "''c''" 2 "[]" "[3]" 9 0 "''f''" 5 1] pair_node_dll
  by (simp add: room_def mem_room_def quota_room_def oget_def_def)

section \<open>The protocol\<close>

definition two_writes :: "(int \<times> command) list" where
  "two_writes = [(5, Put ''ann'' ''f'' (''ab'' @ crlf)), (6, Get ''ann'' ''f''), (5, Put ''bob'' ''g'' (''c'' @ crlf))]"

definition two_lines :: string where
  "two_lines = ''put ann,f,ab'' @ crlf @ ''put bob,g,c'' @ crlf"

lemma two_writes_within:
  "commands_within 10 (map snd two_writes) empty_view"
  by (simp add: two_writes_def sane_def view_step_def spec_put_def spec_get_def with_file_def files_in_def
      append_value_def oget_def_def)

lemma two_writes_serving: "serving (length two_writes) small_node"
  by (rule small_node_serving) (simp add: two_writes_def)

lemma two_writes_lines: "concat (map wire (filter writes (map snd two_writes))) = two_lines"
  "c \<in> snd ` set two_writes \<Longrightarrow> writes c \<Longrightarrow> loggable c"
  by (auto simp: two_writes_def two_lines_def sane_def)

lemma small_node_log: "log_of small_node = []"
  by (simp add: log_of_def) code_simp

definition restarted :: kv where
  "restarted = small_node\<lparr>disk := [(VM, Dir), (log_path, File two_lines)]\<rparr>"

lemma restarted_ok: "serving 0 restarted" "view_of restarted = empty_view" "capacity restarted = 10"
  "file_content (disk restarted) log_path = Some two_lines"
proof -
  have "can_create [(VM, Dir), (log_path, File two_lines)] log_path" by code_simp
  moreover have "kv_wf restarted"
    using small_node_wf by (simp add: restarted_def kv_wf_def nodes_ok_def)
  moreover show v: "view_of restarted = empty_view"
    by (simp add: restarted_def view_of_def files_of_def oget_def_def fun_eq_iff)
  ultimately show "serving 0 restarted"
    unfolding serving_def v by (simp add: restarted_def next_seq_def oget_def_def)
  show "capacity restarted = 10" by (simp add: restarted_def)
  show "file_content (disk restarted) log_path = Some two_lines"
    by (simp add: restarted_def file_content_def log_path_def)
qed

theorem recovery_from_log_witness:
  "\<exists>t r. serve (Suc 0) two_writes small_node = Ok t \<and> log_of t = two_lines \<and>
    replay_log (Suc 0) restarted = Ok r \<and> view_of r = view_of t"
proof -
  have w: "commands_within (capacity small_node) (map snd two_writes) (view_of small_node)"
    using two_writes_within by simp
  obtain t where t: "serve (Suc 0) two_writes small_node = Ok t" "log_of t = two_lines"
    using serve_requests [OF two_writes_serving w, of 0]
    by (auto simp: small_node_log two_writes_lines)
  then show ?thesis
    using recovery_from_log [OF two_writes_serving w small_node_log two_writes_lines(2), of 0] restarted_ok
    by auto
qed

theorem replicas_agree_witness:
  "\<exists>p q out. serve (Suc 0) two_writes small_node = Ok p \<and> sent p = out \<and>
    foldr_res (ps_step (Suc 0) 4) (messages_to 0 out) replica = Ok q \<and> view_of q = view_of p"
proof -
  have r: "view_of replica = empty_view" "\<not> is_primary replica" "capacity replica = 10"
    by (simp_all add: replica_def view_of_def files_of_def oget_def_def fun_eq_iff)
  have "kv_wf replica" using small_node_wf by (simp add: replica_def kv_wf_def nodes_ok_def)
  then have "serving (length two_writes) replica"
    unfolding serving_def r by (simp add: replica_def next_seq_def oget_def_def two_writes_def)
  moreover have "fd \<noteq> secondary_fd small_node" if "fd \<in> fst ` set two_writes" for fd
    using that by (auto simp: two_writes_def)
  ultimately show ?thesis
    using replicas_agree [OF two_writes_serving _ _ r(2), of 0 4] r two_writes_within by auto
qed

theorem holdback_ack_witness:
  "\<exists>t t'. send_to_secondary ''put ann,f,a'' ''ann'' small_node = Ok t \<and>
    oget_def [] (primary_holdback t) ''ann'' = [\<lparr>sq = 1, msg = ''put ann,f,a''\<rparr>] \<and>
    handle_secondary_report (done_report ''ann'' 1) t = Ok t' \<and> primary_holdback t' = []"
  using holdback_ack [of "''ann''" "''put ann,f,a''" small_node]
  by (auto simp: next_seq_def oget_def_def in_i32_def)

theorem rename_not_replayed_witness:
  "replay_log 1 (small_node\<lparr>disk := [(log_path, File (''put ann,f,ab'' @ crlf @ ''rename ann,f,g'' @ crlf))]\<rparr>) =
   run_requests 1 [(- 1, 0, Put ''ann'' ''f'' (''ab'' @ crlf))]
     (small_node\<lparr>disk := [(log_path, File (''put ann,f,ab'' @ crlf @ ''rename ann,f,g'' @ crlf))]\<rparr>)"
  using rename_not_replayed [of "[Put ''ann'' ''f'' (''ab'' @ crlf)]" "[]" "''ann''" "''f''" "''g''"
      "small_node\<lparr>disk := [(log_path, File (''put ann,f,ab'' @ crlf @ ''rename ann,f,g'' @ crlf))]\<rparr>" 1]
  by (simp add: log_line_def sane_def file_content_def)

theorem short_message_fails_witness: "worker_step 1 5 ''S'' (False, small_node) = Fail Undefined"
  by (rule short_message_fails) simp

end
