(* ===== verification/Steps.thy ===== *)
theory Steps
  imports Main
begin

text \<open>
  Runs of a step relation: what every step keeps holds after any number of them, and where every
  unfinished state has a step that lowers a measure, a finished state can be reached.
\<close>

locale invariant_steps =
  fixes step :: "'s \<Rightarrow> 's \<Rightarrow> bool" and ok :: "'s \<Rightarrow> bool"
  assumes step_ok: "ok x \<Longrightarrow> step x y \<Longrightarrow> ok y"
begin

lemma steps_ok:
  assumes "step\<^sup>*\<^sup>* x y" and "ok x"
  shows "ok y"
  using assms by (induction rule: rtranclp_induct) (auto intro: step_ok)

end

locale progressing_steps = invariant_steps +
  fixes finished :: "'s \<Rightarrow> bool" and size_of :: "'s \<Rightarrow> nat"
  assumes progress: "ok x \<Longrightarrow> \<not> finished x \<Longrightarrow> \<exists>y. step x y \<and> size_of y < size_of x"
begin

lemma reaches_finished: "ok x \<Longrightarrow> \<exists>y. step\<^sup>*\<^sup>* x y \<and> ok y \<and> finished y"
proof (induction "size_of x" arbitrary: x rule: less_induct)
  case less
  show ?case
  proof (cases "finished x")
    case True
    then show ?thesis using less.prems by blast
  next
    case False
    then obtain y where y: "step x y" "size_of y < size_of x" using progress less.prems by blast
    then have "ok y" using less.prems step_ok by blast
    then obtain z where "step\<^sup>*\<^sup>* y z" "ok z" "finished z" using less.hyps [OF y(2)] by blast
    then show ?thesis using y(1) by (meson converse_rtranclp_into_rtranclp)
  qed
qed

end

end
