(* ===== verification/KV_Cluster.thy ===== *)
theory KV_Cluster
  imports KV_Protocol Steps
begin

text \<open>
  A storage node as the pair of its two machines. The primary answers its clients at once and the
  lines for the secondary travel on a connection, the reports of the secondary on the same
  connection in the other direction; the two machines run at their own pace. A step of the pair is
  one request at the primary (\<open>worker_step\<close>), one line at the secondary (\<open>ps_step\<close>) or one report
  at the primary.

  \<^item> Each \<open>recv\<close> returns one message, in the order of sending. The code relies on it: it has no
    buffer for two messages in one \<open>recv\<close>.
  \<^item> The requests of the step relation are \<open>admissible\<close>: they are lines a client can send, the data
    fits into the memory, and the command does not fail. What a failing command does to the pair is
    the last section.
\<close>

section \<open>The pair and its steps\<close>

record cluster =
  primary_kv :: kv
  secondary_kv :: kv
  to_secondary :: "string list"
  to_primary :: "string list"

definition new_messages :: "int \<Rightarrow> kv \<Rightarrow> kv \<Rightarrow> string list" where
  "new_messages fd s t = messages_to fd (drop (length (sent s)) (sent t))"

definition accepted :: "int \<Rightarrow> command \<Rightarrow> view \<Rightarrow> bool" where
  "accepted cap c V \<longleftrightarrow> snd (spec_command cap False 1 (executed c) V) = [done_report (user_of c) 1]"

definition numbers_left :: "kv \<Rightarrow> bool" where
  "numbers_left s \<longleftrightarrow> (\<forall>(u, k) \<in> set (seq_num_records s). 0 \<le> k \<and> k < 2 ^ 31 - 2)"

definition admissible :: "kv \<Rightarrow> command \<Rightarrow> bool" where
  "admissible p c \<longleftrightarrow>
     sane c \<and> within (capacity p) (executed c) (view_of p) \<and>
     (writes c \<longrightarrow> accepted (capacity p) c (view_of p)) \<and> numbers_left p"

inductive cluster_step :: "nat \<Rightarrow> int \<Rightarrow> cluster \<Rightarrow> cluster \<Rightarrow> bool" for n fd where
  request: "admissible (primary_kv x) c \<Longrightarrow> d \<noteq> secondary_fd (primary_kv x) \<Longrightarrow>
    worker_step n d (wire c) (False, primary_kv x) = Ok (q, p) \<Longrightarrow>
    cluster_step n fd x (x\<lparr>primary_kv := p,
      to_secondary := to_secondary x @ new_messages (secondary_fd p) (primary_kv x) p\<rparr>)"
| forward: "to_secondary x = m # ms \<Longrightarrow> ps_step n fd m (secondary_kv x) = Ok s \<Longrightarrow>
    cluster_step n fd x (x\<lparr>secondary_kv := s, to_secondary := ms,
      to_primary := to_primary x @ new_messages fd (secondary_kv x) s\<rparr>)"
| report: "to_primary x = m # ms \<Longrightarrow>
    worker_step n (secondary_fd (primary_kv x)) m (False, primary_kv x) = Ok (q, p) \<Longrightarrow>
    cluster_step n fd x (x\<lparr>primary_kv := p, to_primary := ms\<rparr>)"

inductive_cases cluster_stepE [consumes 1, case_names request forward report]: "cluster_step n fd x y"

section \<open>The invariant\<close>

text \<open>A numbered command, its line on the connection, its report, its entry in the queue.\<close>

type_synonym numbered = "command \<times> int"

fun line_of :: "numbered \<Rightarrow> string" where
  "line_of (c, k) = to_string k @ CHR '','' # wire c"

fun report_of :: "numbered \<Rightarrow> string" where
  "report_of (c, k) = done_report (user_of c) k"

fun entry_of :: "numbered \<Rightarrow> msg_pair" where
  "entry_of (c, k) = \<lparr>sq = k, msg = wire c\<rparr>"

definition of_user :: "string \<Rightarrow> numbered list \<Rightarrow> numbered list" where
  "of_user u = filter (\<lambda>x. user_of (fst x) = u)"

fun pending_ok :: "int \<Rightarrow> numbered list \<Rightarrow> view \<Rightarrow> bool" where
  "pending_ok cap [] V \<longleftrightarrow> True"
| "pending_ok cap ((c, k) # xs) V \<longleftrightarrow>
     sane c \<and> writes c \<and> within cap (executed c) V \<and> accepted cap c V \<and> in_i32 k \<and> k \<noteq> 0 \<and>
     pending_ok cap xs (view_step cap c V)"

text \<open>The queue of the primary holds what is not reported yet, in the order of the numbers.\<close>

definition queue_ok :: "kv \<Rightarrow> numbered list \<Rightarrow> bool" where
  "queue_ok p xs \<longleftrightarrow>
     osorted (primary_holdback p) \<and> (\<forall>u. oget (primary_holdback p) u \<noteq> Some []) \<and>
     (\<forall>u. oget_def [] (primary_holdback p) u = map entry_of (of_user u xs)) \<and>
     (\<forall>(c, k) \<in> set xs. sane c \<and> writes c \<and> in_i32 k \<and> k < next_seq p (user_of c)) \<and>
     distinct (map (\<lambda>(c, k). (user_of c, k)) xs)"

definition pair_ok :: "int \<Rightarrow> kv \<Rightarrow> kv \<Rightarrow> bool" where
  "pair_ok fd p q \<longleftrightarrow>
     serving 0 p \<and> is_primary p \<and> (\<forall>u. 1 \<le> next_seq p u) \<and>
     serving 1 q \<and> \<not> is_primary q \<and> capacity q = capacity p"

definition cluster_ok :: "int \<Rightarrow> numbered list \<Rightarrow> numbered list \<Rightarrow> cluster \<Rightarrow> bool" where
  "cluster_ok fd done pend x \<longleftrightarrow>
     (let p = primary_kv x; q = secondary_kv x in
      pair_ok fd p q \<and> to_secondary x = map line_of pend \<and> to_primary x = map report_of done \<and>
      pending_ok (capacity p) pend (view_of q) \<and>
      view_of p = fold (view_step (capacity p)) (map fst pend) (view_of q) \<and>
      queue_ok p (done @ pend))"

section \<open>Commands that do not fail\<close>

lemma not_a_report [simp]:
  "msg_file_exceeds \<noteq> done_report u k" "msg_exceeds_node \<noteq> done_report u k"
  "msg_version \<noteq> done_report u k" "msg_no_user \<noteq> done_report u k" "msg_no_file \<noteq> done_report u k"
  by (simp_all add: msg_file_exceeds_def msg_exceeds_node_def msg_version_def msg_no_user_def
      msg_no_file_def done_report_def)

lemma accepted_report:
  assumes "writes c" and "accepted cap c V" and "k \<noteq> 0"
  shows "snd (spec_command cap False k (executed c) V) = [done_report (user_of c) k]"
  using assms unfolding accepted_def
  by (cases c)
    (auto simp: spec_put_def spec_cput_def spec_dele_def spec_rename_def with_file_def Let_def
      split: option.splits if_splits)

section \<open>The steps keep the invariant\<close>

lemma sane_user: "sane c \<Longrightarrow> NUL \<notin> set (user_of c) \<and> CHR '','' \<notin> set (user_of c)" if "writes c"
  using that by (cases c) (auto simp: sane_def)

lemma parse_command_report: "NUL \<notin> set u \<Longrightarrow> parse_command (done_report u k) = Ok ''done''"
proof -
  assume "NUL \<notin> set u"
  then have "c_str (done_report u k) = ''DONE'' @ CHR '' '' # (u @ '','' @ to_string k @ crlf)"
    by (simp add: done_report_def c_str_id)
  moreover have "map lower ''DONE'' = ''done''" by code_simp
  moreover have "cut (CHR '' '') (''DONE'' @ CHR '' '' # r) = Some (''DONE'', r)" for r
    by (rule cut_append) simp
  ultimately show ?thesis by (simp add: parse_command_def Let_def)
qed

lemma worker_report:
  assumes "NUL \<notin> set u"
  shows "worker_step n (secondary_fd p) (done_report u k) (q, p) =
    rbind (handle_secondary_report (done_report u k) p) (\<lambda>p. Ok (q, p))"
proof -
  have "c_str (done_report u k) \<noteq> ''S'' @ crlf" "c_str (done_report u k) \<noteq> ''shutdown'' @ crlf"
    using assms by (simp_all add: done_report_def c_str_id)
  then show ?thesis using parse_command_report [OF assms] by (simp add: worker_step_def Let_def)
qed

lemma of_user_simps [simp]:
  "of_user u [] = []" "of_user u (x # xs) = (if user_of (fst x) = u then x # of_user u xs else of_user u xs)"
  "of_user u (xs @ ys) = of_user u xs @ of_user u ys"
  by (simp_all add: of_user_def)

lemma filter_entries:
  "(u, k) \<notin> set (map (\<lambda>(c, k). (user_of c, k)) xs) \<Longrightarrow>
   filter (\<lambda>m. sq m \<noteq> k) (map entry_of (of_user u xs)) = map entry_of (of_user u xs)"
  by (induction xs) auto

lemma report_handled:
  assumes q: "queue_ok p ((c, k) # xs)"
  shows "\<exists>hb. worker_step n (secondary_fd p) (report_of (c, k)) (False, p) = Ok (False, p\<lparr>primary_holdback := hb\<rparr>) \<and>
    queue_ok (p\<lparr>primary_holdback := hb\<rparr>) xs"
proof -
  let ?u = "user_of c" and ?h = "primary_holdback p"
  let ?left = "map entry_of (of_user (user_of c) xs)"
  let ?hb = "if ?left = [] then odel ?u ?h else oupd ?u ?left ?h"
  have c: "sane c" "writes c" "in_i32 k" and d: "(?u, k) \<notin> set (map (\<lambda>(c, k). (user_of c, k)) xs)"
    and h: "osorted ?h" "\<And>u. oget ?h u \<noteq> Some []"
    "\<And>u. oget_def [] ?h u = map entry_of (of_user u ((c, k) # xs))"
    using q unfolding queue_ok_def by auto
  have u: "NUL \<notin> set ?u" "CHR '','' \<notin> set ?u" using sane_user c by auto
  have "filter (\<lambda>m. sq m \<noteq> k) (oget_def [] ?h ?u) = ?left"
    using filter_entries [OF d] by (simp add: h(3))
  then have "handle_secondary_report (done_report ?u k) p = Ok (p\<lparr>primary_holdback := ?hb\<rparr>)"
    using report_parts [OF u(2,1) c(3), of p] by (simp add: Let_def)
  then have "worker_step n (secondary_fd p) (report_of (c, k)) (False, p) = Ok (False, p\<lparr>primary_holdback := ?hb\<rparr>)"
    using worker_report [OF u(1)] by simp
  moreover have "queue_ok (p\<lparr>primary_holdback := ?hb\<rparr>) xs"
  proof -
    have "oget_def [] ?hb u = map entry_of (of_user u xs)" for u
      using h(3) [of u] by (auto simp: oget_def_def split: if_splits)
    moreover have "oget ?hb u \<noteq> Some []" for u using h(2) [of u] by auto
    ultimately show ?thesis using q h(1) by (auto simp: queue_ok_def next_seq_def)
  qed
  ultimately show ?thesis by blast
qed

lemma new_messages_append: "sent t = sent s @ out \<Longrightarrow> new_messages fd s t = messages_to fd out"
  by (simp add: new_messages_def)

lemma serving_next: "serving j t \<Longrightarrow> serving k s \<Longrightarrow> next_seq t = next_seq s \<Longrightarrow> serving k t"
  by (simp add: serving_def)

lemma pending_ok_append:
  "pending_ok cap (xs @ ys) V \<longleftrightarrow>
   pending_ok cap xs V \<and> pending_ok cap ys (fold (view_step cap) (map fst xs) V)"
  by (induction cap xs V rule: pending_ok.induct) auto

lemma forward_ok:
  assumes x: "cluster_ok fd done ((c, k) # pend) x"
  shows "\<exists>s. ps_step (Suc n) fd (line_of (c, k)) (secondary_kv x) = Ok s \<and>
    cluster_ok fd (done @ [(c, k)]) pend (x\<lparr>secondary_kv := s, to_secondary := map line_of pend,
      to_primary := to_primary x @ new_messages fd (secondary_kv x) s\<rparr>)"
proof -
  let ?p = "primary_kv x" and ?q = "secondary_kv x"
  have p: "pair_ok fd ?p ?q" "to_primary x = map report_of done"
    "pending_ok (capacity ?p) ((c, k) # pend) (view_of ?q)"
    "view_of ?p = fold (view_step (capacity ?p)) (c # map fst pend) (view_of ?q)"
    "queue_ok ?p (done @ (c, k) # pend)"
    using x by (simp_all add: cluster_ok_def Let_def)
  have q: "serving (Suc 0) ?q" "\<not> is_primary ?q" "capacity ?q = capacity ?p"
    using p(1) by (simp_all add: pair_ok_def)
  have c: "sane c" "writes c" "within (capacity ?q) (executed c) (view_of ?q)"
    "accepted (capacity ?q) c (view_of ?q)" "in_i32 k" "k \<noteq> 0"
    "pending_ok (capacity ?p) pend (view_step (capacity ?p) c (view_of ?q))"
    using p(3) q(3) by simp_all
  obtain s where s: "ps_step (Suc n) fd (line_of (c, k)) ?q = Ok s" "serving 0 s"
    "view_of s = view_step (capacity ?q) c (view_of ?q)" "capacity s = capacity ?q" "\<not> is_primary s"
    "next_seq s = next_seq ?q" "sent s = sent ?q @ map (Pair fd) (replies ?q fd k c)"
    using serve_command [OF q(1) c(1,3), of n fd k] q(2) ps_step_wire [OF c(1,2,5), of "Suc n" fd ?q]
    by (auto simp: view_step_eq)
  have "serving 1 s" using serving_next [OF s(2) _ s(6), of 1] q(1) by simp
  moreover have "new_messages fd ?q s = [report_of (c, k)]"
    using new_messages_append [OF s(7)] accepted_report [OF c(2,4,6)] q(2) by (simp add: replies_def)
  ultimately have "cluster_ok fd (done @ [(c, k)]) pend (x\<lparr>secondary_kv := s, to_secondary := map line_of pend,
      to_primary := to_primary x @ new_messages fd ?q s\<rparr>)"
    using p c(7) q s by (simp add: cluster_ok_def Let_def pair_ok_def)
  then show ?thesis using s(1) by blast
qed

lemma numbers_left_serving:
  assumes "serving 0 p" and "numbers_left p" shows "serving (Suc 0) p"
proof -
  have "next_seq p u + 1 < 2 ^ 31" for u
  proof (cases "oget (seq_num_records p) u")
    case None
    then show ?thesis by (simp add: next_seq_def oget_def_def)
  next
    case (Some k)
    then have "(u, k) \<in> set (seq_num_records p)" by (rule oget_in_set)
    then show ?thesis using assms(2) Some by (auto simp: numbers_left_def next_seq_def oget_def_def)
  qed
  then show ?thesis using assms(1) by (simp add: serving_def)
qed

lemma queue_ok_add:
  assumes q: "queue_ok p xs" and c: "sane c" "writes c" "is_primary p" and k: "in_i32 (next_seq p (user_of c))"
    and hb: "primary_holdback t = held_line c p"
    and num: "next_seq t = (next_seq p)(user_of c := next_seq p (user_of c) + 1)"
  shows "queue_ok t (xs @ [(c, next_seq p (user_of c))])"
proof -
  let ?u = "user_of c" and ?h = "primary_holdback p"
  have h: "osorted ?h" "\<And>u. oget ?h u \<noteq> Some []" "\<And>u. oget_def [] ?h u = map entry_of (of_user u xs)"
    "\<And>d j. (d, j) \<in> set xs \<Longrightarrow> sane d \<and> writes d \<and> in_i32 j \<and> j < next_seq p (user_of d)"
    "distinct (map (\<lambda>(c, k). (user_of c, k)) xs)"
    using q unfolding queue_ok_def by auto
  have t: "primary_holdback t = oupd ?u (oget_def [] ?h ?u @ [\<lparr>sq = next_seq p ?u, msg = wire c\<rparr>]) ?h"
    using hb c by (simp add: held_line_def)
  have "oget_def [] (primary_holdback t) u = map entry_of (of_user u (xs @ [(c, next_seq p ?u)]))" for u
    using h(3) by (auto simp: t)
  moreover have "sane d \<and> writes d \<and> in_i32 j \<and> j < next_seq t (user_of d)"
    if "(d, j) \<in> set (xs @ [(c, next_seq p ?u)])" for d j
    using that h(4) [of d j] c k by (auto simp: num)
  moreover have "(?u, next_seq p ?u) \<notin> set (map (\<lambda>(c, k). (user_of c, k)) xs)"
    using h(4) by force
  ultimately show ?thesis using h c unfolding queue_ok_def by (auto simp: t)
qed

lemma cluster_okI:
  "pair_ok fd (primary_kv x) (secondary_kv x) \<Longrightarrow> to_secondary x = map line_of pend \<Longrightarrow>
   to_primary x = map report_of done \<Longrightarrow> pending_ok (capacity (primary_kv x)) pend (view_of (secondary_kv x)) \<Longrightarrow>
   view_of (primary_kv x) = fold (view_step (capacity (primary_kv x))) (map fst pend) (view_of (secondary_kv x)) \<Longrightarrow>
   queue_ok (primary_kv x) (done @ pend) \<Longrightarrow> cluster_ok fd done pend x"
  by (simp add: cluster_ok_def Let_def)

lemma request_ok:
  assumes x: "cluster_ok fd done pend x" and a: "admissible (primary_kv x) c"
    and d: "d \<noteq> secondary_fd (primary_kv x)"
  shows "\<exists>q p. worker_step (Suc n) d (wire c) (False, primary_kv x) = Ok (q, p) \<and>
    cluster_ok fd done (pend @ (if writes c then [(c, next_seq (primary_kv x) (user_of c))] else [])) (x\<lparr>primary_kv := p,
      to_secondary := to_secondary x @ new_messages (secondary_fd p) (primary_kv x) p\<rparr>) \<and>
    secondary_fd p = secondary_fd (primary_kv x) \<and>
    view_of p = view_step (capacity p) c (view_of (primary_kv x))"
proof -
  let ?p = "primary_kv x" and ?q = "secondary_kv x" and ?k = "next_seq (primary_kv x) (user_of c)"
  let ?new = "if writes c then [(c, ?k)] else []"
  have p: "pair_ok fd ?p ?q" "to_primary x = map report_of done" "to_secondary x = map line_of pend"
    "pending_ok (capacity ?p) pend (view_of ?q)"
    "view_of ?p = fold (view_step (capacity ?p)) (map fst pend) (view_of ?q)" "queue_ok ?p (done @ pend)"
    using x by (simp_all add: cluster_ok_def Let_def)
  have prim: "serving 0 ?p" "is_primary ?p" "\<And>u. 1 \<le> next_seq ?p u" using p(1) by (simp_all add: pair_ok_def)
  have c: "sane c" "within (capacity ?p) (executed c) (view_of ?p)"
    "writes c \<Longrightarrow> accepted (capacity ?p) c (view_of ?p)"
    using a by (simp_all add: admissible_def)
  have srv: "serving (Suc 0) ?p" using numbers_left_serving prim(1) a by (simp add: admissible_def)
  obtain q s where s: "worker_step (Suc n) d (wire c) (False, ?p) = Ok (q, s)" "serving 0 s"
    "view_of s = view_step (capacity ?p) c (view_of ?p)" "capacity s = capacity ?p" "is_primary s"
    "secondary_fd s = secondary_fd ?p"
    "next_seq s = (next_seq ?p)(user_of c := ?k + (if writes c then 1 else 0))"
    "primary_holdback s = held_line c ?p"
    "sent s = sent ?p @ (map (Pair d) (replies ?p d 0 c) @
      (if writes c then [(secondary_fd ?p, to_string ?k @ '','' @ wire c)] else []) @ [(d, msg_done)])"
    using serve_one [OF srv c(1,2), of n d] prim(2) by auto
  have "new_messages (secondary_fd s) ?p s = map line_of ?new"
    using new_messages_append [OF s(9)] d s(6) by simp
  moreover have "queue_ok s (done @ pend @ ?new)"
  proof (cases "writes c")
    case True
    then show ?thesis
      using queue_ok_add [OF p(6) c(1) True prim(2) serving_num [OF prim(1)] s(8)] s(7) by simp
  next
    case False
    then show ?thesis
      using p(6) s(7,8) unfolding queue_ok_def held_line_def by (simp add: fun_upd_idem)
  qed
  moreover have "pending_ok (capacity ?p) (pend @ ?new) (view_of ?q)"
    using p(4) c p(5) prim(3) [of "user_of c"] serving_num [OF prim(1), of "user_of c"]
    by (auto simp: pending_ok_append)
  moreover have "view_of s = fold (view_step (capacity ?p)) (map fst (pend @ ?new)) (view_of ?q)"
    using s(3) p(5) by (simp add: view_step_get)
  moreover have "pair_ok fd s ?q"
    using p(1) s(2,4,5) prim(3) order_trans [OF zero_le_one prim(3)] by (simp add: pair_ok_def s(7))
  ultimately have "cluster_ok fd done (pend @ ?new) (x\<lparr>primary_kv := s,
      to_secondary := to_secondary x @ new_messages (secondary_fd s) ?p s\<rparr>)"
    using p(2,3) s(4) by (intro cluster_okI) simp_all
  then show ?thesis
    using s(1,3,4,6) by (intro exI [of _ q] exI [of _ s] conjI) simp_all
qed

lemma holdback_frame [simp]:
  "view_of (p\<lparr>primary_holdback := hb\<rparr>) = view_of p"
  "next_seq (p\<lparr>primary_holdback := hb\<rparr>) = next_seq p"
  "serving k (p\<lparr>primary_holdback := hb\<rparr>) \<longleftrightarrow> serving k p"
proof -
  show v: "view_of (p\<lparr>primary_holdback := hb\<rparr>) = view_of p"
    by (rule view_of_frame, rule files_of_frame) simp_all
  show s: "next_seq (p\<lparr>primary_holdback := hb\<rparr>) = next_seq p" by (simp add: next_seq_def fun_eq_iff)
  show "serving k (p\<lparr>primary_holdback := hb\<rparr>) \<longleftrightarrow> serving k p"
    by (simp add: serving_def kv_wf_def nodes_ok_def v s)
qed

lemma report_ok:
  assumes x: "cluster_ok fd ((c, k) # done) pend x"
  shows "\<exists>p. worker_step n (secondary_fd (primary_kv x)) (report_of (c, k)) (False, primary_kv x) = Ok (False, p) \<and>
    cluster_ok fd done pend (x\<lparr>primary_kv := p, to_primary := map report_of done\<rparr>) \<and>
    secondary_fd p = secondary_fd (primary_kv x) \<and> view_of p = view_of (primary_kv x)"
proof -
  let ?p = "primary_kv x"
  have p: "pair_ok fd ?p (secondary_kv x)" "queue_ok ?p ((c, k) # done @ pend)"
    using x by (simp_all add: cluster_ok_def Let_def)
  obtain hb where hb: "worker_step n (secondary_fd ?p) (report_of (c, k)) (False, ?p) = Ok (False, ?p\<lparr>primary_holdback := hb\<rparr>)"
    "queue_ok (?p\<lparr>primary_holdback := hb\<rparr>) (done @ pend)"
    using report_handled [OF p(2)] by blast
  have "pair_ok fd (?p\<lparr>primary_holdback := hb\<rparr>) (secondary_kv x)"
    using p(1) by (simp add: pair_ok_def)
  then show ?thesis using hb x by (auto simp: cluster_ok_def Let_def)
qed

section \<open>Runs of the pair\<close>

definition cluster_inv :: "int \<Rightarrow> cluster \<Rightarrow> bool" where
  "cluster_inv fd x \<longleftrightarrow> (\<exists>done pend. cluster_ok fd done pend x)"

lemma cluster_invI: "cluster_ok fd done pend x \<Longrightarrow> cluster_inv fd x"
  unfolding cluster_inv_def by blast

lemma line_of_inj: "map line_of pend = m # ms \<Longrightarrow> \<exists>c k r. pend = (c, k) # r \<and> m = line_of (c, k) \<and> ms = map line_of r"
  by (cases pend) auto

lemma report_of_inj: "map report_of done = m # ms \<Longrightarrow> \<exists>c k r. done = (c, k) # r \<and> m = report_of (c, k) \<and> ms = map report_of r"
  by (cases "done") auto

lemma cluster_inv_step:
  assumes "cluster_inv fd x" and "cluster_step (Suc n) fd x y"
  shows "cluster_inv fd y"
proof -
  obtain "done" pend where x: "cluster_ok fd done pend x" using assms(1) by (auto simp: cluster_inv_def)
  then have ch: "to_secondary x = map line_of pend" "to_primary x = map report_of done"
    by (simp_all add: cluster_ok_def Let_def)
  from assms(2) show ?thesis
  proof (cases rule: cluster_stepE)
    case (request c d q p)
    then show ?thesis using request_ok [OF x request(2,3), of n] request(1,4) by (auto intro: cluster_invI)
  next
    case (forward m ms s)
    obtain c k r where r: "pend = (c, k) # r" "m = line_of (c, k)" "ms = map line_of r"
      using line_of_inj forward(2) ch(1) by metis
    show ?thesis using forward_ok [OF x [unfolded r(1)], of n] forward r unfolding cluster_inv_def by auto
  next
    case (report m ms q p)
    obtain c k r where r: "done = (c, k) # r" "m = report_of (c, k)" "ms = map report_of r"
      using report_of_inj report(2) ch(2) by metis
    show ?thesis using report_ok [OF x [unfolded r(1)], of "Suc n"] report r unfolding cluster_inv_def by auto
  qed
qed

text \<open>The messages that are on their way.\<close>

definition quiescent :: "cluster \<Rightarrow> bool" where
  "quiescent x \<longleftrightarrow> to_secondary x = [] \<and> to_primary x = []"

definition in_flight :: "cluster \<Rightarrow> nat" where
  "in_flight x = 2 * length (to_secondary x) + length (to_primary x)"

lemma cluster_progress:
  assumes "cluster_inv fd x" and "\<not> quiescent x"
  shows "\<exists>y. cluster_step (Suc n) fd x y \<and> in_flight y < in_flight x"
proof -
  obtain "done" pend where x: "cluster_ok fd done pend x" using assms(1) by (auto simp: cluster_inv_def)
  then have ch: "to_secondary x = map line_of pend" "to_primary x = map report_of done"
    by (simp_all add: cluster_ok_def Let_def)
  show ?thesis
  proof (cases "done")
    case (Cons a r)
    obtain c k where a: "a = (c, k)" by force
    obtain p where p: "worker_step (Suc n) (secondary_fd (primary_kv x)) (report_of (c, k)) (False, primary_kv x) = Ok (False, p)"
      using report_ok x Cons a by blast
    have "to_primary x = report_of (c, k) # map report_of r" using ch Cons a by simp
    then have "cluster_step (Suc n) fd x (x\<lparr>primary_kv := p, to_primary := map report_of r\<rparr>)"
      using p by (rule cluster_step.report)
    moreover have "in_flight (x\<lparr>primary_kv := p, to_primary := map report_of r\<rparr>) < in_flight x"
      using ch Cons by (simp add: in_flight_def)
    ultimately show ?thesis by blast
  next
    case Nil
    then obtain c k r where r: "pend = (c, k) # r"
      using assms(2) ch by (cases pend) (auto simp: quiescent_def)
    obtain s where s: "ps_step (Suc n) fd (line_of (c, k)) (secondary_kv x) = Ok s"
      "cluster_ok fd (done @ [(c, k)]) r (x\<lparr>secondary_kv := s, to_secondary := map line_of r,
        to_primary := to_primary x @ new_messages fd (secondary_kv x) s\<rparr>)"
      using forward_ok x r by blast
    let ?y = "x\<lparr>secondary_kv := s, to_secondary := map line_of r,
        to_primary := to_primary x @ new_messages fd (secondary_kv x) s\<rparr>"
    have "to_secondary x = line_of (c, k) # map line_of r" using ch r by simp
    then have "cluster_step (Suc n) fd x ?y" using s(1) by (rule cluster_step.forward)
    moreover have "to_primary ?y = [report_of (c, k)]" using s(2) Nil by (simp add: cluster_ok_def Let_def)
    then have "in_flight ?y < in_flight x" using ch r by (simp add: in_flight_def)
    ultimately show ?thesis by blast
  qed
qed

interpretation pair: progressing_steps "cluster_step (Suc n) fd" "cluster_inv fd" quiescent in_flight
  by unfold_locales (blast intro: cluster_inv_step, rule cluster_progress)

definition cluster_start :: "int \<Rightarrow> cluster \<Rightarrow> bool" where
  "cluster_start fd x \<longleftrightarrow>
     pair_ok fd (primary_kv x) (secondary_kv x) \<and> quiescent x \<and> primary_holdback (primary_kv x) = [] \<and>
     view_of (secondary_kv x) = view_of (primary_kv x)"

lemma cluster_start_inv: "cluster_start fd x \<Longrightarrow> cluster_inv fd x"
  unfolding cluster_inv_def
  by (intro exI [of _ "[]"]) (simp add: cluster_start_def quiescent_def cluster_ok_def Let_def queue_ok_def oget_def_def)

lemma quiescent_pair:
  assumes "cluster_inv fd x" and "quiescent x"
  shows "view_of (secondary_kv x) = view_of (primary_kv x) \<and> primary_holdback (primary_kv x) = []"
proof -
  obtain "done" pend where x: "cluster_ok fd done pend x" using assms(1) by (auto simp: cluster_inv_def)
  then have "done = []" "pend = []" using assms(2) by (auto simp: cluster_ok_def quiescent_def Let_def)
  moreover from this x have q: "queue_ok (primary_kv x) []" by (simp add: cluster_ok_def Let_def)
  have "oget (primary_holdback (primary_kv x)) u = None" for u
  proof -
    have "oget (primary_holdback (primary_kv x)) u \<noteq> Some []" "oget_def [] (primary_holdback (primary_kv x)) u = []"
      using q by (simp_all add: queue_ok_def)
    then show ?thesis by (cases "oget (primary_holdback (primary_kv x)) u") (simp_all add: oget_def_def)
  qed
  then have "primary_holdback (primary_kv x) = []"
    using q by (intro osorted_ext) (auto simp: queue_ok_def)
  ultimately show ?thesis using x by (simp add: cluster_ok_def Let_def)
qed


lemma accept_view [simp]: "view_of (snd (accept_connection (k, s))) = view_of s"
  by (simp add: accept_connection_def loop_top_def, intro impI view_of_frame files_of_frame) simp_all


text \<open>C6: However the requests at the primary, the lines at the secondary and the reports back are
  interleaved, whenever both directions of the connection between the two machines are empty the
  secondary has the data and the accounting of the primary and the holdback queue of the primary is
  empty (for requests that do not fail and whose data fits into memory).\<close>

theorem quiescent_agree:
  assumes "(cluster_step (Suc n) fd)\<^sup>*\<^sup>* x y" and "cluster_start fd x" and "quiescent y"
  shows "view_of (secondary_kv y) = view_of (primary_kv y) \<and> primary_holdback (primary_kv y) = []"
proof -
  have "cluster_inv fd y" using assms by (blast intro: pair.steps_ok cluster_start_inv)
  then show ?thesis using quiescent_pair assms(3) by blast
qed

text \<open>C16: From every state that the pair of machines reaches, from a start with the same data in the
  memory of both and nothing in flight, by requests that do not fail and whose data fits into
  memory, a state is reachable in which both directions of the connection are empty: no line for the
  secondary and no report to the primary is ever stuck. (A request that fails breaks this:
  failing_dele_stops_secondary.)\<close>

theorem pair_drains:
  assumes "(cluster_step (Suc n) fd)\<^sup>*\<^sup>* x y" and "cluster_start fd x"
  shows "\<exists>z. (cluster_step (Suc n) fd)\<^sup>*\<^sup>* y z \<and> quiescent z"
proof -
  have "cluster_inv fd y" using assms by (blast intro: pair.steps_ok cluster_start_inv)
  from pair.reaches_finished [OF this] show ?thesis by blast
qed

text \<open>C15: In every state that the pair of machines reaches, from a start with the same data in the
  memory of both and nothing in flight, by requests that do not fail and whose data fits into
  memory, the holdback queue of each user holds, in order, exactly the numbered lines of this user
  that are still on the connection to the secondary or whose report is still on the way back. (A
  request that fails breaks this: failing_dele_stops_secondary.)\<close>

theorem holdback_exact:
  assumes "(cluster_step (Suc n) fd)\<^sup>*\<^sup>* x y" and "cluster_start fd x"
  shows "\<exists>done pend. to_primary y = map report_of done \<and> to_secondary y = map line_of pend \<and>
    (\<forall>u. oget_def [] (primary_holdback (primary_kv y)) u = map entry_of (of_user u (done @ pend)))"
proof -
  have "cluster_inv fd y" using assms by (blast intro: pair.steps_ok cluster_start_inv)
  then obtain "done" pend where "cluster_ok fd done pend y" by (auto simp: cluster_inv_def)
  then show ?thesis by (intro exI [of _ "done"] exI [of _ pend]) (simp add: cluster_ok_def Let_def queue_ok_def)
qed


section \<open>A command that fails\<close>

text \<open>
  A failing request is logged and forwarded all the same. The secondary sends its error text to the
  primary, which takes it for a request, answers that it is not supported, and this answer has no
  comma for the secondary to find.
\<close>

lemma serve_failed_dele:
  assumes "serving (Suc k) p" and "sane (Dele u f)" and "vfiles (view_of p) u = None"
  shows "replies p d seq (Dele u f) = [msg_no_user]" and "view_step (capacity p) (Dele u f) (view_of p) = view_of p"
  using assms(3) by (simp_all add: replies_def view_step_def spec_dele_def with_file_def)

lemma error_command:
  "parse_command msg_no_user = Ok ''-err''" "c_str msg_no_user \<noteq> ''S'' @ crlf" "c_str msg_no_user \<noteq> ''shutdown'' @ crlf"
  by code_simp+

text \<open>C36: A delete request of an unknown user is forwarded to the secondary although it fails; the
  secondary reports the error text, the primary takes this for a request and answers that it is not
  supported, and the secondary, which finds no comma in this answer, runs into undefined behaviour.\<close>

theorem failing_dele_stops_secondary:
  assumes pq: "pair_ok fd p q" and num: "numbers_left p" and same: "view_of q = view_of p"
    and c: "sane (Dele u f)" and none: "vfiles (view_of p) u = None" and d: "d \<noteq> secondary_fd p"
  shows "\<exists>p1 q1 p2. worker_step (Suc n) d (wire (Dele u f)) (False, p) = Ok (True, p1) \<and>
    new_messages (secondary_fd p) p p1 = [line_of (Dele u f, next_seq p u)] \<and>
    ps_step (Suc n) fd (line_of (Dele u f, next_seq p u)) q = Ok q1 \<and>
    new_messages fd q q1 = [msg_no_user] \<and>
    worker_step (Suc n) (secondary_fd p1) msg_no_user (False, p1) = Ok (False, p2) \<and>
    new_messages (secondary_fd p1) p1 p2 = [msg_not_supported] \<and>
    ps_step (Suc n) fd msg_not_supported q1 = Fail Undefined"
proof -
  have prim: "serving (Suc 0) p" "is_primary p" and sec: "serving (Suc 0) q" "\<not> is_primary q"
    "capacity q = capacity p"
    using pq num by (auto simp: pair_ok_def intro: numbers_left_serving)
  have w: "within cap (executed (Dele u f)) V" for cap V by simp
  have nq: "vfiles (view_of q) u = None" using none same by simp
  obtain p1 where p1: "worker_step (Suc n) d (wire (Dele u f)) (False, p) = Ok (True, p1)"
    "secondary_fd p1 = secondary_fd p"
    "sent p1 = sent p @ ([(d, msg_no_user), (secondary_fd p, line_of (Dele u f, next_seq p u)), (d, msg_done)])"
    using serve_one [OF prim(1) c w, of n d] serve_failed_dele [OF prim(1) c none] prim(2) d
      worker_request [OF c, of "Suc n" d False p]
    by (auto simp: rbind_eq_Ok)
  have "CHR '','' \<notin> set msg_not_supported" "NUL \<notin> set msg_not_supported"
    by (simp_all add: msg_not_supported_def)
  then have stop: "ps_step (Suc n) fd msg_not_supported q1 = Fail Undefined" for q1
    by (simp add: ps_step_def c_str_id)
  obtain q1 where q1: "ps_step (Suc n) fd (line_of (Dele u f, next_seq p u)) q = Ok q1"
    "sent q1 = sent q @ [(fd, msg_no_user)]"
    using serve_command [OF sec(1) c w, of n fd "next_seq p u"] sec(2) serve_failed_dele [OF sec(1) c nq]
      ps_step_wire [OF c _ serving_num [OF prim(1)], of "Suc n" fd u q]
    by auto
  have err: "worker_step (Suc n) (secondary_fd p1) msg_no_user (False, p1) = Ok (False, cs_error (secondary_fd p1) p1)"
    by (simp add: worker_step_def error_command(1) error_command(2,3) [simplified] Let_def)
  have "new_messages (secondary_fd p) p p1 = [line_of (Dele u f, next_seq p u)]"
    using new_messages_append [OF p1(3)] d by simp
  moreover have "new_messages fd q q1 = [msg_no_user]" using new_messages_append [OF q1(2)] by simp
  moreover have "new_messages (secondary_fd p1) p1 (cs_error (secondary_fd p1) p1) = [msg_not_supported]"
    by (simp add: new_messages_def cs_error_def messages_to_def)
  ultimately show ?thesis using p1(1) q1(1) err stop by blast
qed

end
