(* ===== verification/Cluster_Examples.thy ===== *)
theory Cluster_Examples
  imports KV_Cluster KV_Examples
begin

text \<open>
  The pair of a new primary and a new secondary: one value is stored, forwarded and reported. The
  theorems about runs of the pair are applied along this run.
\<close>

section \<open>One write\<close>

definition new_pair :: cluster where
  "new_pair = \<lparr>primary_kv = small_node, secondary_kv = replica, to_secondary = [], to_primary = []\<rparr>"

definition a_write :: command where "a_write = Put ''ann'' ''f'' ''ab''"

lemma replica_ok: "pair_ok 4 small_node replica" "view_of replica = empty_view"
proof -
  show v: "view_of replica = empty_view"
    by (simp add: replica_def view_of_def files_of_def oget_def_def fun_eq_iff)
  have "kv_wf replica" using small_node_wf by (simp add: replica_def kv_wf_def nodes_ok_def)
  then have "serving 1 replica"
    unfolding serving_def v by (simp add: replica_def next_seq_def oget_def_def)
  then show "pair_ok 4 small_node replica"
    using small_node_serving [of 0] by (simp add: pair_ok_def replica_def next_seq_def oget_def_def)
qed

lemma new_pair_start: "cluster_start 4 new_pair"
  using replica_ok by (simp add: cluster_start_def new_pair_def quiescent_def)

lemma new_pair_ok: "cluster_ok 4 [] [] new_pair"
  using replica_ok by (simp add: cluster_ok_def new_pair_def queue_ok_def oget_def_def)

lemma a_write_admissible: "admissible small_node a_write"
  by (simp add: admissible_def a_write_def sane_def accepted_def spec_put_def numbers_left_def)

lemma a_write_view: "vfiles (view_step 10 a_write empty_view) ''ann'' = Some [(''f'', ''ab'')]"
  by (simp add: view_step_def a_write_def spec_put_def files_in_def append_value_def oget_def_def)

lemma first_write:
  "\<exists>x1. cluster_step 1 4 new_pair x1 \<and> cluster_ok 4 [] [(a_write, 1)] x1 \<and>
     capacity (primary_kv x1) = 10 \<and> view_of (primary_kv x1) = view_step 10 a_write empty_view \<and>
     vfiles (view_of (primary_kv x1)) ''ann'' = Some [(''f'', ''ab'')]"
proof -
  obtain q p where p: "worker_step 1 5 (wire a_write) (False, primary_kv new_pair) = Ok (q, p)"
    "cluster_ok 4 [] [(a_write, 1)] (new_pair\<lparr>primary_kv := p,
      to_secondary := to_secondary new_pair @ new_messages (secondary_fd p) (primary_kv new_pair) p\<rparr>)"
    "view_of p = view_step (capacity p) a_write empty_view"
    using request_ok [OF new_pair_ok, of a_write 5 0] a_write_admissible
    by (auto simp: new_pair_def a_write_def next_seq_def oget_def_def)
  have "capacity p = 10"
    using p(2) by (simp add: cluster_ok_def pair_ok_def new_pair_def replica_def Let_def)
  moreover have "cluster_step 1 4 new_pair (new_pair\<lparr>primary_kv := p,
      to_secondary := to_secondary new_pair @ new_messages (secondary_fd p) (primary_kv new_pair) p\<rparr>)"
    using cluster_step.request [of new_pair a_write 5 1 q p 4] a_write_admissible p(1)
    by (simp add: new_pair_def)
  moreover have "files_of p ''ann'' = Some [(''f'', ''ab'')]"
    using arg_cong [OF p(3), of "\<lambda>V. vfiles V ''ann''"] calculation(1) a_write_view by simp
  moreover have "view_of p = view_step 10 a_write empty_view" using p(3) calculation(1) by simp
  ultimately show ?thesis using p(2) by auto
qed

lemma to_string_one: "to_string 1 = ''1''"
  by code_simp

text \<open>The write arrives at the secondary and is reported.\<close>

lemma write_delivered:
  "\<exists>x1 x3. (cluster_step 1 4)\<^sup>*\<^sup>* new_pair x1 \<and> to_secondary x1 = [''1,put ann,f,ab''] \<and>
     (cluster_step 1 4)\<^sup>*\<^sup>* new_pair x3 \<and> quiescent x3 \<and>
     vfiles (view_of (primary_kv x1)) ''ann'' = Some [(''f'', ''ab'')] \<and>
     vfiles (view_of (primary_kv x3)) ''ann'' = Some [(''f'', ''ab'')]"
proof -
  obtain x1 where x1: "cluster_step 1 4 new_pair x1" "cluster_ok 4 [] [(a_write, 1)] x1"
    "vfiles (view_of (primary_kv x1)) ''ann'' = Some [(''f'', ''ab'')]"
    using first_write by blast
  obtain s where s: "ps_step 1 4 (line_of (a_write, 1)) (secondary_kv x1) = Ok s"
    "cluster_ok 4 [(a_write, 1)] [] (x1\<lparr>secondary_kv := s, to_secondary := [],
      to_primary := to_primary x1 @ new_messages 4 (secondary_kv x1) s\<rparr>)"
    using forward_ok [OF x1(2), of 0] by auto
  define x2 where "x2 = x1\<lparr>secondary_kv := s, to_secondary := [],
      to_primary := to_primary x1 @ new_messages 4 (secondary_kv x1) s\<rparr>"
  have x2: "cluster_step 1 4 x1 x2" "cluster_ok 4 [(a_write, 1)] [] x2"
    using cluster_step.forward [of x1 "line_of (a_write, 1)" "[]" 1 4 s] x1(2) s
    by (simp_all add: x2_def cluster_ok_def Let_def)
  obtain p where p: "worker_step 1 (secondary_fd (primary_kv x2)) (report_of (a_write, 1)) (False, primary_kv x2) = Ok (False, p)"
    "cluster_ok 4 [] [] (x2\<lparr>primary_kv := p, to_primary := []\<rparr>)" "view_of p = view_of (primary_kv x2)"
    using report_ok [OF x2(2), of 1] by auto
  have "cluster_step 1 4 x2 (x2\<lparr>primary_kv := p, to_primary := []\<rparr>)"
    using cluster_step.report [of x2 "report_of (a_write, 1)" "[]" 1 False p 4] x2(2) p(1)
    by (simp add: cluster_ok_def Let_def)
  moreover have "quiescent (x2\<lparr>primary_kv := p, to_primary := []\<rparr>)" by (simp add: quiescent_def x2_def)
  moreover have "to_secondary x1 = [''1,put ann,f,ab'']"
    using x1(2) by (simp add: cluster_ok_def a_write_def to_string_one Let_def)
  ultimately show ?thesis using x1 x2(1) p(3)
    by (intro exI [of _ x1] exI [of _ "x2\<lparr>primary_kv := p, to_primary := []\<rparr>"])
      (auto simp: x2_def)
qed

section \<open>The theorems on this run\<close>

theorem quiescent_agree_witness:
  "\<exists>x :: cluster. quiescent x \<and> files_of (secondary_kv x) ''ann'' = Some [(''f'', ''ab'')] \<and>
     primary_holdback (primary_kv x) = []"
proof -
  obtain x where x: "(cluster_step (Suc 0) 4)\<^sup>*\<^sup>* new_pair x" "quiescent x"
    "files_of (primary_kv x) ''ann'' = Some [(''f'', ''ab'')]"
    using write_delivered by auto
  have v: "view_of (secondary_kv x) = view_of (primary_kv x)" "primary_holdback (primary_kv x) = []"
    using quiescent_agree [OF x(1) new_pair_start x(2)] by blast+
  have "files_of (secondary_kv x) ''ann'' = Some [(''f'', ''ab'')]"
    using arg_cong [OF v(1), of "\<lambda>V. vfiles V ''ann''"] x(3) by (simp only: view_of_sel)
  then show ?thesis using x(2) v(2) by blast
qed

theorem pair_drains_witness:
  "\<exists>x y. to_secondary x = [''1,put ann,f,ab''] \<and> (cluster_step 1 4)\<^sup>*\<^sup>* x y \<and> quiescent y"
  using write_delivered pair_drains [of 0 4 new_pair] new_pair_start by auto

theorem holdback_exact_witness:
  "\<exists>(x :: cluster) done pend. to_secondary x = [''1,put ann,f,ab''] \<and> to_secondary x = map line_of pend \<and>
     oget_def [] (primary_holdback (primary_kv x)) ''ann'' = map entry_of (of_user ''ann'' (done @ pend))"
proof -
  obtain x where x: "(cluster_step (Suc 0) 4)\<^sup>*\<^sup>* new_pair x" "to_secondary x = [''1,put ann,f,ab'']"
    using write_delivered by auto
  obtain "done" pend where "to_secondary x = map line_of pend"
    "oget_def [] (primary_holdback (primary_kv x)) ''ann'' = map entry_of (of_user ''ann'' (done @ pend))"
    using holdback_exact [OF x(1) new_pair_start] by blast
  then show ?thesis using x(2) by blast
qed


theorem failing_dele_stops_secondary_witness:
  "\<exists>p q p2. worker_step 1 5 (''dele bob,f'' @ crlf) (False, small_node) = Ok (True, p) \<and>
     ps_step 1 4 (''1,dele bob,f'' @ crlf) replica = Ok q \<and>
     worker_step 1 (secondary_fd p) msg_no_user (False, p) = Ok (False, p2) \<and>
     new_messages (secondary_fd p) p p2 = [msg_not_supported] \<and>
     ps_step 1 4 msg_not_supported q = Fail Undefined"
proof -
  have l: "wire (Dele ''bob'' ''f'') = ''dele bob,f'' @ crlf"
    "line_of (Dele ''bob'' ''f'', next_seq small_node ''bob'') = ''1,dele bob,f'' @ crlf"
    by (simp_all add: next_seq_def oget_def_def to_string_one)
  have "sane (Dele ''bob'' ''f'')" "numbers_left small_node" "vfiles (view_of small_node) ''bob'' = None"
    "view_of replica = view_of small_node" "5 \<noteq> secondary_fd small_node"
    using replica_ok(2) by (simp_all add: sane_def numbers_left_def)
  then show ?thesis
    using failing_dele_stops_secondary [OF replica_ok(1), of "''bob''" "''f''" 5 0] unfolding l
    by (simp only: One_nat_def) blast
qed

end
