(* ===== verification/Conhash.thy ===== *)
theory Conhash
  imports Cpp_Map Cpp_String
begin

text \<open>
  Consistent hashing in the master: \<open>hash_str\<close> (\<open>master/conhash.cc\<close>) places a user on the ring
  \<open>0 .. MAX_KEY - 1\<close>, and \<open>get_server_id\<close> (\<open>master/master.cc\<close>) gives the storage node that owns a
  place: the next greater node number, or the smallest one past the end. Adding a node moves users
  to that node only.
\<close>

unbundle bit_operations_syntax

section \<open>The hash\<close>

definition HASH_A :: "32 word" where "HASH_A = 54059"
definition HASH_B :: int where "HASH_B = 76963"
definition MAX_KEY :: "32 word" where "MAX_KEY = 86969"
definition FIRSTH :: "32 word" where "FIRSTH = 37"

text \<open>\<open>s[0] * B\<close> is a product of \<open>int\<close>s of a signed \<open>char\<close>, converted for the exclusive or.\<close>

fun hash_loop :: "32 word \<Rightarrow> string \<Rightarrow> 32 word" where
  "hash_loop h [] = h"
| "hash_loop h (c # s) = hash_loop ((h * HASH_A) XOR word_of_int (signed_char c * HASH_B)) s"

definition hash_str :: "string \<Rightarrow> int" where
  "hash_str s = sint (hash_loop FIRSTH (c_str s) mod MAX_KEY)"

lemma hash_str_range: "0 \<le> hash_str s \<and> hash_str s < 86969"
proof -
  let ?h = "hash_loop FIRSTH (c_str s)"
  have "uint (?h mod MAX_KEY) = uint ?h mod 86969"
    by (simp add: uint_mod_distrib MAX_KEY_def)
  then have u: "0 \<le> uint (?h mod MAX_KEY)" "uint (?h mod MAX_KEY) < 86969" by simp_all
  have "- (2 ^ 31) \<le> uint (?h mod MAX_KEY)" by (rule order_trans [OF _ u(1)]) simp
  moreover have "uint (?h mod MAX_KEY) < 2 ^ 31" by (rule order_less_trans [OF u(2)]) simp
  ultimately have "sint (?h mod MAX_KEY) = uint (?h mod MAX_KEY)"
    unfolding sint_uint by (intro signed_take_bit_int_eq_self) simp_all
  then show ?thesis using u by (simp only: hash_str_def)
qed

section \<open>The owner of a key\<close>

fun scan :: "int \<Rightarrow> int \<Rightarrow> int \<Rightarrow> int list \<Rightarrow> int" where
  "scan key head prev [] = head"
| "scan key head prev (current # r) =
     (if prev \<le> key \<and> key < current then current else scan key head current r)"

text \<open>On the keys of the map \<open>servers\<close>, in its order.\<close>

definition get_server_id :: "int list \<Rightarrow> int \<Rightarrow> int" where
  "get_server_id ids key =
     (case ids of
        [] \<Rightarrow> - 1
      | head # r \<Rightarrow> if 0 \<le> key \<and> key < head then head else scan key head head r)"

text \<open>The intended owner.\<close>

definition owner :: "int set \<Rightarrow> int \<Rightarrow> int" where
  "owner ids key = (if \<exists>i \<in> ids. key < i then Min {i \<in> ids. key < i} else Min ids)"

lemma scan_owner:
  "sorted_wrt (<) (prev # r) \<Longrightarrow> prev \<le> key \<Longrightarrow>
   scan key head prev r = (case filter (\<lambda>i. key < i) r of [] \<Rightarrow> head | i # _ \<Rightarrow> i)"
  by (induction r arbitrary: prev) auto

lemma Min_filter_hd:
  assumes "sorted_wrt (<) ids" and "filter P ids = i # r"
  shows "Min {i \<in> set ids. P i} = i"
proof -
  have "sorted_wrt (<) (i # r)"
    using sorted_wrt_filter [OF assms(1), of P] assms(2) by simp
  then show ?thesis
    using assms(2) by (intro Min_eqI) (auto simp: set_filter [symmetric] simp del: set_filter)
qed

lemma get_server_id_owner:
  assumes "sorted_wrt (<) ids" and "ids \<noteq> []" and "0 \<le> key"
  shows "get_server_id ids key = owner (set ids) key"
proof -
  obtain head r where ids: "ids = head # r" using assms(2) by (cases ids) auto
  have min: "Min (set ids) = head"
    using assms(1) by (intro Min_eqI) (auto simp: ids)
  show ?thesis
  proof (cases "key < head")
    case True
    then have "filter (\<lambda>i. key < i) ids = head # filter (\<lambda>i. key < i) r" by (simp add: ids)
    from Min_filter_hd [OF assms(1) this] True assms(3) show ?thesis
      by (auto simp: owner_def get_server_id_def ids)
  next
    case False
    then have g: "get_server_id ids key = (case filter (\<lambda>i. key < i) ids of [] \<Rightarrow> head | i # _ \<Rightarrow> i)"
      using assms scan_owner [of head r key head] by (simp add: get_server_id_def ids)
    show ?thesis
    proof (cases "filter (\<lambda>i. key < i) ids")
      case Nil
      then show ?thesis using g min by (auto simp: owner_def filter_empty_conv)
    next
      case (Cons i l)
      then have "\<exists>i \<in> set ids. key < i" by (metis filter_eq_Cons_iff in_set_conv_decomp)
      then show ?thesis using g Cons Min_filter_hd [OF assms(1) Cons] by (simp add: owner_def)
    qed
  qed
qed

section \<open>Adding a node\<close>

text \<open>A new node takes over keys, and no key moves between two old nodes.\<close>

lemma owner_insert:
  assumes "finite ids" and "ids \<noteq> {}"
  shows "owner (insert n ids) key =
    (if key < n then (if (\<exists>i \<in> ids. key < i) \<and> owner ids key < n then owner ids key else n)
     else if \<exists>i \<in> ids. key < i then owner ids key else min n (Min ids))"
proof -
  have split: "{i \<in> insert n ids. key < i} = (if key < n then insert n {i \<in> ids. key < i} else {i \<in> ids. key < i})"
    by auto
  have ex: "(\<exists>i \<in> insert n ids. key < i) \<longleftrightarrow> key < n \<or> (\<exists>i \<in> ids. key < i)" by blast
  show ?thesis
  proof (cases "\<exists>i \<in> ids. key < i")
    case True
    then have "{i \<in> ids. key < i} \<noteq> {}" by blast
    then have "Min (insert n {i \<in> ids. key < i}) = min n (Min {i \<in> ids. key < i})"
      using assms(1) by (intro Min_insert) simp_all
    then show ?thesis unfolding owner_def split ex using True by (simp add: min_def)
  next
    case False
    then have none: "{i \<in> ids. key < i} = {}" by blast
    then show ?thesis unfolding owner_def split ex none using assms False by simp
  qed
qed

lemma owner_disruption:
  assumes "finite ids" and "ids \<noteq> {}"
  shows "owner (insert n ids) key = owner ids key \<or> owner (insert n ids) key = n"
  using assms by (auto simp: owner_insert) (auto simp: owner_def min_def)

end
