(* ===== verification/Master.thy ===== *)
theory Master
  imports Conhash
begin

text \<open>
  The master (\<open>master/master.cc\<close>): which storage nodes exist, which of the two machines of a node
  is the primary, and which users were looked up at which node. \<open>master_step\<close> is one turn of the
  UDP loop.

  \<^item> Whether a machine accepts a connection is a parameter \<open>alive\<close>.
  \<^item> A \<open>Server\<close> that is only default-initialised has no values in its number fields; the model
    keeps them as \<open>None\<close>, and using one is undefined behaviour. A \<open>Pair\<close> created by
    \<open>operator[]\<close> of the map is value-initialised, with zeros.
  \<^item> A datagram is at most 1024 bytes; the terminator of a longer one would go past the buffer.
\<close>

section \<open>State\<close>

record server =
  sid :: "int option"
  sip :: string
  sport :: "int option"
  srunning :: "bool option"

record server_pair =
  prim :: server
  secd :: server

record master =
  servers :: "(int, server_pair) omap"
  users :: "(int, string oset) omap"
  server_index :: "(string, int) omap"

definition dummy_server :: server where
  "dummy_server = \<lparr>sid = None, sip = [], sport = None, srunning = None\<rparr>"

definition zero_server :: server where
  "zero_server = \<lparr>sid = Some 0, sip = [], sport = Some 0, srunning = Some False\<rparr>"

definition zero_pair :: server_pair where
  "zero_pair = \<lparr>prim = zero_server, secd = zero_server\<rparr>"

definition init_master :: master where
  "init_master = \<lparr>servers = [], users = [], server_index = []\<rparr>"

section \<open>Lookup\<close>

definition port_text :: "server \<Rightarrow> string res" where
  "port_text s = rbind (of_option Undefined (sport s)) (\<lambda>p. Ok (to_string p))"

text \<open>\<open>ip + ":" + to_string(port)\<close>\<close>

definition address :: "server \<Rightarrow> string res" where
  "address s = rbind (port_text s) (\<lambda>p. Ok (sip s @ '':'' @ p))"

definition check_server_state :: "(string \<Rightarrow> int \<Rightarrow> bool) \<Rightarrow> server \<Rightarrow> bool res" where
  "check_server_state alive s =
     rbind (of_option Undefined (sport s)) (\<lambda>p. Ok (alive (sip s) p))"

definition server_of :: "int \<Rightarrow> master \<Rightarrow> int" where
  "server_of key s = get_server_id (okeys (servers s)) key"

definition get_backend_info :: "(string \<Rightarrow> int \<Rightarrow> bool) \<Rightarrow> int \<Rightarrow> master \<Rightarrow> (string \<times> master) res" where
  "get_backend_info alive key s =
     (let server_id = server_of key s;
          pair = oget_def zero_pair (servers s) server_id
      in
      rbind (check_server_state alive (prim pair)) (\<lambda>up.
      let pair = (if up then pair else \<lparr>prim = secd pair, secd = dummy_server\<rparr>);
          s = s\<lparr>servers := oupd server_id pair (servers s)\<rparr>
      in rbind (address (prim pair)) (\<lambda>res. Ok (res, s))))"

definition lookup_user :: "(string \<Rightarrow> int \<Rightarrow> bool) \<Rightarrow> string \<Rightarrow> master \<Rightarrow> (string \<times> master) res" where
  "lookup_user alive content s =
     (let key = hash_str content; node_id = server_of key s in
      get_backend_info alive key
        (s\<lparr>users := oupd node_id (oset_add content (oget_def [] (users s) node_id)) (users s)\<rparr>))"

section \<open>Registration\<close>

text \<open>The users handed over to a new node, and what the old one keeps.\<close>

fun hand_over :: "int \<Rightarrow> string list \<Rightarrow> string \<times> string oset \<Rightarrow> string \<times> string oset" where
  "hand_over nid [] (rep, left) = (rep, left)"
| "hand_over nid (u # us) (rep, left) =
     hand_over nid us (if hash_str u < nid then (rep @ u @ '','', odel u left) else (rep, left))"

text \<open>A node number that is not known yet.\<close>

definition join :: "int \<Rightarrow> server \<Rightarrow> master \<Rightarrow> (string \<times> server_pair \<times> master) res" where
  "join nid srv s =
     (let pair = \<lparr>prim = srv, secd = dummy_server\<rparr> in
      if users s = [] then Ok (''P'', pair, s)
      else
        (let dest = server_of nid s;
             s = s\<lparr>users := oindex [] dest (users s), servers := oindex zero_pair dest (servers s)\<rparr>;
             us = oget_def [] (users s) dest
         in
         rbind (address (prim (oget_def zero_pair (servers s) dest))) (\<lambda>dest_server.
         let (rep, left) = hand_over nid (oset_list us) (''P '' @ dest_server @ '','', us)
         in Ok (rep, pair, s\<lparr>users := oupd dest left (users s)\<rparr>))))"

text \<open>A node number with a pair: the sender becomes primary or secondary of it.\<close>

definition rejoin :: "(string \<Rightarrow> int \<Rightarrow> bool) \<Rightarrow> server \<Rightarrow> server_pair \<Rightarrow> (string \<times> server_pair) res" where
  "rejoin alive srv pair =
     rbind (check_server_state alive (prim pair)) (\<lambda>up.
     if up then rbind (address (prim pair)) (\<lambda>a. Ok (''P='' @ a, pair\<lparr>secd := srv\<rparr>))
     else if sip (secd pair) = [] then Ok (''P'', pair\<lparr>prim := srv\<rparr>)
     else rbind (address (secd pair)) (\<lambda>a. Ok (''P='' @ a, \<lparr>prim = secd pair, secd = srv\<rparr>)))"

definition register :: "(string \<Rightarrow> int \<Rightarrow> bool) \<Rightarrow> string \<Rightarrow> int \<Rightarrow> string \<Rightarrow> master \<Rightarrow> (string \<times> master) res" where
  "register alive ip port content s =
     (let nid = atoi content;
          srv = \<lparr>sid = Some nid, sip = ip, sport = Some port, srunning = Some True\<rparr>;
          s = s\<lparr>server_index := oupd (ip @ '':'' @ to_string port) nid (server_index s)\<rparr>
      in
      rbind (case oget (servers s) nid of
               None \<Rightarrow> join nid srv s
             | Some pair \<Rightarrow> rbind (rejoin alive srv pair) (\<lambda>(rep, pair). Ok (rep, pair, s)))
        (\<lambda>(rep, pair, s). Ok (rep, s\<lparr>servers := oupd nid pair (servers s)\<rparr>)))"

section \<open>Listings\<close>

fun list_servers :: "server_pair list \<Rightarrow> string res" where
  "list_servers [] = Ok []"
| "list_servers (p # ps) =
     rbind (address (prim p)) (\<lambda>a.
     rbind (if sip (secd p) = [] then Ok [] else rbind (address (secd p)) (\<lambda>b. Ok (''S'' @ b @ '',''))) (\<lambda>b.
     rbind (list_servers ps) (\<lambda>r. Ok (''P'' @ a @ '','' @ b @ r))))"

definition list_users :: "string \<Rightarrow> master \<Rightarrow> (string \<times> master) res" where
  "list_users content s =
     rbind (of_option OutOfRange (oget (server_index s) content)) (\<lambda>node_id.
     let s = s\<lparr>users := oindex [] node_id (users s)\<rparr>
     in Ok (concat (map (\<lambda>u. u @ '','') (oset_list (oget_def [] (users s) node_id))), s))"

section \<open>One datagram\<close>

definition master_step ::
    "(string \<Rightarrow> int \<Rightarrow> bool) \<Rightarrow> string \<Rightarrow> int \<Rightarrow> string \<Rightarrow> master \<Rightarrow> (string \<times> master) res" where
  "master_step alive ip port buf s =
     (let message = c_str buf in
      rbind (substr_from message 1) (\<lambda>content.
      let command = take 1 message in
      if command = ''?'' then lookup_user alive content s
      else if command = ''!'' then register alive ip port content s
      else if command = ''A'' then rbind (list_servers (map snd (servers s))) (\<lambda>rep. Ok (rep, s))
      else if command = ''U'' then list_users content s
      else Ok ([], s)))"

section \<open>Lookups go to the owner\<close>

text \<open>Nodes in order, with numbers on the ring, and users recorded where they belong.\<close>

definition ids :: "master \<Rightarrow> int list" where
  "ids s = okeys (servers s)"

definition master_ok :: "master \<Rightarrow> bool" where
  "master_ok s \<longleftrightarrow>
     osorted (servers s) \<and> servers s \<noteq> [] \<and> osorted (users s) \<and>
     (\<forall>n us u. oget (users s) n = Some us \<longrightarrow> osorted us \<and>
        (u \<in> set (oset_list us) \<longrightarrow> owner (set (ids s)) (hash_str u) = n))"

lemma ids_sorted: "osorted (servers s) \<Longrightarrow> sorted_wrt (<) (ids s)"
  by (simp add: ids_def osorted_def okeys_def)

lemma oupd_same: "osorted m \<Longrightarrow> oget m k = Some v \<Longrightarrow> oupd k v m = m"
  by (rule osorted_ext) auto

lemma server_of_owner:
  "osorted (servers s) \<Longrightarrow> servers s \<noteq> [] \<Longrightarrow> 0 \<le> key \<Longrightarrow> server_of key s = owner (set (ids s)) key"
  unfolding server_of_def ids_def
  by (rule get_server_id_owner) (auto simp: okeys_def osorted_def)

lemma owner_in: "finite A \<Longrightarrow> A \<noteq> {} \<Longrightarrow> owner A key \<in> A"
proof -
  assume A: "finite A" "A \<noteq> {}"
  have "Min {i \<in> A. key < i} \<in> {i \<in> A. key < i}" if "\<exists>i \<in> A. key < i"
    using A that by (intro Min_in) auto
  then show ?thesis using A by (auto simp: owner_def)
qed

lemma owner_known:
  assumes "osorted (servers s)" and "servers s \<noteq> []" and "0 \<le> key"
  obtains p where "oget (servers s) (server_of key s) = Some p"
proof -
  have "server_of key s \<in> set (ids s)"
    unfolding server_of_owner [OF assms] using assms(2) by (intro owner_in) (auto simp: ids_def okeys_def)
  then show thesis using that oget_None_iff [of "servers s" "server_of key s"] by (auto simp: ids_def)
qed

text \<open>The look-up of a user whose primary accepts connections.\<close>

lemma lookup_alive_ok:
  assumes ok: "master_ok s" and p: "oget (servers s) (owner (set (ids s)) (hash_str u)) = Some p"
    and up: "sport (prim p) = Some port" "alive (sip (prim p)) port"
  shows "\<exists>s'. lookup_user alive u s = Ok (sip (prim p) @ '':'' @ to_string port, s') \<and>
    servers s' = servers s \<and> master_ok s' \<and>
    u \<in> set (oset_list (oget_def [] (users s') (owner (set (ids s)) (hash_str u))))"
proof -
  have m: "osorted (servers s)" "servers s \<noteq> []" "osorted (users s)"
    "\<And>n us. oget (users s) n = Some us \<Longrightarrow> osorted us"
    "\<And>n us u. oget (users s) n = Some us \<Longrightarrow> u \<in> set (oset_list us) \<Longrightarrow>
       owner (set (ids s)) (hash_str u) = n"
    using ok unfolding master_ok_def by blast+
  let ?n = "owner (set (ids s)) (hash_str u)"
  have n: "server_of (hash_str u) t = ?n" if "servers t = servers s" for t
    using server_of_owner [of t] m(1,2) hash_str_range [of u] that by (simp add: ids_def)
  define us where "us = oset_add u (oget_def [] (users s) ?n)"
  define s' where "s' = s\<lparr>users := oupd ?n us (users s), servers := servers s\<rparr>"
  have "lookup_user alive u s = Ok (sip (prim p) @ '':'' @ to_string port, s')"
    using n p up oupd_same [OF m(1) p]
    by (simp add: lookup_user_def get_backend_info_def Let_def oget_def_def [of zero_pair] check_server_state_def
        address_def port_text_def s'_def us_def)
  moreover have us: "osorted us"
    using m(4) [of ?n] by (auto simp: us_def oget_def_def split: option.split)
  have own: "owner (set (ids s)) (hash_str v) = ?n" if "v \<in> set (oset_list us)" for v
  proof (cases "oget (users s) ?n")
    case None
    then show ?thesis using that by (simp add: us_def oget_def_def okeys_def)
  next
    case (Some w)
    then have "v = u \<or> v \<in> set (oset_list w)" using that by (simp add: us_def oget_def_def)
    then show ?thesis using m(5) [OF Some] by blast
  qed
  have "master_ok s'"
    unfolding master_ok_def
  proof (intro conjI allI impI)
    fix n w v
    assume n: "oget (users s') n = Some w"
    then show "osorted w"
      using us m(4) [of n w] by (cases "n = ?n") (simp_all add: s'_def)
    assume "v \<in> set (oset_list w)"
    then show "owner (set (ids s')) (hash_str v) = n"
      using n own [of v] m(5) [of n w v] by (cases "n = ?n") (simp_all add: s'_def ids_def)
  qed (use m in \<open>simp_all add: s'_def\<close>)
  moreover have "u \<in> set (oset_list us)" by (simp add: us_def)
  ultimately show ?thesis by (intro exI [of _ s']) (simp add: s'_def)
qed

text \<open>C22: A look-up of a user whose primary accepts connections is answered with the address of that
  primary, the user is recorded under its node, and the server table is unchanged.\<close>

theorem lookup_alive:
  assumes ok: "master_ok s" and p: "oget (servers s) (owner (set (ids s)) (hash_str u)) = Some p"
    and up: "sport (prim p) = Some port" "alive (sip (prim p)) port"
  shows "\<exists>s'. lookup_user alive u s = Ok (sip (prim p) @ '':'' @ to_string port, s') \<and>
    servers s' = servers s \<and> master_ok s' \<and>
    u \<in> set (oset_list (oget_def [] (users s') (owner (set (ids s)) (hash_str u))))"
  using assms by (rule lookup_alive_ok)

text \<open>When the primary does not accept connections and there is a secondary, the secondary is
  promoted for this node only and its address is the answer.\<close>

theorem lookup_failover:
  assumes s: "osorted (servers s)" "servers s \<noteq> []"
    and p: "oget (servers s) (owner (set (ids s)) (hash_str u)) = Some p"
    and down: "sport (prim p) = Some port" "\<not> alive (sip (prim p)) port" and q: "sport (secd p) = Some q"
  shows "\<exists>s'. lookup_user alive u s = Ok (sip (secd p) @ '':'' @ to_string q, s') \<and>
    oget (servers s') (owner (set (ids s)) (hash_str u)) = Some \<lparr>prim = secd p, secd = dummy_server\<rparr> \<and>
    (\<forall>n. n \<noteq> owner (set (ids s)) (hash_str u) \<longrightarrow> oget (servers s') n = oget (servers s) n)"
proof -
  let ?n = "owner (set (ids s)) (hash_str u)"
  have "server_of (hash_str u) t = ?n" if "servers t = servers s" for t
    using server_of_owner [of t] s hash_str_range [of u] that by (simp add: ids_def)
  then show ?thesis
    using p down q
    by (simp add: lookup_user_def get_backend_info_def Let_def oget_def_def [of zero_pair] check_server_state_def
        address_def port_text_def)
qed

section \<open>A node joins\<close>

lemma hand_over_spec:
  "hand_over nid us (rep, left) =
     (rep @ concat (map (\<lambda>u. u @ '','') (filter (\<lambda>u. hash_str u < nid) us)),
      fold (\<lambda>u m. if hash_str u < nid then odel u m else m) us left)"
  by (induction us arbitrary: rep left) simp_all

lemma fold_odel:
  "set (okeys (fold (\<lambda>u m. if P u then odel u m else m) us left)) =
     set (okeys left) - {u \<in> set us. P u}"
  by (induction us arbitrary: left) auto

lemma fold_odel_sorted:
  "osorted left \<Longrightarrow> osorted (fold (\<lambda>u m. if P u then odel u m else m) us left)"
  by (induction us arbitrary: left) auto

text \<open>Between two nodes of the ring, the users below the new number are the ones it takes over.\<close>

lemma below_new_node:
  assumes ok: "master_ok s" and new: "nid \<notin> set (ids s)" and low: "\<exists>i \<in> set (ids s). i < nid"
    and high: "\<exists>i \<in> set (ids s). nid < i"
    and u: "u \<in> set (oset_list (oget_def [] (users s) (owner (set (ids s)) nid)))"
  shows "owner (set (ids s)) (hash_str u) = owner (set (ids s)) nid"
    and "hash_str u < nid \<longleftrightarrow> owner (insert nid (set (ids s))) (hash_str u) = nid"
proof -
  let ?I = "set (ids s)" and ?k = "hash_str u" and ?d = "owner (set (ids s)) nid"
  have I: "finite ?I" "?I \<noteq> {}" using low by auto
  show own: "owner ?I ?k = ?d"
  proof (cases "oget (users s) ?d")
    case None
    with u show ?thesis by (simp add: oget_def_def)
  next
    case (Some us)
    with u have "u \<in> set (oset_list us)" by (simp add: oget_def_def)
    with ok Some show ?thesis unfolding master_ok_def by blast
  qed
  have d: "nid < ?d"
  proof -
    have "Min {i \<in> ?I. nid < i} \<in> {i \<in> ?I. nid < i}" using high by (intro Min_in) auto
    then show ?thesis using high by (simp add: owner_def)
  qed
  have ne: "?d \<noteq> Min ?I"
  proof -
    obtain i where "i \<in> ?I" "i < nid" using low by blast
    then show ?thesis using Min_le [OF I(1), of i] d by linarith
  qed
  then have "\<exists>i \<in> ?I. ?k < i" using own by (auto simp: owner_def split: if_splits)
  then show "?k < nid \<longleftrightarrow> owner (insert nid ?I) ?k = nid"
    using owner_insert [OF I, of nid ?k] own d new owner_in [OF I, of ?k] by auto
qed

text \<open>The reply of the master names exactly these users, and the old node keeps the others.\<close>

lemma join_hands_over_ok:
  assumes m: "osorted (servers s)" "servers s \<noteq> []" and some: "users s \<noteq> []" "0 \<le> nid"
    and p: "oget (servers s) (owner (set (ids s)) nid) = Some p" "sport (prim p) = Some port"
  shows "\<exists>s'. join nid srv s = Ok
      (''P '' @ sip (prim p) @ '':'' @ to_string port @ '','' @
         concat (map (\<lambda>u. u @ '','') (filter (\<lambda>u. hash_str u < nid)
           (oset_list (oget_def [] (users s) (owner (set (ids s)) nid))))),
       \<lparr>prim = srv, secd = dummy_server\<rparr>, s') \<and>
    servers s' = servers s \<and>
    (\<forall>u. u \<in> set (oset_list (oget_def [] (users s') (owner (set (ids s)) nid))) \<longleftrightarrow>
       u \<in> set (oset_list (oget_def [] (users s) (owner (set (ids s)) nid))) \<and> \<not> hash_str u < nid)"
proof -
  let ?d = "owner (set (ids s)) nid"
  have d: "server_of nid s = ?d" using server_of_owner [OF m some(2)] .
  have keep: "oindex zero_pair ?d (servers s) = servers s" using p(1) by (simp add: oindex_def)
  show ?thesis
    using some(1) p
    by (simp add: join_def Let_def d keep oget_def_def [of zero_pair] address_def port_text_def hand_over_spec fold_odel)
      blast
qed

text \<open>C23: When a node with a new number that is not negative joins a ring of nodes: if no user is
  recorded yet, the answer is only the role P; otherwise it names the primary of the node after the
  new one and exactly the users of that node whose hash is below the new number. These users, and no
  others, are removed from the record of the old node.\<close>

theorem join_hands_over:
  assumes m: "osorted (servers s)" "servers s \<noteq> []" and new: "0 \<le> nid"
    and p: "oget (servers s) (owner (set (ids s)) nid) = Some p" "sport (prim p) = Some port"
  shows "\<exists>s'. join nid srv s = Ok
      (if users s = [] then ''P''
       else ''P '' @ sip (prim p) @ '':'' @ to_string port @ '','' @
         concat (map (\<lambda>u. u @ '','') (filter (\<lambda>u. hash_str u < nid)
           (oset_list (oget_def [] (users s) (owner (set (ids s)) nid))))),
       \<lparr>prim = srv, secd = dummy_server\<rparr>, s') \<and>
    servers s' = servers s \<and>
    (\<forall>u. u \<in> set (oset_list (oget_def [] (users s') (owner (set (ids s)) nid))) \<longleftrightarrow>
       u \<in> set (oset_list (oget_def [] (users s) (owner (set (ids s)) nid))) \<and> \<not> hash_str u < nid)"
proof (cases "users s = []")
  case True
  then show ?thesis by (simp add: join_def oget_def_def)
next
  case False
  then show ?thesis using join_hands_over_ok [OF m False new p] by simp
qed

section \<open>A node registers\<close>

lemma register_new:
  assumes "atoi content \<notin> set (ids s)"
  shows "register alive ip port content s =
    rbind (join (atoi content) \<lparr>sid = Some (atoi content), sip = ip, sport = Some port, srunning = Some True\<rparr>
        (s\<lparr>server_index := oupd (ip @ '':'' @ to_string port) (atoi content) (server_index s)\<rparr>))
      (\<lambda>(rep, pair, s). Ok (rep, s\<lparr>servers := oupd (atoi content) pair (servers s)\<rparr>))"
  using assms oget_None_iff [of "servers s" "atoi content"] by (simp add: register_def Let_def ids_def)

lemma join_servers:
  assumes "join nid srv s = Ok (rep, pair, t)" and "oget (servers s) (server_of nid s) = Some p"
  shows "servers t = servers s"
proof -
  have "oindex zero_pair (server_of nid s) (servers s) = servers s" using assms(2) by (simp add: oindex_def)
  then show ?thesis
    using assms(1)
    by (cases "address (prim (oget_def zero_pair (servers s) (server_of nid s)))")
      (auto simp: join_def Let_def hand_over_spec split: if_splits)
qed

lemma register_ids:
  assumes m: "osorted (servers s)" "servers s \<noteq> []" and new: "atoi content \<notin> set (ids s)" "0 \<le> atoi content"
    and r: "register alive ip port content s = Ok (rep, s')"
  shows "osorted (servers s')" and "servers s' \<noteq> []" and "set (ids s') = insert (atoi content) (set (ids s))"
proof -
  let ?t = "s\<lparr>server_index := oupd (ip @ '':'' @ to_string port) (atoi content) (server_index s)\<rparr>"
  obtain p where p: "oget (servers ?t) (server_of (atoi content) ?t) = Some p"
    using owner_known [of ?t "atoi content"] m new(2) by auto
  obtain pair t where t: "join (atoi content)
      \<lparr>sid = Some (atoi content), sip = ip, sport = Some port, srunning = Some True\<rparr> ?t = Ok (rep, pair, t)"
    "s' = t\<lparr>servers := oupd (atoi content) pair (servers t)\<rparr>"
    using r unfolding register_new [OF new(1)] by (auto simp: rbind_eq_Ok)
  have "servers t = servers s" using join_servers [OF t(1) p] by simp
  then show "osorted (servers s')" and ids: "set (ids s') = insert (atoi content) (set (ids s))"
    using m by (simp_all add: t(2) ids_def)
  show "servers s' \<noteq> []" using ids by (auto simp: ids_def)
qed

text \<open>C25: When a node with a new number registers at the master, the look-up of every key gives
  afterwards the node it gave before, or the new node: no key moves between two old nodes.\<close>

theorem new_node_moves_no_other_key:
  assumes m: "osorted (servers s)" "servers s \<noteq> []" and new: "atoi content \<notin> set (ids s)" "0 \<le> atoi content"
    and r: "register alive ip port content s = Ok (rep, s')" and key: "0 \<le> key"
  shows "server_of key s' = server_of key s \<or> server_of key s' = atoi content"
proof -
  have i: "set (ids s) \<noteq> {}" using m(2) by (simp add: ids_def okeys_def)
  note s' = register_ids [OF m new r]
  show ?thesis
    using owner_disruption [OF _ i, of "atoi content" key]
    by (simp add: server_of_owner [OF m key] server_of_owner [OF s'(1,2) key] s'(3))
qed

lemma register_hands_over:
  assumes ok: "master_ok s" and new: "atoi content \<notin> set (ids s)" "0 \<le> atoi content" and some: "users s \<noteq> []"
    and low: "\<exists>i \<in> set (ids s). i < atoi content" and high: "\<exists>i \<in> set (ids s). atoi content < i"
    and p: "oget (servers s) (server_of (atoi content) s) = Some p" "sport (prim p) = Some q"
  shows "\<exists>s'. register alive ip port content s = Ok
      (''P '' @ sip (prim p) @ '':'' @ to_string q @ '','' @
         concat (map (\<lambda>u. u @ '','') (filter (\<lambda>u. server_of (hash_str u) s' = atoi content)
           (oset_list (oget_def [] (users s) (server_of (atoi content) s))))), s') \<and>
    (\<forall>u. u \<in> set (oset_list (oget_def [] (users s') (server_of (atoi content) s))) \<longleftrightarrow>
       u \<in> set (oset_list (oget_def [] (users s) (server_of (atoi content) s))) \<and>
       server_of (hash_str u) s' = server_of (atoi content) s)"
proof -
  let ?n = "atoi content" and ?t = "s\<lparr>server_index := oupd (ip @ '':'' @ to_string port) (atoi content) (server_index s)\<rparr>"
  let ?us = "oset_list (oget_def [] (users s) (owner (set (ids s)) (atoi content)))"
  have m: "osorted (servers s)" "servers s \<noteq> []" using ok by (auto simp: master_ok_def)
  have d: "server_of ?n s = owner (set (ids s)) ?n" by (rule server_of_owner [OF m new(2)])
  have t: "osorted (servers ?t)" "servers ?t \<noteq> []" "set (ids ?t) = set (ids s)" using m by (simp_all add: ids_def)
  obtain t' where t': "join ?n \<lparr>sid = Some ?n, sip = ip, sport = Some port, srunning = Some True\<rparr> ?t = Ok
      (''P '' @ sip (prim p) @ '':'' @ to_string q @ '','' @
         concat (map (\<lambda>u. u @ '','') (filter (\<lambda>u. hash_str u < ?n) ?us)),
       \<lparr>prim = \<lparr>sid = Some ?n, sip = ip, sport = Some port, srunning = Some True\<rparr>, secd = dummy_server\<rparr>, t')"
    "\<forall>u. u \<in> set (oset_list (oget_def [] (users t') (owner (set (ids s)) ?n))) \<longleftrightarrow> u \<in> set ?us \<and> \<not> hash_str u < ?n"
    using join_hands_over_ok [OF t(1,2), of ?n p q "\<lparr>sid = Some ?n, sip = ip, sport = Some port, srunning = Some True\<rparr>"]
      new some p t(3) d by auto
  define s' where "s' = t'\<lparr>servers := oupd ?n \<lparr>prim = \<lparr>sid = Some ?n, sip = ip, sport = Some port, srunning = Some True\<rparr>,
    secd = dummy_server\<rparr> (servers t')\<rparr>"
  have r: "register alive ip port content s = Ok
      (''P '' @ sip (prim p) @ '':'' @ to_string q @ '','' @
         concat (map (\<lambda>u. u @ '','') (filter (\<lambda>u. hash_str u < ?n) ?us)), s')"
    unfolding register_new [OF new(1)] t'(1) by (simp add: s'_def)
  note s' = register_ids [OF m new r]
  have I: "finite (set (ids s))" "set (ids s) \<noteq> {}" using low by auto
  have u: "hash_str u < ?n \<longleftrightarrow> server_of (hash_str u) s' = ?n"
    "\<not> hash_str u < ?n \<longleftrightarrow> server_of (hash_str u) s' = owner (set (ids s)) ?n" if "u \<in> set ?us" for u
  proof -
    note b = below_new_node [OF ok new(1) low high that]
    have o: "server_of (hash_str u) s' = owner (insert ?n (set (ids s))) (hash_str u)"
      using server_of_owner [OF s'(1,2), of "hash_str u"] hash_str_range [of u] s'(3) by simp
    show "hash_str u < ?n \<longleftrightarrow> server_of (hash_str u) s' = ?n" using b(2) o by simp
    show "\<not> hash_str u < ?n \<longleftrightarrow> server_of (hash_str u) s' = owner (set (ids s)) ?n"
      using b o owner_disruption [OF I, of ?n "hash_str u"] owner_in [OF I, of ?n] new(1) by auto
  qed
  have "filter (\<lambda>u. hash_str u < ?n) ?us = filter (\<lambda>u. server_of (hash_str u) s' = ?n) ?us"
    by (rule filter_cong) (use u(1) in auto)
  then show ?thesis
    using r t'(2) u(2) unfolding d by (intro exI [of _ s']) (auto simp: s'_def)
qed

text \<open>C26: A node registers with a new number that lies between two numbers of the ring, at a master
  that has recorded users, each under its node: the answer lists exactly those users of the next
  node whose look-up in the new ring gives the new node, and the master keeps exactly those under
  the next node whose look-up still gives the next node.\<close>

theorem hand_over_exact:
  assumes ok: "master_ok s" and new: "atoi content \<notin> set (ids s)" "0 \<le> atoi content" and some: "users s \<noteq> []"
    and low: "\<exists>i \<in> set (ids s). i < atoi content" and high: "\<exists>i \<in> set (ids s). atoi content < i"
    and p: "oget (servers s) (server_of (atoi content) s) = Some p" "sport (prim p) = Some q"
  shows "\<exists>s'. register alive ip port content s = Ok
      (''P '' @ sip (prim p) @ '':'' @ to_string q @ '','' @
         concat (map (\<lambda>u. u @ '','') (filter (\<lambda>u. server_of (hash_str u) s' = atoi content)
           (oset_list (oget_def [] (users s) (server_of (atoi content) s))))), s') \<and>
    (\<forall>u. u \<in> set (oset_list (oget_def [] (users s') (server_of (atoi content) s))) \<longleftrightarrow>
       u \<in> set (oset_list (oget_def [] (users s) (server_of (atoi content) s))) \<and>
       server_of (hash_str u) s' = server_of (atoi content) s)"
  using assms by (rule register_hands_over)

section \<open>What goes wrong\<close>

text \<open>A node number above all others takes users of the first node with it that stay there.\<close>

text \<open>For a new node above all others the same comparison selects users of the first node that stay
  with the first node.\<close>

theorem join_at_end_takes_too_many:
  assumes ok: "master_ok s" and last: "\<forall>i \<in> set (ids s). i < nid" and first: "hash_str u < Min (set (ids s))"
  shows "hash_str u < nid \<and> owner (set (ids s)) nid = Min (set (ids s)) \<and>
    owner (insert nid (set (ids s))) (hash_str u) = Min (set (ids s))"
proof -
  let ?I = "set (ids s)"
  have I: "finite ?I" "?I \<noteq> {}" using ok by (auto simp: master_ok_def ids_def okeys_def)
  have M: "Min ?I \<in> ?I" using I by simp
  then have "Min {i \<in> ?I. hash_str u < i} = Min ?I"
    using I first by (intro Min_eqI) auto
  then have "owner ?I (hash_str u) = Min ?I" by (auto simp: owner_def)
  moreover have "owner ?I nid = Min ?I"
    using last M by (auto simp: owner_def)
  ultimately show ?thesis
    using owner_insert [OF I, of nid "hash_str u"] last M first by auto
qed

text \<open>A lookup before the first registration adds a node \<open>-1\<close> to the ring.\<close>

text \<open>A look-up before any server has registered succeeds and registers the node number -1.\<close>

theorem early_lookup:
  "\<exists>rep s'. lookup_user alive u init_master = Ok (rep, s') \<and> ids s' = [- 1]"
  by (auto simp: lookup_user_def get_backend_info_def init_master_def server_of_def get_server_id_def okeys_def
      ids_def oget_def_def zero_pair_def zero_server_def check_server_state_def address_def port_text_def Let_def)

end
