(* ===== verification/KV_Identity.thy ===== *)
theory KV_Identity
  imports KV_Server Master
begin

text \<open>
  A storage node and the master: the answer to the registration of a node, as the master writes it
  and as the node reads it.
\<close>

section \<open>The users that move\<close>

definition moving_users :: "int \<Rightarrow> Master.master \<Rightarrow> string list" where
  "moving_users nid s =
     filter (\<lambda>u. hash_str u < nid) (oset_list (oget_def [] (users s) (owner (set (ids s)) nid)))"

lemma parse_address:
  assumes "CHR '':'' \<notin> set ip" "CHR '':'' \<notin> set r" "0 \<le> port" "port < 2 ^ 16" "r \<noteq> [] \<Longrightarrow> \<not> is_digit (hd r)"
  shows "parse_ip_and_port (ip @ '':'' @ to_string port @ r) [] = Ok (ip, port)"
proof -
  have "tokens (CHR '':'') (ip @ CHR '':'' # (to_string port @ r)) = ([ip], to_string port @ r)"
    using assms(1,2) by (simp add: tokens_cons tokens_none)
  moreover have "stoi (to_string port @ r) = Ok port"
    using assms by (intro stoi_to_string) (auto simp: in_i32_def)
  ultimately show ?thesis using assms(3,4) by (simp add: parse_ip_and_port_def)
qed

text \<open>The node takes two characters too many as the address; the number ends before them.\<close>

lemma confirm_migrating:
  assumes a: "NUL \<notin> set (ip @ us)" "CHR '':'' \<notin> set ip" "CHR '','' \<notin> set ip" "0 \<le> port" "port < 2 ^ 16"
    and us: "CHR '':'' \<notin> set us"
  shows "confirm_identity (''P '' @ ip @ '':'' @ to_string port @ '','' @ us) = Ok (Primary_migrating (ip, port) us)"
proof -
  let ?t = "''P '' @ ip @ '':'' @ to_string port"
  have s: "c_str (''P '' @ ip @ '':'' @ to_string port @ '','' @ us) = ?t @ CHR '','' # us"
    using a(1) by (simp add: c_str_id)
  have over: "substr (''P '' @ x @ y) 2 (length (''P '' @ x)) = Ok (x @ take 2 y)" for x y :: string
    by (simp add: substr_def numeral_2_eq_2)
  have "cut (CHR '','') (?t @ CHR '','' # us) = Some (?t, us)"
    using a(3) by (intro cut_append) simp
  moreover have "substr (?t @ CHR '','' # us) 2 (length ?t) =
      Ok (ip @ '':'' @ to_string port @ take 2 (CHR '','' # us))"
    using over [of "ip @ '':'' @ to_string port" "CHR '','' # us"] by (simp del: take_Suc_Cons)
  moreover have "parse_ip_and_port (ip @ '':'' @ to_string port @ take 2 (CHR '','' # us)) [] = Ok (ip, port)"
    using a us by (intro parse_address) (auto simp: is_digit_def dest: in_set_takeD)
  ultimately show ?thesis unfolding confirm_identity_def s by (simp add: Let_def)
qed

text \<open>What the node hands to the old one in its request, and the users the old one reads from it.\<close>

text \<open>C24: A new storage node understands the answer of the master to its registration when users are
  recorded and the answer fits into the 254 bytes the node reads: it takes the address of the node
  to contact and the list of the users to fetch from it, and these are the users whose hash is below
  its number. The address and the names of the users have no comma, colon or zero byte.\<close>

theorem join_reply_understood:
  assumes ok: "osorted (servers s)" "servers s \<noteq> []" "users s \<noteq> []" "0 \<le> nid"
    and p: "oget (servers s) (owner (set (ids s)) nid) = Some p" "sport (prim p) = Some port" "0 \<le> port" "port < 2 ^ 16"
    and ip: "NUL \<notin> set (sip (prim p))" "CHR '':'' \<notin> set (sip (prim p))" "CHR '','' \<notin> set (sip (prim p))"
    and names: "\<forall>u \<in> set (moving_users nid s). NUL \<notin> set u \<and> CHR '':'' \<notin> set u \<and> CHR '','' \<notin> set u"
    and short: "length (sip (prim p)) + length (to_string port) + sum_list (map (\<lambda>u. length u + 1) (moving_users nid s)) \<le> 250"
  shows "\<exists>rep s' list. join nid srv s = Ok (rep, \<lparr>prim = srv, secd = dummy_server\<rparr>, s') \<and>
    contact_master (\<lambda>_. rep) nid = Ok (Primary_migrating (sip (prim p), port) list) \<and>
    fst (tokens (CHR '','') list) = moving_users nid s"
proof -
  let ?us = "moving_users nid s" and ?list = "concat (map (\<lambda>u. u @ '','') (moving_users nid s))"
  let ?rep = "''P '' @ sip (prim p) @ '':'' @ to_string port @ '','' @ ?list"
  obtain s' where s': "join nid srv s = Ok (?rep, \<lparr>prim = srv, secd = dummy_server\<rparr>, s')"
    using join_hands_over_ok [OF ok p(1,2)] unfolding moving_users_def by blast
  have "length ?list = sum_list (map (\<lambda>u. length u + 1) ?us)" by (simp add: length_concat o_def)
  then have "take 254 ?rep = ?rep" using short by simp
  moreover have "NUL \<notin> set (sip (prim p) @ ?list)" "CHR '':'' \<notin> set ?list" using ip(1) names by auto
  then have "confirm_identity ?rep = Ok (Primary_migrating (sip (prim p), port) ?list)"
    using ip p(3,4) by (intro confirm_migrating) auto
  ultimately have "contact_master (\<lambda>_. ?rep) nid = Ok (Primary_migrating (sip (prim p), port) ?list)"
    by (simp only: contact_master_def)
  moreover have "fst (tokens (CHR '','') ?list) = ?us" using names tokens_join_all [of ?us "CHR '',''"] by simp
  ultimately show ?thesis using s' by blast
qed

section \<open>The end of a connection\<close>

text \<open>When the peer has closed its connection the loop of a worker thread never ends, in any state
  and for any number of rounds.\<close>

theorem worker_never_ends: "worker k n fd [] (False, s) = Fail OutOfFuel"
  by (induction k) simp_all

end
