(* ===== verification/Master_Examples.thy ===== *)
theory Master_Examples
  imports KV_Identity
begin

text \<open>
  The theorems about the master applied to one with the storage nodes 30000 and 60000: \<open>bob\<close>
  (25041) belongs to the first, \<open>ann\<close> (40327) to the second, and \<open>eve\<close> (23034) to the first.
\<close>

lemma hash_names: "hash_str ''ann'' = 40327" "hash_str ''bob'' = 25041" "hash_str ''eve'' = 23034"
  by code_simp+

definition machine :: "int \<Rightarrow> server" where
  "machine p = \<lparr>sid = Some 1, sip = ''10.0.0.1'', sport = Some p, srunning = Some True\<rparr>"

definition two_nodes :: master where
  "two_nodes =
     \<lparr>servers = [(30000, \<lparr>prim = machine 1, secd = machine 2\<rparr>), (60000, \<lparr>prim = machine 3, secd = machine 4\<rparr>)],
      users = [(30000, [(''bob'', ()), (''eve'', ())]), (60000, [(''ann'', ())])], server_index = []\<rparr>"

lemma two_nodes_ids: "set (ids two_nodes) = {30000, 60000}"
  by (simp add: two_nodes_def ids_def okeys_def)

lemma two_nodes_owner:
  "owner {30000, 60000} 40327 = 60000" "owner {30000, 60000} 25041 = 30000" "owner {30000, 60000} 23034 = 30000"
  "owner {30000, 60000} 50000 = 60000"
proof -
  have f: "{i. (i = 30000 \<or> i = 60000) \<and> (k::int) < i} = (if k < 30000 then {30000, 60000} else if k < 60000 then {60000} else {})" for k
    by auto
  show "owner {30000, 60000} 40327 = 60000" "owner {30000, 60000} 25041 = 30000" "owner {30000, 60000} 23034 = 30000"
    "owner {30000, 60000} 50000 = 60000"
    by (simp_all add: owner_def f)
qed

lemma two_nodes_ok: "master_ok two_nodes"
  unfolding master_ok_def two_nodes_ids
  by (auto simp: two_nodes_def osorted_Cons hash_names two_nodes_owner okeys_def split: if_splits)

lemma port_texts: "to_string 3 = ''3''" "to_string 4 = ''4''"
  by code_simp+

lemma two_nodes_servers:
  "oget (servers two_nodes) 60000 = Some \<lparr>prim = machine 3, secd = machine 4\<rparr>"
  "oget (servers two_nodes) 30000 = Some \<lparr>prim = machine 1, secd = machine 2\<rparr>"
  "osorted (servers two_nodes)" "servers two_nodes \<noteq> []" "users two_nodes \<noteq> []"
  "oget_def [] (users two_nodes) 60000 = [(''ann'', ())]"
  by (simp_all add: two_nodes_def osorted_Cons oget_def_def)

lemma machine_simps: "sport (machine p) = Some p" "sip (machine p) = ''10.0.0.1''"
  by (simp_all add: machine_def)

theorem lookup_alive_witness:
  "\<exists>s. lookup_user (\<lambda>ip p. True) ''ann'' two_nodes = Ok (''10.0.0.1:3'', s) \<and> master_ok s"
  using lookup_alive [OF two_nodes_ok, of "''ann''" "\<lparr>prim = machine 3, secd = machine 4\<rparr>" 3 "\<lambda>ip p. True"]
  by (auto simp: two_nodes_ids hash_names two_nodes_owner two_nodes_servers machine_simps port_texts)

theorem lookup_failover_witness:
  "\<exists>s. lookup_user (\<lambda>ip p. p \<noteq> 3) ''ann'' two_nodes = Ok (''10.0.0.1:4'', s) \<and>
    oget (servers s) 60000 = Some \<lparr>prim = machine 4, secd = dummy_server\<rparr> \<and>
    oget (servers s) 30000 = Some \<lparr>prim = machine 1, secd = machine 2\<rparr>"
  using lookup_failover [of two_nodes "''ann''" "\<lparr>prim = machine 3, secd = machine 4\<rparr>" 3 "\<lambda>ip p. p \<noteq> 3" 4]
  by (auto simp: two_nodes_ids hash_names two_nodes_owner two_nodes_servers machine_simps port_texts)

lemma two_nodes_server_of: "server_of 50000 two_nodes = 60000"
  by (simp add: server_of_def two_nodes_def get_server_id_def okeys_def)

lemma fifty_thousand: "atoi ''50000'' = 50000"
  by (simp add: atoi_def strtol_def read_digits_def is_space_def is_digit_def digit_value_def to_i32_def)

lemma between_two_nodes:
  "50000 \<notin> set (ids two_nodes)" "\<exists>i \<in> set (ids two_nodes). i < 50000" "\<exists>i \<in> set (ids two_nodes). 50000 < i"
  by (simp_all add: two_nodes_ids)

theorem hand_over_exact_witness:
  "\<exists>rep s. register (\<lambda>ip p. True) ''10.0.0.2'' 7 ''50000'' two_nodes = Ok (rep, s) \<and>
    (''ann'' \<in> set (oset_list (oget_def [] (users s) 60000)) \<longleftrightarrow> server_of (hash_str ''ann'') s = 60000)"
proof -
  have ann: "''ann'' \<in> set (oset_list (oget_def [] (users two_nodes) 60000))"
    by (simp add: two_nodes_servers okeys_def)
  have p: "0 \<le> (50000 :: int)" "sport (prim \<lparr>prim = machine 3, secd = machine 4\<rparr>) = Some 3"
    by (simp_all add: machine_simps)
  from hand_over_exact [of two_nodes "''50000''" _ _ "\<lambda>ip p. True" "''10.0.0.2''" 7, unfolded fifty_thousand two_nodes_server_of,
      OF two_nodes_ok between_two_nodes(1) p(1) two_nodes_servers(5) between_two_nodes(2,3) two_nodes_servers(1) p(2)]
  show ?thesis using ann by (elim exE conjE) blast
qed

theorem new_node_moves_no_other_key_witness:
  "\<exists>rep s. register (\<lambda>ip p. True) ''10.0.0.2'' 7 ''50000'' two_nodes = Ok (rep, s) \<and>
    (server_of 40327 s = server_of 40327 two_nodes \<or> server_of 40327 s = 50000)"
proof -
  have p: "0 \<le> (50000 :: int)" "0 \<le> (40327 :: int)" "sport (prim \<lparr>prim = machine 3, secd = machine 4\<rparr>) = Some 3"
    by (simp_all add: machine_simps)
  from register_hands_over [of two_nodes "''50000''" _ _ "\<lambda>ip p. True" "''10.0.0.2''" 7, unfolded fifty_thousand two_nodes_server_of,
      OF two_nodes_ok between_two_nodes(1) p(1) two_nodes_servers(5) between_two_nodes(2,3) two_nodes_servers(1) p(3)]
  obtain rep s where r: "register (\<lambda>ip p. True) ''10.0.0.2'' 7 ''50000'' two_nodes = Ok (rep, s)" by blast
  show ?thesis
    using new_node_moves_no_other_key [of two_nodes "''50000''", unfolded fifty_thousand,
        OF two_nodes_servers(3,4) between_two_nodes(1) p(1) r p(2)] r
    by blast
qed

theorem join_hands_over_witness:
  "\<exists>s. join 50000 (machine 9) two_nodes =
      Ok (''P 10.0.0.1:3,ann,'', \<lparr>prim = machine 9, secd = dummy_server\<rparr>, s) \<and>
    servers s = servers two_nodes \<and> set (oset_list (oget_def [] (users s) 60000)) = {}"
proof -
  have o: "owner (set (ids two_nodes)) 50000 = 60000" by (simp only: two_nodes_ids two_nodes_owner)
  have u: "oset_list (oget_def [] (users two_nodes) 60000) = [''ann'']"
    by (simp add: two_nodes_servers okeys_def)
  have t: "''P '' @ sip (prim \<lparr>prim = machine 3, secd = machine 4\<rparr>) @ '':'' @ to_string 3 @ '','' @
      concat (map (\<lambda>u. u @ '','') (filter (\<lambda>u. hash_str u < 50000) [''ann''])) = ''P 10.0.0.1:3,ann,''"
    by (simp add: machine_simps port_texts hash_names)
  have v: "u \<in> set [''ann''] \<and> \<not> hash_str u < 50000 \<longleftrightarrow> False" for u
    by (cases "u = ''ann''") (simp_all add: hash_names)
  from join_hands_over [OF two_nodes_servers(3,4), of 50000 "\<lparr>prim = machine 3, secd = machine 4\<rparr>" 3 "machine 9",
      unfolded o u t v]
  show ?thesis by (simp add: two_nodes_servers(1,5) machine_simps)
qed

theorem join_at_end_takes_too_many_witness:
  "hash_str ''bob'' < 70000 \<and> owner {70000, 30000, 60000} (hash_str ''bob'') = 30000"
  using join_at_end_takes_too_many [OF two_nodes_ok, of 70000 "''bob''"]
  by (auto simp: two_nodes_ids hash_names)

theorem join_reply_understood_witness:
  "\<exists>rep s' list. join 50000 (machine 5) two_nodes = Ok (rep, \<lparr>prim = machine 5, secd = dummy_server\<rparr>, s') \<and>
     contact_master (\<lambda>_. rep) 50000 = Ok (Primary_migrating (''10.0.0.1'', 3) list) \<and>
     fst (tokens (CHR '','') list) = [''ann'']"
proof -
  have o: "owner (set (ids two_nodes)) 50000 = 60000" by (simp add: two_nodes_ids two_nodes_owner)
  have m: "moving_users 50000 two_nodes = [''ann'']"
    unfolding moving_users_def o by (simp add: two_nodes_def oget_def_def okeys_def hash_names)
  from join_reply_understood [OF two_nodes_servers(3,4,5), of 50000 "\<lparr>prim = machine 3, secd = machine 4\<rparr>" 3 "machine 5",
      unfolded o m]
  show ?thesis by (simp add: two_nodes_servers(1) machine_simps port_texts)
qed

end
