(* ===== verification/Mail_Conn.thy ===== *)
theory Mail_Conn
  imports Cpp_String
begin

text \<open>
  The buffered connection of the mail programs (\<open>webmail/webmail_utils.cc\<close>, and once more in
  \<open>webmail/client_def.cc\<close>): writing strings, reading lines, and comparing them with a pattern.

  \<^item> \<open>pending\<close> holds what the coming calls of \<open>read\<close> return, one element each; the empty text is
    a read that returns nothing, which is the end of the connection when the read blocks. A read
    that has less room than there are bytes leaves the rest for the next one.
  \<^item> \<open>written\<close> are the bytes sent, \<open>printed\<close> the text on standard output. Errors of \<open>write\<close> and
    \<open>read\<close> are not modelled; \<open>panic\<close> ends the process.
  \<^item> \<open>isprint\<close> is that of the C locale.
  \<^item> The buffer is the bytes in use. \<open>Client_Conn\<close> has the same code on the block of memory, and
    proves that the two agree as long as an expected text is shorter than the block; beyond that,
    \<open>expectToRead\<close> can read one byte behind the block.
\<close>

section \<open>The connection\<close>

record connection =
  buf :: string
  buffer_size :: nat
  pending :: "string list"
  written :: string
  printed :: string

definition panic :: "'a res" where "panic = Fail (Exit 1)"

definition initialize_buffers :: "nat \<Rightarrow> string list \<Rightarrow> connection" where
  "initialize_buffers sz input =
     \<lparr>buf = [], buffer_size = sz, pending = input, written = [], printed = []\<rparr>"

definition read_some :: "nat \<Rightarrow> connection \<Rightarrow> string \<times> connection" where
  "read_some n c =
     (case pending c of
        [] \<Rightarrow> ([], c)
      | p # ps \<Rightarrow> (take n p, c\<lparr>pending := (if n < length p then drop n p # ps else ps)\<rparr>))"

section \<open>Printing\<close>

definition hex_char :: "nat \<Rightarrow> char" where
  "hex_char n = (if n < 10 then char_of (48 + n) else char_of (55 + n))"

definition log_char :: "char \<Rightarrow> string" where
  "log_char c =
     (let n = (of_char c :: nat) in
      if c = LF then ''<LF>'' else if c = CR then ''<CR>''
      else if 32 \<le> n \<and> n < 127 then [c]
      else ''<0x'' @ [hex_char (n div 16), hex_char (n mod 16)] @ ''>'')"

definition log_text :: "string \<Rightarrow> string \<Rightarrow> string \<Rightarrow> connection \<Rightarrow> connection" where
  "log_text pre data post c = c\<lparr>printed := printed c @ pre @ concat (map log_char data) @ post\<rparr>"

section \<open>Writing\<close>

definition write_string :: "string \<Rightarrow> connection \<Rightarrow> connection" where
  "write_string data c =
     (let c = log_text ''C: '' (c_str data) [LF] c in c\<lparr>written := written c @ c_str data\<rparr>)"

section \<open>Reading\<close>

text \<open>Read until the buffer has a line feed.\<close>

function fill :: "connection \<Rightarrow> connection res" where
  "fill c =
     (if LF \<in> set (buf c) then Ok c
      else if buffer_size c \<le> length (buf c) then panic
      else let (s, d) = read_some (buffer_size c - length (buf c)) c
           in if s = [] then panic else fill (d\<lparr>buf := buf c @ s\<rparr>))"
  by auto
termination
proof (relation "measure (\<lambda>c. buffer_size c - length (buf c))")
  fix c s d and x :: "string \<times> connection"
  assume "\<not> buffer_size c \<le> length (buf c)" "x = read_some (buffer_size c - length (buf c)) c" "(s, d) = x" "s \<noteq> []"
  moreover from this have "0 < length s" by simp
  ultimately show "(d\<lparr>buf := buf c @ s\<rparr>, c) \<in> measure (\<lambda>c. buffer_size c - length (buf c))"
    by (auto simp: read_some_def simp del: length_greater_0_conv split: list.splits)
qed simp

declare fill.simps [simp del]

text \<open>The line in front of the first line feed, whether a CR came before it, and the rest.\<close>

definition first_line :: "string \<Rightarrow> string \<times> bool \<times> string" where
  "first_line s =
     (case cut LF s of
        None \<Rightarrow> (s, False, [])
      | Some (l, r) \<Rightarrow> if l \<noteq> [] \<and> last l = CR then (butlast l, True, r) else (l, False, r))"

definition do_read :: "connection \<Rightarrow> connection res" where
  "do_read c =
     rbind (fill c) (\<lambda>c.
     let n = length (buf c) - length (snd (snd (first_line (buf c))))
     in Ok ((log_text ''S: '' (take n (buf c)) [] c)\<lparr>buf := drop n (buf c)\<rparr>))"

text \<open>A pattern may end in an asterisk, which matches the rest of the line.\<close>

fun matches :: "string \<Rightarrow> string \<Rightarrow> bool" where
  "matches [] s \<longleftrightarrow> s = []"
| "matches (d # ds) s \<longleftrightarrow>
     (if d = CHR ''*'' then True else case s of [] \<Rightarrow> False | c # s \<Rightarrow> d = c \<and> matches ds s)"

definition expect_to_read :: "string \<Rightarrow> connection \<Rightarrow> (bool \<times> connection) res" where
  "expect_to_read data c =
     rbind (fill c) (\<lambda>c.
     let (line, cr, rest) = first_line (buf c);
         n = length (buf c) - length rest;
         ok = matches (c_str data) (c_str line);
         c = log_text ''S: '' (take n (buf c)) [] c;
         c = (if ok then log_text (if cr then '' [OK]'' @ [LF] else '' [Terminated by LF, not by CRLF]'' @ [LF]) [] [] c
              else log_text ('' [Expected: '' @ [CHR 0x27]) (c_str data) (CHR 0x27 # '']'' @ [LF]) c)
     in Ok (ok, c\<lparr>buf := rest\<rparr>))"

definition expect_no_more_data :: "connection \<Rightarrow> connection" where
  "expect_no_more_data c =
     (let (s, d) = read_some (buffer_size c - length (buf c)) c; b = buf c @ s in
      if b = [] then d
      else (log_text ''S: '' b ('' [unexpected; server should not have sent anything!]'' @ [LF]) d)\<lparr>buf := []\<rparr>)"

definition expect_remote_close :: "connection \<Rightarrow> connection" where
  "expect_remote_close c =
     (let (s, d) = read_some (buffer_size c - length (buf c)) c in
      if s = [] then d
      else (log_text ''S: '' (buf c @ s) ('' [unexpected; server should have closed the connection]'' @ [LF]) d)\<lparr>buf := []\<rparr>)"

section \<open>Lines do not depend on how they arrive\<close>

definition input_of :: "connection \<Rightarrow> string" where
  "input_of c = buf c @ concat (pending c)"

text \<open>However the bytes are cut into reads, as long as the line fits.\<close>

lemma fill_line:
  assumes "[] \<notin> set (pending c)" and "input_of c = l @ LF # r" and "LF \<notin> set l"
    and "length l < buffer_size c" and "length (buf c) \<le> buffer_size c"
  shows "\<exists>d b. fill c = Ok d \<and> buf d = l @ LF # b \<and> b @ concat (pending d) = r \<and>
    [] \<notin> set (pending d) \<and> length (buf d) \<le> buffer_size d \<and>
    buffer_size d = buffer_size c \<and> written d = written c \<and> printed d = printed c"
  using assms
proof (induction c rule: fill.induct)
  case (1 c)
  show ?case
  proof (cases "LF \<in> set (buf c)")
    case True
    then obtain x y where x: "buf c = x @ LF # y" "LF \<notin> set x" by (meson split_list_first)
    have e: "cut LF (x @ LF # y @ concat (pending c)) = cut LF (l @ LF # r)"
      using x 1(3) by (simp add: input_of_def)
    have "x = l" "y @ concat (pending c) = r"
      using e by (simp_all add: cut_append x(2) 1(4))
    then show ?thesis using True x 1 by (intro exI [of _ c] exI [of _ y]) (simp add: fill.simps [of c])
  next
    case False
    let ?n = "buffer_size c - length (buf c)"
    have n: "length (buf c) < buffer_size c"
    proof (rule ccontr)
      assume "\<not> length (buf c) < buffer_size c"
      then obtain k where k: "length (buf c) = length l + Suc k"
        using 1(5,6) less_imp_Suc_add [of "length l" "length (buf c)"] by auto
      have "buf c = take (length (buf c)) (l @ LF # r)" using 1(3) by (metis append_eq_conv_conj input_of_def)
      also have "LF \<in> set \<dots>" unfolding k by simp
      finally have "LF \<in> set (buf c)" .
      then show False using False by simp
    qed
    obtain p ps where p: "pending c = p # ps" "p \<noteq> []"
      using 1(2,3) False by (cases "pending c") (auto simp: input_of_def)
    define d where "d = c\<lparr>pending := (if ?n < length p then drop ?n p # ps else ps)\<rparr>"
    have r: "read_some ?n c = (take ?n p, d)" by (simp add: read_some_def p d_def)
    have "take ?n p \<noteq> []" using n p by simp
    then have f: "fill c = fill (d\<lparr>buf := buf c @ take ?n p\<rparr>)"
      using n r False by (subst fill.simps) simp
    have "input_of (d\<lparr>buf := buf c @ take ?n p\<rparr>) = l @ LF # r"
      using 1(3) by (simp add: input_of_def d_def p) (metis append.assoc append_take_drop_id)
    moreover have "[] \<notin> set (pending (d\<lparr>buf := buf c @ take ?n p\<rparr>))" using 1(2) by (auto simp: d_def p)
    ultimately show ?thesis
      unfolding f using 1(1) [OF False _ r [symmetric] refl] n 1(4,5) p by (simp add: d_def)
  qed
qed

lemma matches_iff:
  "CHR ''*'' \<notin> set p \<Longrightarrow> matches p s \<longleftrightarrow> s = p"
  "CHR ''*'' \<notin> set p \<Longrightarrow> matches (p @ CHR ''*'' # q) s \<longleftrightarrow> prefix p s"
  by (induction p s rule: matches.induct) (auto split: list.splits)

lemma log_text_simps [simp]:
  "buf (log_text p t q c) = buf c" "pending (log_text p t q c) = pending c"
  "written (log_text p t q c) = written c" "buffer_size (log_text p t q c) = buffer_size c"
  by (simp_all add: log_text_def)

text \<open>Reading a line from the buffered connection consumes exactly the bytes up to the line end,
  however they were split into reads, and compares the line with the expected pattern.\<close>

theorem expect_to_read_line:
  assumes "[] \<notin> set (pending c)" and "input_of c = l @ crlf @ r" and "LF \<notin> set l"
    and "Suc (length l) < buffer_size c" and "length (buf c) \<le> buffer_size c"
  shows "\<exists>d. expect_to_read data c = Ok (matches (c_str data) (c_str l), d) \<and> input_of d = r \<and>
    written d = written c \<and> [] \<notin> set (pending d) \<and> length (buf d) \<le> buffer_size d"
proof -
  obtain d b where d: "fill c = Ok d" "buf d = (l @ [CR]) @ LF # b" "b @ concat (pending d) = r"
    "[] \<notin> set (pending d)" "length (buf d) \<le> buffer_size d" "written d = written c"
    using fill_line [of c "l @ [CR]" r] assms by auto
  have "cut LF (buf d) = Some (l @ [CR], b)" unfolding d(2) using assms(3) by (intro cut_append) simp
  then have "first_line (buf d) = (l, True, b)" by (simp add: first_line_def)
  then show ?thesis
    using d by (simp add: expect_to_read_def Let_def input_of_def)
qed

end
