(* ===== verification/Front_Utils.thy ===== *)
theory Front_Utils
  imports KV_Tools
begin

text \<open>
  The helpers of the web front end (\<open>frontend/utils.cc\<close>): reading lines from a connection,
  splitting, replacing and decoding text, and taking an uploaded file out of a form.

  A connection is the text still to be read from it; its end is the end of the text. The helpers
  that look at the local directory take the file system of \<open>KV_Tools\<close>.
\<close>

section \<open>Reading lines\<close>

text \<open>
  A line ends at CR LF or at LF. A CR that is not followed by LF stays in the line, and the
  character after it is lost.
\<close>

fun read_line_from :: "string \<Rightarrow> string \<Rightarrow> string \<times> string" where
  "read_line_from line [] = (line, [])"
| "read_line_from line [c] =
     (if c = CR then (line @ [c], []) else if c = LF then (line, []) else (line @ [c], []))"
| "read_line_from line (c # d # s) =
     (if c = CR then (if d = LF then (line, s) else read_line_from (line @ [c]) s)
      else if c = LF then (line, d # s)
      else read_line_from (line @ [c]) (d # s))"

definition read_line :: "string \<Rightarrow> string \<times> string" where
  "read_line input = read_line_from [] input"

text \<open>The lines of a backend end at CR LF only.\<close>

fun read_rep_line_from :: "string \<Rightarrow> string \<Rightarrow> string \<times> string" where
  "read_rep_line_from line [] = (line, [])"
| "read_rep_line_from line [c] = (line @ [c], [])"
| "read_rep_line_from line (c # d # s) =
     (if c = CR then (if d = LF then (line, s) else read_rep_line_from (line @ [c]) s)
      else read_rep_line_from (line @ [c]) (d # s))"

definition read_rep_line :: "string \<Rightarrow> string \<times> string" where
  "read_rep_line input = read_rep_line_from [] input"

lemma read_line_from_rest: "length (snd (read_line_from line s)) \<le> length s - 1"
  by (induction line s rule: read_line_from.induct) auto

lemma read_line_rest: "length (snd (read_line s)) \<le> length s - 1"
  unfolding read_line_def by (rule read_line_from_rest)

lemma read_line_from_crlf:
  "CR \<notin> set t \<Longrightarrow> LF \<notin> set t \<Longrightarrow> read_line_from line (t @ CR # LF # r) = (line @ t, r)"
proof (induction t arbitrary: line)
  case (Cons c t)
  obtain d u where u: "t @ CR # LF # r = d # u" by (cases "t @ CR # LF # r") auto
  then have "read_line_from line (c # t @ CR # LF # r) = read_line_from (line @ [c]) (t @ CR # LF # r)"
    using Cons.prems by (auto simp: u)
  then show ?case using Cons.IH [of "line @ [c]"] Cons.prems by simp
qed simp

lemma read_line_crlf [simp]:
  "CR \<notin> set t \<Longrightarrow> LF \<notin> set t \<Longrightarrow> read_line (t @ CR # LF # r) = (t, r)"
  by (simp add: read_line_def read_line_from_crlf)

lemma read_rep_line_from_crlf:
  "CR \<notin> set t \<Longrightarrow> read_rep_line_from line (t @ CR # LF # r) = (line @ t, r)"
proof (induction t arbitrary: line)
  case (Cons c t)
  obtain d u where u: "t @ CR # LF # r = d # u" by (cases "t @ CR # LF # r") auto
  then have "read_rep_line_from line (c # t @ CR # LF # r) = read_rep_line_from (line @ [c]) (t @ CR # LF # r)"
    using Cons.prems by (auto simp: u)
  then show ?case using Cons.IH [of "line @ [c]"] Cons.prems by simp
qed simp

lemma read_rep_line_crlf [simp]: "CR \<notin> set t \<Longrightarrow> read_rep_line (t @ CR # LF # r) = (t, r)"
  by (simp add: read_rep_line_def read_rep_line_from_crlf)

lemma read_rep_line_Nil [simp]: "read_rep_line [] = ([], [])"
  by (simp add: read_rep_line_def)

section \<open>Splitting and replacing\<close>

definition split_at :: "string \<Rightarrow> char \<Rightarrow> string list" where
  "split_at s delim = getlines delim s"

text \<open>\<open>v.at(i)\<close>\<close>

definition at :: "'a list \<Rightarrow> nat \<Rightarrow> 'a res" where
  "at v i = (if i < length v then Ok (v ! i) else Fail OutOfRange)"

lemma at_simps [simp]: "at (x # xs) 0 = Ok x" "at (x # xs) (Suc i) = at xs i" "at [] i = Fail OutOfRange"
  by (simp_all add: at_def)

function replace_all :: "string \<Rightarrow> string \<Rightarrow> string \<Rightarrow> string" where
  "replace_all str from to =
     (if from = [] then str
      else case sfind from str of
             None \<Rightarrow> str
           | Some i \<Rightarrow> take i str @ to @ replace_all (drop (i + length from) str) from to)"
  by auto
termination
proof (relation "measure (\<lambda>(str, from, to). length str)")
  fix str "from" :: string and i
  assume "from \<noteq> []" "sfind from str = Some i"
  then have "prefix from (drop i str)" using sfind_Some by blast
  then have "length from \<le> length (drop i str)" by (rule prefix_length_le)
  moreover have "0 < length from" using \<open>from \<noteq> []\<close> by simp
  ultimately have "length str - (i + length from) < length str" unfolding length_drop by linarith
  then show "((drop (i + length from) str, from, to), str, from, to)
      \<in> measure (\<lambda>(str, from, to). length str)" for to :: string by auto
qed simp

declare replace_all.simps [simp del]

text \<open>\<open>sscanf("%x")\<close> on the two characters after a percent sign.\<close>

definition hex_digit :: "char \<Rightarrow> int option" where
  "hex_digit c =
     (let n = (of_char c :: nat) in
      if 48 \<le> n \<and> n \<le> 57 then Some (int n - 48)
      else if 97 \<le> n \<and> n \<le> 102 then Some (int n - 87)
      else if 65 \<le> n \<and> n \<le> 70 then Some (int n - 55)
      else None)"

fun hex_value :: "int \<Rightarrow> string \<Rightarrow> int" where
  "hex_value a [] = a"
| "hex_value a (c # s) = (case hex_digit c of None \<Rightarrow> a | Some d \<Rightarrow> hex_value (16 * a + d) s)"

definition scan_hex :: "string \<Rightarrow> int option" where
  "scan_hex s =
     (let t = dropWhile is_space s;
          (sign, u) = (case t of c # r \<Rightarrow> if c = CHR ''-'' then (- 1, r) else if c = CHR ''+'' then (1, r) else (1, t)
                       | [] \<Rightarrow> (1, t))
      in if u = [] \<or> hex_digit (hd u) = None \<or> u = ''0x'' \<or> u = ''0X'' then None
         else Some (sign * hex_value 0 u))"

text \<open>\<open>ii\<close> keeps its last value when nothing is scanned, and has none at first.\<close>

fun url_decode_from :: "int option \<Rightarrow> string \<Rightarrow> string res" where
  "url_decode_from ii [] = Ok []"
| "url_decode_from ii (c # s) =
     (if c = CHR ''%'' then
        (let ii = (case scan_hex (c_str (take 2 s)) of None \<Rightarrow> ii | Some n \<Rightarrow> Some n)
         in rbind (of_option Undefined ii) (\<lambda>n.
            rbind (url_decode_from ii (drop 2 s)) (\<lambda>r. Ok (char_of (n mod 256) # r))))
      else rbind (url_decode_from ii s) (\<lambda>r. Ok (c # r)))"

definition url_decode :: "string \<Rightarrow> string res" where
  "url_decode str = url_decode_from None str"

section \<open>Uploads\<close>

text \<open>\<open>find\<close> yields \<open>npos\<close>, and the sums and differences with it wrap around.\<close>

definition extract_file_content :: "string \<Rightarrow> string res" where
  "extract_file_content req_body =
     rbind (substr_from req_body (case sfind (crlf @ crlf) req_body of None \<Rightarrow> 3 | Some i \<Rightarrow> i + 4)) (\<lambda>b.
     Ok (case sfind ''----'' b of
           None \<Rightarrow> b
         | Some i \<Rightarrow> if i < 2 then b else take (i - 2) b))"

definition extract_file_name :: "string \<Rightarrow> string res" where
  "extract_file_name req_body =
     rbind (substr_from req_body (case sfind ''filename=\"'' req_body of None \<Rightarrow> 9 | Some i \<Rightarrow> i + 10)) (\<lambda>b.
     Ok (case sfind ''\"'' b of None \<Rightarrow> b | Some i \<Rightarrow> take i b))"

section \<open>Files\<close>

text \<open>
  \<open>debug\<close> takes its text as a \<open>printf\<close> format. A percent sign that is not doubled asks for an
  argument that is not there.
\<close>

fun format_ok :: "string \<Rightarrow> bool" where
  "format_ok [] \<longleftrightarrow> True"
| "format_ok [c] \<longleftrightarrow> c \<noteq> CHR ''%''"
| "format_ok (c # d # s) \<longleftrightarrow>
     (if c = CHR ''%'' then d = CHR ''%'' \<and> format_ok s else format_ok (d # s))"

definition debug_text :: "string \<Rightarrow> unit res" where
  "debug_text s = (if format_ok (c_str s) then Ok () else Fail Undefined)"

definition store_file :: "string \<Rightarrow> string \<Rightarrow> string \<Rightarrow> fsys \<Rightarrow> fsys res" where
  "store_file dir filename content f =
     rbind (debug_text (dir @ filename)) (\<lambda>_.
     Ok (if can_create f (dir @ filename) then oupd (dir @ filename) (File content) f else f))"

definition list_all_files :: "string \<Rightarrow> fsys \<Rightarrow> string list" where
  "list_all_files dir f =
     (if dir_exists f dir then filter (\<lambda>n. take 1 n \<noteq> ''.'') (entries f dir) else [])"

definition is_file_exist :: "string \<Rightarrow> fsys \<Rightarrow> bool" where
  "is_file_exist filename f \<longleftrightarrow> oget f filename \<noteq> None"

definition get_file_content_as_string :: "string \<Rightarrow> fsys \<Rightarrow> string" where
  "get_file_content_as_string filename f = (case file_content f filename of None \<Rightarrow> [] | Some c \<Rightarrow> c)"

definition file_size :: "string \<Rightarrow> fsys \<Rightarrow> int" where
  "file_size filename f = (case file_content f filename of None \<Rightarrow> - 1 | Some c \<Rightarrow> int (length c))"

end
