(* ===== verification/Front_Store.thy ===== *)
theory Front_Store
  imports Front_Utils
begin

text \<open>
  The front end as a client of the storage (\<open>frontend/store.cc\<close>). \<open>send_to_backend\<close> asks the
  master for the address of a user, sends one request there and reads lines until the marker of
  the end. The master and the backend are parameters: \<open>master\<close> gives the text of its datagram,
  \<open>backend\<close> takes the address and the request and gives the bytes it sends before it closes.

  \<^item> The datagram of the master is read into fifty bytes; a port has sixteen bits.
  \<^item> At the end of the connection \<open>read_rep_line\<close> yields empty lines, so the loop that waits for a
    marker that never came does not end. \<open>reply_lines\<close> takes fuel; running out of it for every
    fuel is that behaviour.
\<close>

section \<open>One request\<close>

definition done_marker :: string where "done_marker = ''!!!DONE!!!''"

fun reply_lines :: "nat \<Rightarrow> string \<Rightarrow> string \<Rightarrow> string \<Rightarrow> string list res" where
  "reply_lines 0 stop line input = Fail OutOfFuel"
| "reply_lines (Suc n) stop line input =
     (if line = stop then Ok []
      else rbind (reply_lines n stop (fst (read_rep_line input)) (snd (read_rep_line input)))
             (\<lambda>ls. Ok (line # ls)))"

definition read_reply :: "nat \<Rightarrow> string \<Rightarrow> string \<Rightarrow> string list res" where
  "read_reply n message input =
     (let (line, rest) = read_rep_line input in
      if line = done_marker then Ok []
      else if take 7 message = ''getlist'' then reply_lines n ('','' @ done_marker) line rest
      else reply_lines n done_marker line rest)"

type_synonym backend = "string \<Rightarrow> int \<Rightarrow> string \<Rightarrow> string"

definition send_to_backend ::
    "nat \<Rightarrow> (string \<Rightarrow> string) \<Rightarrow> backend \<Rightarrow> string \<Rightarrow> string \<Rightarrow> string list res" where
  "send_to_backend n master backend message username =
     (let tokens = split_at (c_str (take 49 (master (''?'' @ username)))) (CHR '':'') in
      rbind (at tokens 1) (\<lambda>port.
      rbind (at tokens 0) (\<lambda>ip.
      read_reply n message (backend ip (atoi port mod 2 ^ 16) (c_str message)))))"

section \<open>Users and sessions\<close>

text \<open>\<open>send_to_backend\<close> on a state of the storage.\<close>

type_synonym 'b send = "string \<Rightarrow> string \<Rightarrow> 'b \<Rightarrow> (string list \<times> 'b) res"

definition add_user_message :: "string \<Rightarrow> string \<Rightarrow> string" where
  "add_user_message username password = ''put '' @ username @ '',pwd,'' @ password @ crlf"

definition get_user_message :: "string \<Rightarrow> string" where
  "get_user_message username = ''get '' @ username @ '',pwd'' @ crlf"

definition is_user_exist :: "(string \<Rightarrow> string \<Rightarrow> string list res) \<Rightarrow> string \<Rightarrow> bool res" where
  "is_user_exist send username =
     rbind (send (get_user_message username) username) (\<lambda>rep.
     rbind (at rep 0) (\<lambda>l. Ok (take 3 l = ''+OK'')))"

definition is_login_valid :: "(string \<Rightarrow> string \<Rightarrow> string list res) \<Rightarrow> string \<Rightarrow> string \<Rightarrow> bool res" where
  "is_login_valid send username password =
     rbind (send (get_user_message username) username) (\<lambda>rep.
     rbind (at rep 0) (\<lambda>l.
     if take 3 l = ''+OK'' then rbind (at rep 1) (\<lambda>p. Ok (p = password)) else Ok False))"

text \<open>The time of creation is stored and never read; the sessions are the set of their names.\<close>

definition add_session :: "string \<Rightarrow> string oset \<Rightarrow> string oset" where
  "add_session sid sessions = oset_add sid sessions"

definition delete_session :: "string \<Rightarrow> string oset \<Rightarrow> string oset" where
  "delete_session sid sessions = odel sid sessions"

definition is_session_valid :: "string \<Rightarrow> string oset \<Rightarrow> bool" where
  "is_session_valid sid sessions \<longleftrightarrow> oget sessions sid \<noteq> None"

section \<open>What the reply loop yields\<close>

text \<open>The lines of a reply in which the marker is the last one.\<close>

lemma reply_lines_ok:
  assumes "\<And>t. t \<in> set ts \<Longrightarrow> t \<noteq> stop \<and> CR \<notin> set t" and "CR \<notin> set stop" and "length ts < n"
  shows "reply_lines n stop (fst (read_rep_line (concat (map (\<lambda>t. t @ crlf) ts) @ stop @ crlf @ r)))
    (snd (read_rep_line (concat (map (\<lambda>t. t @ crlf) ts) @ stop @ crlf @ r))) = Ok ts"
  using assms
proof (induction ts arbitrary: n)
  case Nil
  then obtain m where "n = Suc m" by (cases n) auto
  then show ?case using Nil by simp
next
  case (Cons t ts)
  then obtain m where "n = Suc m" "length ts < m" by (cases n) auto
  then show ?case using Cons by simp
qed

lemma read_reply_ok:
  assumes "\<And>t. t \<in> set ts \<Longrightarrow> t \<noteq> done_marker \<and> CR \<notin> set t"
    and "take 7 message \<noteq> ''getlist''" and "length ts < n"
  shows "read_reply n message (concat (map (\<lambda>t. t @ crlf) ts) @ done_marker @ crlf) = Ok ts"
proof (cases ts)
  case Nil
  have "read_rep_line (done_marker @ crlf) = (done_marker, [])"
    using read_rep_line_crlf [of done_marker "[]"] by (simp add: done_marker_def)
  then show ?thesis by (simp add: read_reply_def Nil)
next
  case (Cons t us)
  have m: "CR \<notin> set done_marker" by (simp add: done_marker_def)
  let ?in = "concat (map (\<lambda>t. t @ crlf) ts) @ done_marker @ crlf"
  have "fst (read_rep_line ?in) \<noteq> done_marker" using assms(1) Cons by simp
  then show ?thesis
    using reply_lines_ok [of ts done_marker n "[]"] assms m
    by (simp add: read_reply_def split_beta Let_def)
qed

text \<open>The reply loop of send_to_backend returns exactly the lines the storage server sent before
  its end marker.\<close>

theorem read_reply_lines:
  assumes "\<And>t. t \<in> set ts \<Longrightarrow> t \<noteq> done_marker \<and> CR \<notin> set t"
    and "take 7 message \<noteq> ''getlist''" and "length ts < n"
  shows "read_reply n message (concat (map (\<lambda>t. t @ crlf) ts) @ done_marker @ crlf) = Ok ts"
  using assms by (rule read_reply_ok)

text \<open>Waiting for a marker the rest of the input does not have.\<close>

lemma reply_lines_hang:
  "stop \<noteq> [] \<Longrightarrow> reply_lines n stop [] [] = Fail OutOfFuel"
  by (induction n) simp_all

text \<open>The error reply to a getlist request never ends the reply loop of the front end, with any
  number of rounds.\<close>

theorem getlist_error_hangs:
  "read_reply n (''getlist '' @ user @ '',email'' @ crlf)
     (''-ERR User not exist'' @ crlf @ done_marker @ crlf) = Fail OutOfFuel"
proof -
  have l: "read_rep_line (''-ERR User not exist'' @ crlf @ done_marker @ crlf) =
      (''-ERR User not exist'', done_marker @ crlf)" "read_rep_line (done_marker @ crlf) = (done_marker, [])"
    using read_rep_line_crlf [of "''-ERR User not exist''" "done_marker @ crlf"]
      read_rep_line_crlf [of done_marker "[]"] by (simp_all add: done_marker_def)
  have h: "reply_lines m ('','' @ done_marker) [] [] = Fail OutOfFuel" for m
    by (rule reply_lines_hang) simp
  have d: "reply_lines m ('','' @ done_marker) done_marker [] = Fail OutOfFuel" for m
    using h by (cases m) (simp_all add: done_marker_def)
  have "reply_lines n ('','' @ done_marker) ''-ERR User not exist'' (done_marker @ crlf) = Fail OutOfFuel"
    using d l(2) by (cases n) (simp_all add: done_marker_def)
  then show ?thesis using l(1) by (simp add: read_reply_def done_marker_def)
qed

end
