(* ===== verification/Mail_Server.thy ===== *)
theory Mail_Server
  imports Mail_Conn Front_Store
begin

text \<open>
  The mail server (\<open>webmail/webmail_server.cc\<close>, the handlers in \<open>webmail_utils.cc\<close>). A session is the
  text a client sends; a step takes one command from it, and the lines of a mail that follow it.

  \<^item> Parameters: \<open>send\<close> (\<open>send_to_backend\<close> of the front end), \<open>md5\<close>, and \<open>remote\<close>, which finds a mail
    host in the DNS, connects, and gives what the host sends. \<open>over\<close> are the bytes behind the
    arrays \<open>cmp_helo\<close> etc.: \<open>strncpy\<close> fills them without a terminator and \<open>strcasecmp\<close> reads on.
  \<^item> \<open>read_command\<close> looks at \<open>buf[-1]\<close> and \<open>buf[-2]\<close> before the first bytes are there; the model takes
    these not to be LF and CR. At the end of the input \<open>read\<close> returns 0, the loop counts on and
    leaves the buffer: undefined behaviour, as is a line that does not fit.
  \<^item> \<open>remote\<close> is spelled out in \<open>Mail_Dns\<close>; the options and the connections are in \<open>Mail_Process\<close>.
    \<open>messageID\<close>, which is never read, is not modelled.
\<close>

section \<open>Lines\<close>

definition BUFFER_SIZE :: nat where "BUFFER_SIZE = 1024"

text \<open>\<open>read_command\<close>, and the loop of \<open>read_data\<close>, with the terminator the caller writes.\<close>

definition read_command :: "string \<Rightarrow> (string \<times> string) res" where
  "read_command input =
     (case sfind crlf input of
        None \<Rightarrow> Fail Undefined
      | Some i \<Rightarrow> if i + 2 < BUFFER_SIZE then Ok (take (i + 2) input, drop (i + 2) input) else Fail Undefined)"

text \<open>\<open>strncpy(cmp, buf, n)\<close> and \<open>strcasecmp(w, cmp) == 0\<close>\<close>

definition is_command :: "string \<Rightarrow> string \<Rightarrow> string \<Rightarrow> bool" where
  "is_command over w line \<longleftrightarrow>
     map lower (c_str (take (length w) (c_str line @ replicate (length w) NUL) @ over)) = map lower w"

text \<open>
  The lines of a mail up to the one with the dot, which ends it unless it is the first. A new line
  overwrites the front of the buffer; the result has the lines and the buffer at the end.
\<close>

lemma read_command_rest: "read_command s = Ok (l, r) \<Longrightarrow> length r < length s"
  by (auto simp: read_command_def split: option.splits if_splits dest!: sfind_Some prefix_length_le)

definition overwrite :: "string \<Rightarrow> string \<Rightarrow> string" where
  "overwrite line data_buf = line @ drop (length line) data_buf"

function mail_lines :: "nat \<Rightarrow> string \<Rightarrow> string \<Rightarrow> (string list \<times> string \<times> string) res" where
  "mail_lines lastlen data_buf input =
     rbind (read_command input) (\<lambda>(line, rest).
     if lastlen > 0 \<and> line = ''.'' @ crlf then Ok ([], overwrite line data_buf, rest)
     else
       rbind (mail_lines (length line) ((overwrite line data_buf)[length line := NUL]) rest) (\<lambda>(ls, b, r).
       Ok (c_str line # ls, b, r)))"
  by auto
termination
  by (relation "measure (\<lambda>(k, b, s). length s)") (auto dest: read_command_rest)

declare mail_lines.simps [simp del]

section \<open>Recipients\<close>

function rcvrs_from :: "string \<Rightarrow> nat option \<Rightarrow> nat option \<Rightarrow> string list res" where
  "rcvrs_from data None found2 = Ok []"
| "rcvrs_from data (Some found1) found2 =
     rbind (between data found1 found2) (\<lambda>r.
     rbind (rcvrs_from data (find_from (CHR ''<'') data (Suc found1)) (find_from (CHR ''>'') data (succ_pos found2)))
       (\<lambda>rs. Ok (r # rs)))"
  by pat_completeness auto
termination
proof (relation "measure (\<lambda>(data, f1, f2). case f1 of None \<Rightarrow> 0 | Some i \<Rightarrow> Suc (length data) - i)")
  fix data :: string and found2 :: "nat option" and i :: nat and r :: string
  assume "between data i found2 = Ok r"
  then have "i < length data" by (auto simp: between_def substr_from_def split: if_splits)
  then show "((data, find_from (CHR ''<'') data (Suc i), find_from (CHR ''>'') data (succ_pos found2)), data, Some i, found2)
      \<in> measure (\<lambda>(data, f1, f2). case f1 of None \<Rightarrow> 0 | Some i \<Rightarrow> Suc (length data) - i)"
    by (auto simp: find_from_def sfind_from_def split: option.splits)
qed auto

definition rcvrs_of :: "string \<Rightarrow> string list res" where
  "rcvrs_of data = rcvrs_from data (find_from (CHR ''<'') data 0) (find_from (CHR ''>'') data 0)"

definition sender_of :: "string \<Rightarrow> string res" where
  "sender_of data =
     (let found2 = find_from (CHR ''>'') data 0 in
      case find_from (CHR ''<'') data 0 of
        Some found1 \<Rightarrow> between data found1 found2
      | None \<Rightarrow> Ok (case found2 of None \<Rightarrow> data | Some j \<Rightarrow> take j data))"

text \<open>The last \<open>From:\<close> line counts, and every \<open>To:\<close> line; the queue has twenty places.\<close>

definition MAX_MESSAGE_NUM :: nat where "MAX_MESSAGE_NUM = 20"

definition scan_line :: "string \<Rightarrow> string \<times> string list \<Rightarrow> (string \<times> string list) res" where
  "scan_line data st =
     (let (sender, queue) = st in
      rbind (if take 5 data = ''From:'' then sender_of data else Ok sender) (\<lambda>sender.
      rbind (if take 3 data = ''To:'' then rcvrs_of data else Ok []) (\<lambda>rs.
      if length (queue @ rs) > MAX_MESSAGE_NUM then Fail Undefined else Ok (sender, queue @ rs))))"

section \<open>The state of a session\<close>

record 'b mailer =
  helo_flag :: bool
  mail_flag :: bool
  rcpt_flag :: bool
  rcvr_list :: "string oset"
  mfiles :: fsys
  mback :: 'b
  mreply :: string
  relayed :: "(string \<times> string) list"

definition new_session :: "fsys \<Rightarrow> 'b \<Rightarrow> 'b mailer" where
  "new_session f b =
     \<lparr>helo_flag = False, mail_flag = False, rcpt_flag = False, rcvr_list = [], mfiles = f, mback = b,
      mreply = ''220 localhost *'' @ crlf, relayed = []\<rparr>"

definition say :: "string \<Rightarrow> 'b mailer \<Rightarrow> 'b mailer" where
  "say t s = s\<lparr>mreply := mreply s @ t\<rparr>"

definition say_ok :: "'b mailer \<Rightarrow> 'b mailer" where
  "say_ok s = say (''250 OK'' @ crlf) s"

section \<open>Sending a mail\<close>

text \<open>The dialogue with another mail host: the answers are read and printed, and not acted upon.\<close>

definition say_line :: "string \<Rightarrow> string \<Rightarrow> connection \<Rightarrow> connection res" where
  "say_line text expected c =
     rbind (expect_to_read expected (write_string text c)) (\<lambda>(_, c). Ok (expect_no_more_data c))"

text \<open>A line built with \<open>strcat\<close> in an array of \<open>BUFFER_SIZE\<close>.\<close>

definition in_array :: "string \<Rightarrow> string res" where
  "in_array t = (if length t < BUFFER_SIZE then Ok t else Fail Undefined)"

definition relay_mail :: "string \<Rightarrow> string \<Rightarrow> string \<Rightarrow> connection \<Rightarrow> connection res" where
  "relay_mail sender rcvr content c =
     rbind (expect_to_read ''220 localhost *'' c) (\<lambda>(_, c).
     rbind (say_line (''HELO tester'' @ crlf) ''250 localhost'' (expect_no_more_data c)) (\<lambda>c.
     rbind (in_array (''MAIL FROM:<'' @ c_str sender @ ''>'' @ crlf)) (\<lambda>t.
     rbind (say_line t ''250 OK'' c) (\<lambda>c.
     rbind (in_array (''RCPT TO:<'' @ c_str rcvr @ ''>'' @ crlf)) (\<lambda>t.
     rbind (say_line t ''250 OK'' c) (\<lambda>c.
     rbind (say_line (''DATA'' @ crlf) ''354 *'' c) (\<lambda>c.
     rbind (say_line content ''250 OK'' c) (\<lambda>c.
     rbind (expect_to_read ''221 *'' (write_string (''QUIT'' @ crlf) c)) (\<lambda>(_, c).
     Ok (expect_remote_close c))))))))))"

definition put_mail :: "'b send \<Rightarrow> (string \<Rightarrow> string) \<Rightarrow> string \<Rightarrow> string \<Rightarrow> 'b mailer \<Rightarrow> 'b mailer res" where
  "put_mail send md5 user_name line_data s =
     rbind (send (''put '' @ user_name @ '',##'' @ md5 (c_str line_data) @ '','' @ line_data @ crlf) user_name (mback s))
       (\<lambda>(_, b). Ok (s\<lparr>mback := b\<rparr>))"

text \<open>
  The queue in order: a remote recipient gets the mail by another dialogue, and the first local one
  ends the loop. A function that runs off its end has no value to return.
\<close>

fun deliver :: "'b send \<Rightarrow> (string \<Rightarrow> string) \<Rightarrow> (string \<Rightarrow> string list res) \<Rightarrow> string \<Rightarrow> string \<Rightarrow>
    string list \<Rightarrow> 'b mailer \<Rightarrow> 'b mailer res" where
  "deliver send md5 remote sender content [] s = Fail Undefined"
| "deliver send md5 remote sender content (rcvr # queue) s =
     (let (user_name, server_name) = (case cut (CHR ''@'') rcvr of None \<Rightarrow> (rcvr, rcvr) | Some p \<Rightarrow> p) in
      if take 13 server_name = ''localhost.com'' then
        rbind (put_mail send md5 user_name content s) (\<lambda>s. Ok (say_ok s))
      else
        rbind (remote (c_str server_name)) (\<lambda>input.
        rbind (relay_mail sender rcvr content (initialize_buffers BUFFER_SIZE input)) (\<lambda>c.
        deliver send md5 remote sender content queue (s\<lparr>relayed := relayed s @ [(server_name, written c)]\<rparr>))))"

definition handle_send :: "'b send \<Rightarrow> (string \<Rightarrow> string) \<Rightarrow> (string \<Rightarrow> string list res) \<Rightarrow> string \<Rightarrow> 'b mailer \<Rightarrow>
    (string \<times> 'b mailer) res" where
  "handle_send send md5 remote input s =
     rbind (mail_lines 0 (replicate BUFFER_SIZE NUL) input) (\<lambda>(ls, _, rest).
     rbind (foldr_res scan_line ls ([], [])) (\<lambda>(sender, queue).
     rbind (deliver send md5 remote sender (concat ls @ ''.'' @ crlf) queue s) (\<lambda>s. Ok (rest, s))))"

section \<open>The commands of a session\<close>

definition handle_helo :: "string \<Rightarrow> 'b mailer \<Rightarrow> 'b mailer" where
  "handle_helo line s =
     (if length line > 7 then say (''250 localhost'' @ crlf) (s\<lparr>helo_flag := True\<rparr>)
      else say (''501 HELO command must be followed by a domain name.'' @ crlf) s)"

text \<open>\<open>find_last_of\<close> and the comparison with the host name, which raises an exception without an \<open>@\<close>.\<close>

definition after_last :: "char \<Rightarrow> string \<Rightarrow> string option" where
  "after_last c s = (if c \<in> set s then Some (rev (takeWhile (\<lambda>d. d \<noteq> c) (rev s))) else None)"

definition local_host :: "string \<Rightarrow> bool res" where
  "local_host domain =
     (case after_last (CHR ''@'') domain of
        None \<Rightarrow> Fail OutOfRange
      | Some h \<Rightarrow> Ok (take 13 h = ''localhost.com''))"

definition handle_mail :: "string \<Rightarrow> 'b mailer \<Rightarrow> 'b mailer res" where
  "handle_mail line s =
     rbind (substr_from (c_str line) 10) (\<lambda>domain.
     rbind (local_host domain) (\<lambda>ok.
     if ok then rbind (substr_from domain 10) (\<lambda>_. Ok (say_ok (s\<lparr>mail_flag := True\<rparr>)))
     else Ok (say ''ERR: incorrect host name'' s)))"

text \<open>The user part is \<open>substr(1, found - 1)\<close> of \<open><user@host>\<close>.\<close>

definition mailbox :: "string \<Rightarrow> string" where
  "mailbox domain =
     (let found = length domain - length (case after_last (CHR ''@'') domain of None \<Rightarrow> [] | Some h \<Rightarrow> h) - 1
      in (if found = 0 then drop 1 domain else take (found - 1) (drop 1 domain)) @ ''.mbox'')"

definition handle_rcpt :: "string \<Rightarrow> 'b mailer \<Rightarrow> 'b mailer res" where
  "handle_rcpt line s =
     rbind (substr_from (c_str line) 8) (\<lambda>domain.
     rbind (local_host domain) (\<lambda>ok.
     if \<not> ok then
       Ok (say_ok (s\<lparr>rcpt_flag := True,
            mfiles := (if is_file_exist ''mqueue'' (mfiles s) then mfiles s
                       else if can_create (mfiles s) ''mqueue'' then oupd ''mqueue'' (File []) (mfiles s) else mfiles s)\<rparr>))
     else if is_file_exist (mailbox domain) (mfiles s) then Ok (say_ok (s\<lparr>rcpt_flag := True\<rparr>))
     else Ok (say (''550 No such user here '' @ crlf) s)))"

text \<open>What follows the dot in the buffer is stored too: the end of the line before it.\<close>

definition handle_data :: "'b send \<Rightarrow> (string \<Rightarrow> string) \<Rightarrow> string \<Rightarrow> 'b mailer \<Rightarrow> (string \<times> 'b mailer) res" where
  "handle_data send md5 input s =
     rbind (mail_lines 0 (replicate BUFFER_SIZE NUL) input) (\<lambda>(ls, data_buf, rest).
     rbind (foldr_res (\<lambda>u. put_mail send md5 u (concat ls @ c_str data_buf)) (oset_list (rcvr_list s))
         (say (''354 send the mail data, end with .'' @ crlf) s)) (\<lambda>s.
     Ok (rest, say_ok s)))"

text \<open>
  One command; \<open>None\<close> for the rest of the input is the end of the session. \<open>handle_rcpt\<close> has no
  \<open>return\<close>, and \<open>RSET\<close> assigns to variables of its own that have the names of the flags.
\<close>

definition mail_step :: "'b send \<Rightarrow> (string \<Rightarrow> string) \<Rightarrow> (string \<Rightarrow> string list res) \<Rightarrow> string \<Rightarrow>
    string \<Rightarrow> 'b mailer \<Rightarrow> (string option \<times> 'b mailer) res" where
  "mail_step send md5 remote over input s =
     rbind (read_command input) (\<lambda>(line, rest).
     if is_command over ''HELO '' line \<and> \<not> helo_flag s then Ok (Some rest, handle_helo line s)
     else if is_command over ''MAIL FROM'' line \<and> helo_flag s \<and> \<not> mail_flag s then
       rbind (handle_mail line s) (\<lambda>s. Ok (Some rest, s))
     else if is_command over ''RCPT TO'' line \<and> helo_flag s \<and> mail_flag s then
       rbind (handle_rcpt line s) (\<lambda>_. Fail Undefined)
     else if is_command over ''DATA'' line \<and> rcpt_flag s then
       rbind (handle_data send md5 rest s) (\<lambda>(rest, s). Ok (Some rest, s))
     else if is_command over ''SEND'' line then
       rbind (handle_send send md5 remote rest s) (\<lambda>(rest, s). Ok (Some rest, s))
     else if is_command over (''QUIT'' @ crlf) line then
       Ok (None, say (''221 Service closing transmission channel'' @ crlf) s)
     else if is_command over (''RSET'' @ crlf) line then Ok (Some rest, say_ok (s\<lparr>rcvr_list := []\<rparr>))
     else if is_command over ''NOOP'' line then Ok (Some rest, say_ok s)
     else Ok (Some rest, say (''ERR: not a command!'' @ crlf) s))"

text \<open>A whole session, with a bound on the number of commands.\<close>

fun mail_session :: "nat \<Rightarrow> 'b send \<Rightarrow> (string \<Rightarrow> string) \<Rightarrow> (string \<Rightarrow> string list res) \<Rightarrow> string \<Rightarrow>
    string \<Rightarrow> 'b mailer \<Rightarrow> 'b mailer res" where
  "mail_session 0 send md5 remote over input s = Fail OutOfFuel"
| "mail_session (Suc n) send md5 remote over input s =
     rbind (mail_step send md5 remote over input s) (\<lambda>(rest, s).
     case rest of None \<Rightarrow> Ok s | Some input \<Rightarrow> mail_session n send md5 remote over input s)"

end
