(* ===== verification/Front_Request.thy ===== *)
theory Front_Request
  imports Front_Utils
begin

text \<open>
  One HTTP request (\<open>frontend/request.cc\<close>): the initial line, the header lines the front end reads,
  and the body of a POST. The input is what the client sends until it closes its side.

  \<^item> \<open>content_length\<close> is a member without an initial value: the local variable of that name hides
    it. It is \<open>None\<close> until a header sets it, and a POST without the header reads it.
  \<^item> Every line goes to \<open>debug\<close> as a format string, so a percent sign in a line is undefined
    behaviour.
\<close>

record request =
  rmethod :: string
  rpath :: string
  rversion :: string
  rlength :: "int option"
  rcookies :: "(string, string) omap"
  rbody :: string

definition COOKIE :: string where "COOKIE = ''Cookie: ''"
definition CONTENT_LEN :: string where "CONTENT_LEN = ''Content-Length: ''"

definition add_cookie :: "string \<Rightarrow> request \<Rightarrow> request res" where
  "add_cookie t req =
     (case split_at (c_str t) (CHR ''='') of
        [name, val] \<Rightarrow>
          rbind (debug_text name) (\<lambda>_. rbind (debug_text val) (\<lambda>_.
          Ok (req\<lparr>rcookies := oupd name val (rcookies req)\<rparr>)))
      | _ \<Rightarrow> Ok req)"

definition header_line :: "string \<Rightarrow> request \<Rightarrow> request res" where
  "header_line line req =
     rbind (debug_text line) (\<lambda>_.
     rbind (if length line \<ge> 8 \<and> take 8 line = COOKIE
            then foldr_res add_cookie (split_at (c_str (drop 8 line)) (CHR '';'')) req
            else Ok req) (\<lambda>req.
     Ok (if length line \<ge> 16 \<and> take 16 line = CONTENT_LEN
         then req\<lparr>rlength := Some (atoi (c_str (drop 16 line)))\<rparr> else req)))"

text \<open>The loop over the lines, until an empty one; the result keeps the rest of the input.\<close>

function header_lines :: "string \<Rightarrow> string \<Rightarrow> request \<Rightarrow> (request \<times> string) res" where
  "header_lines line input req =
     (if line = [] then Ok (req, input)
      else rbind (header_line line req) (\<lambda>req.
           header_lines (fst (read_line input)) (snd (read_line input)) req))"
  by auto
termination
proof (relation "measure (\<lambda>(line, input, req). length input + (if line = [] then 0 else 1))")
  fix line input :: string and req req' :: request
  assume "line \<noteq> []"
  moreover have "read_line [] = ([], [])" by (simp add: read_line_def)
  moreover have "length (snd (read_line input)) \<le> length input - 1" by (rule read_line_rest)
  ultimately show "((fst (read_line input), snd (read_line input), req'), line, input, req)
      \<in> measure (\<lambda>(line, input, req). length input + (if line = [] then 0 else 1))"
    by (cases input) auto
qed simp

declare header_lines.simps [simp del]

definition read_body :: "request \<Rightarrow> string \<Rightarrow> request res" where
  "read_body req input =
     (if rmethod req = ''POST'' then
        rbind (of_option Undefined (rlength req)) (\<lambda>n.
        if n > 0 then
          if length input < nat n then Fail Undefined
          else Ok (req\<lparr>rbody := take (nat n) input\<rparr>)
        else Ok req)
      else Ok req)"

text \<open>\<open>None\<close> is a request that is not valid.\<close>

definition parse_request :: "string \<Rightarrow> request option res" where
  "parse_request input =
     (let (line, rest) = read_line input in
      if line = [] then Ok None
      else case split_at (c_str line) (CHR '' '') of
             [method, path, version] \<Rightarrow>
               rbind (debug_text method) (\<lambda>_. rbind (debug_text path) (\<lambda>_. rbind (debug_text version) (\<lambda>_.
               rbind (header_lines line rest
                 \<lparr>rmethod = method, rpath = path, rversion = version, rlength = None, rcookies = [],
                  rbody = []\<rparr>) (\<lambda>(req, input).
               rbind (read_body req input) (\<lambda>req. Ok (Some req))))))
           | _ \<Rightarrow> Ok None)"

end
