(* ===== verification/Balancer.thy ===== *)
theory Balancer
  imports Front_Utils
begin

text \<open>
  The load balancer (\<open>frontend/load_balancer.cc\<close>) and the server lists of the admin console
  (\<open>frontend/admin_console.h\<close>): reading the addresses, the round over the servers that picks the
  next one that runs, and the reply that redirects a client.
\<close>

record fserver =
  fid :: int
  fip :: string
  fport :: int
  frunning :: bool
  ftype :: "int option"

section \<open>Server lists\<close>

text \<open>A line without a colon ends the process.\<close>

fun parse_servers :: "int \<Rightarrow> string list \<Rightarrow> (int, fserver) omap \<Rightarrow> (int \<times> (int, fserver) omap) res" where
  "parse_servers k [] m = Ok (k - 1, m)"
| "parse_servers k (line # ls) m =
     (case cut (CHR '':'') line of
        None \<Rightarrow> Fail (Exit 1)
      | Some (ip, port) \<Rightarrow>
          parse_servers (k + 1) ls
            (oupd k \<lparr>fid = k, fip = ip, fport = atoi (c_str port), frunning = False, ftype = None\<rparr> m))"

definition parse_all_servers :: "string \<Rightarrow> fsys \<Rightarrow> (int \<times> (int, fserver) omap) res" where
  "parse_all_servers filename f = parse_servers 1 (getlines LF (get_file_content_as_string filename f)) []"

definition parse_frontend_servers ::
    "string \<Rightarrow> fsys \<Rightarrow> (int, fserver) omap \<Rightarrow> (int \<times> (int, fserver) omap) res" where
  "parse_frontend_servers filename f frontend_servers =
     parse_servers 1 (getlines LF (get_file_content_as_string filename f)) frontend_servers"

text \<open>
  The reply of the master to \<open>A\<close>. The three positions are found in the whole text, so a text whose
  colons and commas do not alternate gives overlapping parts; \<open>npos + 1\<close> is zero.
\<close>

function backend_servers :: "string \<Rightarrow> int \<Rightarrow> nat \<Rightarrow> nat option \<Rightarrow> nat option \<Rightarrow> (int, fserver) omap \<Rightarrow>
    (int \<times> (int, fserver) omap) res" where
  "backend_servers data k found1 None found3 m = Ok (k - 1, m)"
| "backend_servers data k found1 (Some found2) found3 m =
     rbind (between data found1 (Some found2)) (\<lambda>ip_addr.
     rbind (between data found2 found3) (\<lambda>port.
     rbind (substr data found1 1) (\<lambda>backend_type.
     let server = \<lparr>fid = k, fip = ip_addr, fport = atoi (c_str port), frunning = False,
           ftype = Some (if backend_type = ''P'' then 1 else if backend_type = ''S'' then 2 else 3)\<rparr>
     in backend_servers data (k + 1) (succ_pos found3) (find_from (CHR '':'') data (Suc found2))
          (find_from (CHR '','') data (succ_pos found3)) (oupd k server m))))"
  by pat_completeness auto
termination
proof (relation "measure (\<lambda>(data, k, f1, f2, f3, m). case f2 of None \<Rightarrow> 0 | Some i \<Rightarrow> Suc (length data) - i)")
  fix data :: string and k k' :: int and f1 f1' i :: nat and f3 f3' :: "nat option" and m m' and port :: string
  assume "between data i f3 = Ok port"
  then have "i < length data" by (auto simp: between_def substr_from_def split: if_splits)
  then show "((data, k', f1', find_from (CHR '':'') data (Suc i), f3', m'), data, k, f1, Some i, f3, m)
      \<in> measure (\<lambda>(data, k, f1, f2, f3, m). case f2 of None \<Rightarrow> 0 | Some i \<Rightarrow> Suc (length data) - i)"
    by (auto simp: find_from_def sfind_from_def split: option.splits)
qed auto

declare backend_servers.simps [simp del]

definition parse_backend_servers :: "string \<Rightarrow> (int, fserver) omap \<Rightarrow> (int \<times> (int, fserver) omap) res" where
  "parse_backend_servers buf m =
     (let data = c_str buf
      in backend_servers data 1 0 (find_from (CHR '':'') data 0) (find_from (CHR '','') data 0) m)"

section \<open>Checking and choosing\<close>

text \<open>One pass of the checker over the servers \<open>1 .. n\<close>; \<open>operator[]\<close> adds those that are missing.\<close>

definition zero_fserver :: fserver where
  "zero_fserver = \<lparr>fid = 0, fip = [], fport = 0, frunning = False, ftype = None\<rparr>"

definition check_servers :: "(string \<Rightarrow> int \<Rightarrow> bool) \<Rightarrow> nat \<Rightarrow> (int, fserver) omap \<Rightarrow> (int, fserver) omap" where
  "check_servers alive n m =
     fold (\<lambda>i m. let s = oget_def zero_fserver m (int i)
                 in oupd (int i) (s\<lparr>frunning := alive (fip s) (fport s)\<rparr>) m) [1..<Suc n] m"

text \<open>\<open>(i + 1) % n\<close>, with \<open>n\<close> for zero.\<close>

definition next_server :: "int \<Rightarrow> int \<Rightarrow> int" where
  "next_server n i = (let j = (i + 1) mod n in if j = 0 then n else j)"

fun find_running :: "nat \<Rightarrow> int \<Rightarrow> (int \<Rightarrow> bool) \<Rightarrow> int \<Rightarrow> int \<Rightarrow> (int \<times> int) res" where
  "find_running 0 n running i count = Fail OutOfFuel"
| "find_running (Suc k) n running i count =
     (if running i then Ok (i, count)
      else let i = next_server n i; count = count + 1
           in if count \<ge> n then Ok (i, count) else find_running k n running i count)"

definition lb_header :: string where
  "lb_header = ''HTTP/1.1 200 OK'' @ crlf @ ''Content-Type: text/html'' @ crlf @ ''Content-Length: ''"

text \<open>One client: the text sent, and the server the next client starts with.\<close>

definition lb_step :: "string \<Rightarrow> string \<Rightarrow> int \<Rightarrow> (int, fserver) omap \<Rightarrow> int \<Rightarrow> (string \<times> int) res" where
  "lb_step no_server_page redirect_page n servers i =
     (if n = 0 then Fail Undefined
      else
        rbind (find_running (nat n + 1) n (\<lambda>j. frunning (oget_def zero_fserver servers j)) i 0) (\<lambda>(i, count).
        if count \<ge> n then
          Ok (lb_header @ to_string (int (length no_server_page)) @ crlf @ crlf @ no_server_page, i)
        else
          let s = oget_def zero_fserver servers i;
              content = replace_all redirect_page ''$server'' (fip s @ '':'' @ to_string (fport s))
          in Ok (lb_header @ to_string (int (length content)) @ crlf @ crlf @ content, next_server n i)))"

end
