(* ===== verification/Front_Response.thy ===== *)
theory Front_Response
  imports Front_Request Front_Store Balancer
begin

text \<open>
  The pages of the front end (\<open>frontend/response.cc\<close>): which handler a request gets, what the
  handlers change and send, and the reply text.

  \<^item> \<open>send\<close> is \<open>send_to_backend\<close> on a state \<open>wback\<close>.
  \<^item> \<open>curr_user\<close> is a null pointer at first and after a registration the \<open>c_str()\<close> of a temporary
    that is gone. The string a handler reads through it is the parameter \<open>dir\<close>; \<open>Fail\<close> stands for
    a read that does not yield a string. The path of a static file is read in the same way from a
    temporary; there the model takes the text the temporary had.
  \<^item> The mail pages, the admin console and the choice of the handler are in \<open>Front_Pages\<close>.
\<close>

record 'b web =
  wsessions :: "string oset"
  wuser :: string
  wfiles :: fsys
  wback :: 'b
  wmail :: "string list"
  wfront :: "(int, fserver) omap"
  wbackends :: "(int, fserver) omap"

record response =
  version :: string
  status :: string
  headers :: "(string, string) omap"
  body :: string

definition CONTENT_TYPE :: string where "CONTENT_TYPE = ''Content-Type: ''"
definition SET_COOKIE :: string where "SET_COOKIE = ''Set-Cookie: ''"
definition CONNECTION :: string where "CONNECTION = ''Connection: ''"
definition STATUS_OK :: string where "STATUS_OK = ''200 OK''"

section \<open>Building a response\<close>

definition new_response :: "request \<Rightarrow> response" where
  "new_response req =
     \<lparr>version = rversion req, status = [], headers = [(CONNECTION, ''close'')], body = []\<rparr>"

definition set_header :: "string \<Rightarrow> string \<Rightarrow> response \<Rightarrow> response" where
  "set_header k v r = r\<lparr>headers := oupd k v (headers r)\<rparr>"

text \<open>\<open>status\<close> and the content type, which every handler sets.\<close>

definition ok_type :: "string \<Rightarrow> response \<Rightarrow> response" where
  "ok_type ctype r = set_header CONTENT_TYPE ctype (r\<lparr>status := STATUS_OK\<rparr>)"

definition set_body :: "string \<Rightarrow> response \<Rightarrow> response" where
  "set_body b r = set_header CONTENT_LEN (to_string (int (length b))) (r\<lparr>body := b\<rparr>)"

text \<open>A template with its places filled in.\<close>

definition page :: "string \<Rightarrow> (string \<times> string) list \<Rightarrow> fsys \<Rightarrow> string" where
  "page name subs f =
     fold (\<lambda>(k, v) b. replace_all b k v) subs (get_file_content_as_string name f)"

definition html :: "string \<Rightarrow> (string \<times> string) list \<Rightarrow> fsys \<Rightarrow> response \<Rightarrow> response" where
  "html name subs f r = set_body (page name subs f) (ok_type ''text/html'' r)"

text \<open>\<open>reply\<close>: the header goes through a C string, the body byte by byte.\<close>

definition reply :: "response \<Rightarrow> string" where
  "reply r =
     c_str (version r @ '' '' @ status r @ crlf @
            concat (map (\<lambda>(k, v). k @ v @ crlf) (headers r)) @ crlf) @ body r"

section \<open>Form fields\<close>

definition params :: "string \<Rightarrow> string list" where
  "params s = split_at (c_str s) (CHR ''&'')"

text \<open>\<open>split(params.at(i), '=').at(1)\<close>\<close>

definition field :: "string list \<Rightarrow> nat \<Rightarrow> string res" where
  "field ps i = rbind (at ps i) (\<lambda>p. at (split_at p (CHR ''='')) 1)"

text \<open>\<open>s.substr(s.find('=') + 1)\<close>\<close>

definition after_eq :: "string \<Rightarrow> string" where
  "after_eq s = (case cut (CHR ''='') s of None \<Rightarrow> s | Some (_, r) \<Rightarrow> r)"

definition value_at :: "string list \<Rightarrow> nat \<Rightarrow> string res" where
  "value_at ps i = rbind (at ps i) (\<lambda>p. Ok (after_eq p))"

section \<open>Accounts\<close>

definition is_already_login :: "(string, string) omap \<Rightarrow> 'b web \<Rightarrow> string option" where
  "is_already_login cookies w =
     (case oget cookies ''sessionid'' of
        None \<Rightarrow> None
      | Some sid \<Rightarrow> if is_session_valid sid (wsessions w) then Some sid else None)"

text \<open>The storage's \<open>is_user_exist\<close>, \<open>is_login_valid\<close> and \<open>add_user\<close> on the state of the backend.\<close>

definition backend :: "'b send \<Rightarrow> string \<Rightarrow> string \<Rightarrow> 'b web \<Rightarrow> (string list \<times> 'b web) res" where
  "backend send message username w =
     rbind (send message username (wback w)) (\<lambda>(rep, b). Ok (rep, w\<lparr>wback := b\<rparr>))"

definition reg :: "'b send \<Rightarrow> request \<Rightarrow> response \<Rightarrow> 'b web \<Rightarrow> (response \<times> 'b web) res" where
  "reg send req r w =
     (let r = ok_type ''text/html'' r in
      if rmethod req = ''GET'' then Ok (html ''html/register.html'' [] (wfiles w) r, w)
      else if rmethod req = ''POST'' then
        rbind (field (params (rbody req)) 0) (\<lambda>username.
        rbind (field (params (rbody req)) 1) (\<lambda>password.
        let w = w\<lparr>wfiles := create_dir username (wfiles w)\<rparr> in
        rbind (backend send (get_user_message username) username w) (\<lambda>(rep, w).
        rbind (at rep 0) (\<lambda>l.
        if take 3 l = ''+OK'' then Ok (html ''html/user-already-exist.html'' [] (wfiles w) r, w)
        else rbind (backend send (add_user_message username password) username w) (\<lambda>(_, w).
             Ok (html ''html/new-user.html'' [] (wfiles w) r, w))))))
      else Ok (r, w))"

definition user_home :: "string \<Rightarrow> response \<Rightarrow> 'b web \<Rightarrow> response" where
  "user_home username r w =
     set_header SET_COOKIE (''sessionid='' @ username)
       (html ''html/user-home.html'' [(''$username'', username)] (wfiles w) r)"

definition login :: "'b send \<Rightarrow> request \<Rightarrow> response \<Rightarrow> 'b web \<Rightarrow> (response \<times> 'b web) res" where
  "login send req r w =
     (let already = is_already_login (rcookies req) w; r = ok_type ''text/html'' r in
      if rmethod req = ''GET'' \<and> already = None then Ok (html ''html/login.html'' [] (wfiles w) r, w)
      else if rmethod req = ''POST'' then
        rbind (field (params (rbody req)) 0) (\<lambda>username.
        rbind (field (params (rbody req)) 1) (\<lambda>password.
        rbind (backend send (get_user_message username) username w) (\<lambda>(rep, w).
        rbind (at rep 0) (\<lambda>l.
        rbind (if take 3 l = ''+OK'' then rbind (at rep 1) (\<lambda>p. Ok (p = password)) else Ok False) (\<lambda>good.
        if good then
          (let w = w\<lparr>wsessions := add_session username (wsessions w)\<rparr> in Ok (user_home username r w, w))
        else
          (let r = html ''html/login-failed.html'' [] (wfiles w) r
           in Ok (if already = None then r else user_home username r w, w)))))))
      else
        Ok (case already of None \<Rightarrow> r | Some username \<Rightarrow> user_home username r w, w))"

section \<open>Files\<close>

definition upload :: "response \<Rightarrow> 'b web \<Rightarrow> (response \<times> 'b web) res" where
  "upload r w = Ok (html ''html/upload.html'' [] (wfiles w) r, w)"

definition handle_upload :: "'b send \<Rightarrow> string res \<Rightarrow> request \<Rightarrow> response \<Rightarrow> 'b web \<Rightarrow> (response \<times> 'b web) res" where
  "handle_upload send dir req r w =
     rbind dir (\<lambda>dir.
     rbind (extract_file_name (rbody req)) (\<lambda>filename.
     rbind (extract_file_content (rbody req)) (\<lambda>content.
     rbind (store_file dir filename content (wfiles w)) (\<lambda>f.
     let w = w\<lparr>wfiles := f\<rparr> in
     rbind (backend send (''put '' @ wuser w @ '','' @ filename @ '','' @ content @ crlf) (wuser w) w) (\<lambda>(_, w).
     Ok (html ''html/upload.html'' [] (wfiles w) r, w))))))"

definition serve_file :: "string \<Rightarrow> response \<Rightarrow> 'b web \<Rightarrow> (response \<times> 'b web) res" where
  "serve_file filename r w =
     rbind (debug_text filename) (\<lambda>_.
     Ok (set_body (get_file_content_as_string filename (wfiles w)) (ok_type ''text/plain'' r), w))"

definition create_new_folder :: "string res \<Rightarrow> request \<Rightarrow> response \<Rightarrow> 'b web \<Rightarrow> (response \<times> 'b web) res" where
  "create_new_folder dir req r w =
     (let foldername = after_eq (rbody req) @ ''.folder'' in
      rbind dir (\<lambda>dir.
      rbind (store_file dir foldername [] (wfiles w)) (\<lambda>f.
      let w = w\<lparr>wfiles := f\<rparr>
      in Ok (html ''html/create-new-folder-success.html'' [(''$foldername'', foldername)] (wfiles w) r, w))))"

text \<open>\<open>rename(2)\<close> on a regular file; the names come from forms, and a directory stays where it is.\<close>

definition rename_path :: "string \<Rightarrow> string \<Rightarrow> fsys \<Rightarrow> fsys" where
  "rename_path old new f =
     (case oget f old of
        Some (File c) \<Rightarrow> if can_create f new then oupd new (File c) (odel old f) else f
      | _ \<Rightarrow> f)"

definition folder_prefix :: "string \<Rightarrow> string" where
  "folder_prefix foldername = (if foldername = [] then [] else foldername @ ''+'')"

definition rename_file :: "string res \<Rightarrow> request \<Rightarrow> response \<Rightarrow> 'b web \<Rightarrow> (response \<times> 'b web) res" where
  "rename_file dir req r w =
     (let ts = params (rbody req) in
      rbind (value_at ts 0) (\<lambda>foldername. rbind (value_at ts 1) (\<lambda>oldname. rbind (value_at ts 2) (\<lambda>newname.
      rbind dir (\<lambda>dir.
      let p = dir @ folder_prefix foldername;
          w = w\<lparr>wfiles := rename_path (p @ oldname) (p @ newname) (wfiles w)\<rparr>
      in Ok (html ''html/rename-file-success.html'' [(''$oldname'', oldname), (''$newname'', newname)]
               (wfiles w) r, w))))))"

definition delete_file :: "'b send \<Rightarrow> string res \<Rightarrow> request \<Rightarrow> response \<Rightarrow> 'b web \<Rightarrow> (response \<times> 'b web) res" where
  "delete_file send dir req r w =
     (let ts = params (rbody req) in
      rbind (value_at ts 0) (\<lambda>foldername. rbind (value_at ts 1) (\<lambda>filename.
      rbind dir (\<lambda>dir.
      let name = folder_prefix foldername @ filename;
          w = w\<lparr>wfiles := remove_path (dir @ name) (wfiles w)\<rparr>
      in
      rbind (backend send (''dele '' @ wuser w @ '','' @ name @ crlf) (wuser w) w) (\<lambda>(_, w).
      Ok (html ''html/delete-file-success.html'' [(''$filename'', filename)] (wfiles w) r, w))))))"

definition in_folder :: "string \<Rightarrow> string \<Rightarrow> bool" where
  "in_folder foldername n \<longleftrightarrow>
     foldername = [] \<or> n = foldername @ ''.folder'' \<or> sfind (foldername @ ''+'') n \<noteq> None"

definition delete_folder :: "string res \<Rightarrow> request \<Rightarrow> response \<Rightarrow> 'b web \<Rightarrow> (response \<times> 'b web) res" where
  "delete_folder dir req r w =
     (let foldername = after_eq (rbody req) in
      rbind dir (\<lambda>dir.
      let f = fold (\<lambda>n. remove_path (dir @ n)) (filter (in_folder foldername) (list_all_files dir (wfiles w)))
                (wfiles w)
      in Ok (html ''html/delete-folder-success.html'' [(''$foldername'', foldername)] f r, w\<lparr>wfiles := f\<rparr>)))"

definition move_file :: "string res \<Rightarrow> request \<Rightarrow> response \<Rightarrow> 'b web \<Rightarrow> (response \<times> 'b web) res" where
  "move_file dir req r w =
     (let ts = params (rbody req) in
      rbind (value_at ts 0) (\<lambda>filename. rbind (value_at ts 1) (\<lambda>oldfolder. rbind (value_at ts 2) (\<lambda>newfolder.
      rbind dir (\<lambda>dir.
      let w = w\<lparr>wfiles := rename_path (dir @ folder_prefix oldfolder @ filename)
                (dir @ newfolder @ ''+'' @ filename) (wfiles w)\<rparr>
      in Ok (html ''html/move-file-success.html'' [(''$filename'', filename), (''$newfolder'', newfolder)]
               (wfiles w) r, w))))))"

definition content_type_of :: "string \<Rightarrow> string" where
  "content_type_of path =
     (if sfind ''jpeg'' path \<noteq> None \<or> sfind ''jpg'' path \<noteq> None then ''image/jpeg''
      else if sfind ''png'' path \<noteq> None then ''image/png''
      else if sfind ''pdf'' path \<noteq> None then ''application/pdf''
      else ''text/plain'')"

text \<open>A missing file has the size \<open>-1\<close>: the header says so and the body is empty.\<close>

definition download_file :: "request \<Rightarrow> response \<Rightarrow> 'b web \<Rightarrow> (response \<times> 'b web) res" where
  "download_file req r w =
     rbind (substr_from (rpath req) 10) (\<lambda>file_path.
     let r = set_header CONTENT_LEN (to_string (file_size file_path (wfiles w)))
               (ok_type (content_type_of file_path) r)
     in Ok (r\<lparr>body := get_file_content_as_string file_path (wfiles w)\<rparr>, w))"

section \<open>The listing of the uploaded files\<close>

definition list_item :: "string \<Rightarrow> string \<Rightarrow> string" where
  "list_item href text =
     ''<a href=\"'' @ href @ ''\" class=\"list-group-item\" >'' @ text @ ''</a>''"

text \<open>The files of a folder are named \<open>folder+name\<close>.\<close>

definition folder_item :: "string \<Rightarrow> string \<Rightarrow> string \<Rightarrow> string" where
  "folder_item dir folder n =
     (let saved = (case cut (CHR ''+'') n of None \<Rightarrow> n | Some (_, r) \<Rightarrow> r) in
      if sfind (folder @ ''+'') n \<noteq> None \<and> n = folder @ ''+'' @ saved
      then list_item (CHR ''?'' # dir @ n) saved else [])"

definition folder_path :: "string \<Rightarrow> string" where
  "folder_path n = (if length n < 7 then n else take (length n - 7) n)"

definition root_item :: "string \<Rightarrow> string \<Rightarrow> string" where
  "root_item dir n =
     (if CHR ''+'' \<notin> set n \<and> sfind ''.folder'' (dir @ n) = None then list_item (CHR ''?'' # dir @ n) n else [])"

definition root_folder :: "string \<Rightarrow> string \<Rightarrow> string" where
  "root_folder dir n =
     (if CHR ''+'' \<notin> set n \<and> sfind ''.folder'' (dir @ n) \<noteq> None
      then list_item (''download/'' @ folder_path n) (folder_path n) else [])"

definition download :: "'b send \<Rightarrow> string res \<Rightarrow> request \<Rightarrow> response \<Rightarrow> 'b web \<Rightarrow> (response \<times> 'b web) res" where
  "download send dir req r w =
     rbind dir (\<lambda>dir.
     rbind (substr_from (rpath req) 9) (\<lambda>curr_folder.
     rbind (backend send (''getlist '' @ wuser w @ '',file'' @ crlf) (wuser w) w) (\<lambda>(_, w).
     let files = list_all_files dir (wfiles w) in
     if curr_folder \<noteq> [] then
       Ok (html ''html/download-subfolder.html''
             [(''$allDownloadFiles'', concat (map (folder_item dir (drop 1 curr_folder)) files))] (wfiles w) r, w)
     else
       Ok (html ''html/download.html''
             [(''$allDownloadFiles'', concat (map (root_item dir) files)),
              (''$allFolders'', concat (map (root_folder dir) files))] (wfiles w) r, w))))"

end
