(* ===== verification/Front_Pages.thy ===== *)
theory Front_Pages
  imports Front_Response Mail_Conn
begin

text \<open>
  The mail pages of the front end, the admin console, and the handler a request gets
  (\<open>frontend/response.cc\<close>). Parameters beside \<open>send\<close>: \<open>input\<close>, the reads from the mail server;
  \<open>now\<close>, the text of the time; \<open>alive\<close>, whether a server accepts a connection; \<open>ask\<close>, the
  master's answer to a datagram.
\<close>

section \<open>Writing a mail\<close>

definition send_email :: "response \<Rightarrow> 'b web \<Rightarrow> (response \<times> 'b web) res" where
  "send_email r w = Ok (html ''html/send-email.html'' [] (wfiles w) r, w)"

definition mail_text :: "string \<Rightarrow> string \<Rightarrow> string \<Rightarrow> string \<Rightarrow> string \<Rightarrow> string" where
  "mail_text user sent_to now title content =
     ''Send'' @ crlf @ ''From: <'' @ user @ ''@localhost.com>'' @ crlf @ ''To: <'' @ sent_to @ ''>'' @ crlf @
     ''Date: '' @ now @ crlf @ ''Subject: '' @ title @ crlf @ content @ crlf @ ''.'' @ crlf"

definition send_to_email_server :: "string list \<Rightarrow> string \<Rightarrow> connection res" where
  "send_to_email_server input message =
     rbind (do_read (write_string (''QUIT'' @ crlf) (write_string message (initialize_buffers 5000 input)))) (\<lambda>c.
     Ok (expect_remote_close c))"

definition handle_send_email :: "string list \<Rightarrow> string \<Rightarrow> request \<Rightarrow> response \<Rightarrow> 'b web \<Rightarrow> (response \<times> 'b web) res" where
  "handle_send_email input now req r w =
     rbind (url_decode (rbody req)) (\<lambda>decoded.
     let ps = split_at (c_str decoded) (CHR ''&'') in
     rbind (field ps 0) (\<lambda>sent_to. rbind (field ps 1) (\<lambda>title. rbind (field ps 2) (\<lambda>content.
     rbind (send_to_email_server input
              (mail_text (wuser w) sent_to now (replace_all title ''+'' '' '') (replace_all content ''+'' '' ''))) (\<lambda>c.
     Ok (html ''html/send-email-success.html'' [] (wfiles w) r, w\<lparr>wmail := wmail w @ [written c]\<rparr>))))))"

section \<open>Reading mails\<close>

text \<open>The lines up to the dot that an empty line follows; the result has the position of the dot.\<close>

function mail_body :: "string list \<Rightarrow> nat \<Rightarrow> (string \<times> nat) res" where
  "mail_body rep j =
     rbind (at rep j) (\<lambda>l.
     rbind (if l = ''.'' then rbind (at rep (Suc j)) (\<lambda>e. Ok (e = [])) else Ok False) (\<lambda>stop.
     if stop then Ok ([], j)
     else rbind (mail_body rep (Suc j)) (\<lambda>(content, k). Ok (l @ crlf @ content, k))))"
  by auto
termination
  by (relation "measure (\<lambda>(rep, j). length rep - j)") (auto simp: at_def split: if_splits)

declare mail_body.simps [simp del]

text \<open>\<open>s.substr(7, s.length() - 8)\<close>: what is between \<open>From: <\<close> and \<open>>\<close>.\<close>

definition address_of :: "string \<Rightarrow> string res" where
  "address_of s = rbind (substr_from s 7) (\<lambda>t. Ok (if length s < 8 then t else take (length s - 8) t))"

text \<open>What the pages for one mail take from the reply: sender, date, title, content.\<close>

definition mail_fields :: "string list \<Rightarrow> (string \<times> string \<times> string \<times> string) res" where
  "mail_fields rep =
     rbind (at rep 1) (\<lambda>l1. rbind (address_of l1) (\<lambda>from.
     rbind (at rep 3) (\<lambda>l3. rbind (substr_from l3 6) (\<lambda>date.
     rbind (at rep 4) (\<lambda>l4. rbind (substr_from l4 9) (\<lambda>title.
     rbind (mail_body rep 5) (\<lambda>(content, _).
     Ok (from, date, title, content))))))))"

text \<open>\<open>split(path, '=').at(1)\<close> of the path from position \<open>n\<close>.\<close>

definition query_key :: "nat \<Rightarrow> string \<Rightarrow> string res" where
  "query_key n path = rbind (substr_from path n) (\<lambda>q. at (split_at q (CHR ''='')) 1)"

definition get_mail :: "'b send \<Rightarrow> string \<Rightarrow> 'b web \<Rightarrow> (string list \<times> 'b web) res" where
  "get_mail send key w = backend send (''get '' @ wuser w @ '',##'' @ key @ crlf) (wuser w) w"

text \<open>The row of one mail in the inbox: line \<open>i\<close> names it, and its lines follow.\<close>

definition inbox_row :: "string list \<Rightarrow> nat \<Rightarrow> string \<Rightarrow> nat \<Rightarrow> (string \<times> nat) res" where
  "inbox_row rep i line count =
     (let ts = split_at (c_str line) (CHR '','') in
      rbind (at ts 1) (\<lambda>t1. rbind (address_of t1) (\<lambda>address.
      rbind (mail_body rep (i + 4)) (\<lambda>(_, j).
      rbind (at ts 0) (\<lambda>t0. rbind (substr_from t0 2) (\<lambda>key.
      rbind (at rep (i + 3)) (\<lambda>l3. rbind (substr_from l3 9) (\<lambda>title.
      rbind (at rep (i + 2)) (\<lambda>l2. rbind (substr_from l2 6) (\<lambda>date.
      Ok (''<tr>'' @ [LF] @ ''<th scope=\" row \">'' @ ''<a href=\"viewemail?'' @ ''key='' @ key @ ''\">'' @
          to_string (int count) @ ''</a></th>'' @ [LF] @ ''<td>'' @ address @ ''</td>'' @ [LF] @
          ''<td>'' @ title @ ''</td>'' @ [LF] @ ''<td>'' @ date @ ''</td>'' @ [LF] @ ''</tr>'' @ [LF], j + 1)))))))))))"

lemma mail_body_end: "mail_body rep j = Ok (c, k) \<Longrightarrow> j \<le> k \<and> k < length rep"
proof (induction rep j arbitrary: c k rule: mail_body.induct)
  case (1 rep j)
  from 1(2) obtain l stop where l: "at rep j = Ok l"
    and stop: "(if l = ''.'' then rbind (at rep (Suc j)) (\<lambda>e. Ok (e = [])) else Ok False) = Ok stop"
    and r: "(if stop then Ok ([], j) else rbind (mail_body rep (Suc j)) (\<lambda>(t, k). Ok (l @ crlf @ t, k))) = Ok (c, k)"
    by (subst (asm) mail_body.simps) (auto simp only: rbind_eq_Ok)
  have j: "j < length rep" using l by (simp add: at_def split: if_splits)
  show ?case
  proof (cases stop)
    case True
    then show ?thesis using r j by simp
  next
    case False
    with r obtain t where "mail_body rep (Suc j) = Ok (t, k)" by (auto simp: rbind_eq_Ok)
    from 1(1) [OF l stop False this] show ?thesis by simp
  qed
qed

lemma inbox_row_end: "inbox_row rep i line count = Ok (t, j) \<Longrightarrow> i < j"
  by (auto simp: inbox_row_def rbind_eq_Ok Let_def dest!: mail_body_end)

function inbox_rows :: "string list \<Rightarrow> nat \<Rightarrow> nat \<Rightarrow> string res" where
  "inbox_rows rep i count =
     (if length rep \<le> i then Ok []
      else
        rbind (at (rep ! i) 0) (\<lambda>c.
        let line = (if c = CHR '','' then drop 1 (rep ! i) else rep ! i) in
        if take 2 line = ''##'' then
          rbind (inbox_row rep i line (Suc count)) (\<lambda>(row, j).
          rbind (inbox_rows rep (Suc j) (Suc count)) (\<lambda>rows. Ok (row @ rows)))
        else inbox_rows rep (Suc i) count))"
  by auto
termination
  by (relation "measure (\<lambda>(rep, i, count). length rep - i)") (auto dest!: inbox_row_end)

declare inbox_rows.simps [simp del]

definition inbox :: "'b send \<Rightarrow> response \<Rightarrow> 'b web \<Rightarrow> (response \<times> 'b web) res" where
  "inbox send r w =
     rbind (backend send (''getlist '' @ wuser w @ '',email'' @ crlf) (wuser w) w) (\<lambda>(rep, w).
     rbind (inbox_rows rep 0 0) (\<lambda>maillist.
     Ok (html ''html/inbox.html'' [(''$maillist'', maillist)] (wfiles w) r, w)))"

definition view_email :: "'b send \<Rightarrow> request \<Rightarrow> response \<Rightarrow> 'b web \<Rightarrow> (response \<times> 'b web) res" where
  "view_email send req r w =
     rbind (query_key 11 (rpath req)) (\<lambda>key.
     rbind (get_mail send key w) (\<lambda>(rep, w).
     rbind (mail_fields rep) (\<lambda>(from, date, title, content).
     let query = ''key='' @ key in
     Ok (html ''html/view-email.html''
           [(''$from'', from), (''$title'', title), (''$date'', date), (''$content'', content),
            (''$replyQuery'', query), (''$forwardQuery'', query), (''$deleteQuery'', query)] (wfiles w) r, w))))"

definition quoted :: "string \<Rightarrow> string \<Rightarrow> string \<Rightarrow> string" where
  "quoted email date content =
     [LF] @ ''=========='' @ [LF] @ ''||From: '' @ email @ [LF] @ ''||Date: '' @ date @ [LF, LF] @ content"

definition forward_email :: "'b send \<Rightarrow> request \<Rightarrow> response \<Rightarrow> 'b web \<Rightarrow> (response \<times> 'b web) res" where
  "forward_email send req r w =
     rbind (query_key 9 (rpath req)) (\<lambda>key.
     rbind (get_mail send key w) (\<lambda>(rep, w).
     rbind (mail_fields rep) (\<lambda>(email, date, title, content).
     Ok (html ''html/forward-email.html''
           [(''$title'', ''FW: '' @ title), (''$content'', quoted email date content)] (wfiles w) r, w))))"

definition reply_email :: "'b send \<Rightarrow> request \<Rightarrow> response \<Rightarrow> 'b web \<Rightarrow> (response \<times> 'b web) res" where
  "reply_email send req r w =
     rbind (query_key 12 (rpath req)) (\<lambda>key.
     rbind (get_mail send key w) (\<lambda>(rep, w).
     rbind (mail_fields rep) (\<lambda>(email, date, title, content).
     Ok (html ''html/reply-email.html''
           [(''$email'', email), (''$title'', ''RE: '' @ title), (''$content'', quoted email date content)]
           (wfiles w) r, w))))"

definition delete_email :: "'b send \<Rightarrow> request \<Rightarrow> response \<Rightarrow> 'b web \<Rightarrow> (response \<times> 'b web) res" where
  "delete_email send req r w =
     rbind (substr_from (rpath req) 13) (\<lambda>q. rbind (url_decode q) (\<lambda>decoded.
     rbind (field (split_at (c_str decoded) (CHR ''&'')) 0) (\<lambda>key.
     rbind (backend send (''dele '' @ wuser w @ '',##'' @ key @ crlf) (wuser w) w) (\<lambda>(_, w).
     Ok (html ''html/delete-email.html'' [] (wfiles w) r, w)))))"

section \<open>The admin console\<close>

definition cell :: "string \<Rightarrow> string" where "cell t = ''<td>'' @ t @ ''</td>''"

definition state_cells :: "bool \<Rightarrow> string \<Rightarrow> string" where
  "state_cells up addr =
     (if up then ''<td class=\"success\">'' @ addr @ ''</td>'' @ ''<td class=\"success\">Active</td>''
      else ''<td class=\"danger\">'' @ addr @ ''</td>'' @ ''<td class=\"danger\">Down</td>'')"

definition server_text :: "fserver \<Rightarrow> string" where
  "server_text s = fip s @ '':'' @ to_string (fport s)"

definition user_rows :: "'b send \<Rightarrow> string \<Rightarrow> string \<times> 'b web \<Rightarrow> (string \<times> 'b web) res" where
  "user_rows send name st =
     (let (text, w) = st in
      rbind (backend send (''getlist '' @ name @ '',email'' @ crlf) name w) (\<lambda>(mails, w).
      rbind (backend send (''getfile '' @ name @ crlf) name w) (\<lambda>(files, w).
      Ok (text @ ''<tr><td>'' @ name @ '' emails:</td>'' @ concat (map cell mails) @ ''</tr>'' @
          ''<tr><td>'' @ name @ '' files and pwd:</td>'' @ concat (map cell files) @ ''</tr>'', w))))"

definition front_row :: "(string \<Rightarrow> int \<Rightarrow> bool) \<Rightarrow> int \<Rightarrow> string \<times> 'b web \<Rightarrow> string \<times> 'b web" where
  "front_row alive i st =
     (let (text, w) = st; s = oget_def zero_fserver (wfront w) i; up = alive (fip s) (fport s)
      in (text @ ''<tr>'' @ state_cells up (server_text s) @ ''</tr>'',
          w\<lparr>wfront := oupd i (s\<lparr>frunning := up\<rparr>) (wfront w)\<rparr>))"

definition back_row :: "'b send \<Rightarrow> (string \<Rightarrow> 'b \<Rightarrow> string \<times> 'b) \<Rightarrow> (string \<Rightarrow> int \<Rightarrow> bool) \<Rightarrow> int \<Rightarrow>
    string \<times> 'b web \<Rightarrow> (string \<times> 'b web) res" where
  "back_row send ask alive i st =
     (let (text, w) = st; s = oget_def zero_fserver (wbackends w) i; up = alive (fip s) (fport s);
          w = w\<lparr>wbackends := oupd i (s\<lparr>frunning := up\<rparr>) (wbackends w)\<rparr>;
          text = text @ ''<tr>'' @ state_cells up (server_text s)
      in
      rbind (if up then
               (let (feedback, b) = ask (CHR ''U'' # server_text s) (wback w);
                    names = filter (\<lambda>n. n \<noteq> []) (split_at (c_str (take 4999 feedback)) (CHR '',''))
                in foldr_res (user_rows send) names (text, w\<lparr>wback := b\<rparr>))
             else Ok (text, w))
        (\<lambda>(text, w). Ok (text @ ''</tr>'', w)))"

definition admin_console :: "'b send \<Rightarrow> (string \<Rightarrow> 'b \<Rightarrow> string \<times> 'b) \<Rightarrow> (string \<Rightarrow> int \<Rightarrow> bool) \<Rightarrow> response \<Rightarrow>
    'b web \<Rightarrow> (response \<times> 'b web) res" where
  "admin_console send ask alive r w =
     rbind (parse_frontend_servers ''servers.txt'' (wfiles w) (wfront w)) (\<lambda>(_, m).
     let (frontend, w) = fold (front_row alive) (map int [1..<Suc (length m)]) ([], w\<lparr>wfront := m\<rparr>);
         (feedback, b) = ask ''A'' (wback w)
     in
     rbind (parse_backend_servers (take 1023 feedback) (wbackends w)) (\<lambda>(_, m).
     rbind (foldr_res (back_row send ask alive) (map int [1..<Suc (length m)]) ([], w\<lparr>wback := b, wbackends := m\<rparr>))
       (\<lambda>(backend, w).
     Ok (html ''html/admin-console.html'' [(''$frontend'', frontend), (''$backend'', backend)] (wfiles w) r, w))))"

section \<open>The handler of a request\<close>

definition starts :: "string \<Rightarrow> string \<Rightarrow> bool" where
  "starts url path \<longleftrightarrow> take (length url) path = url"

text \<open>\<open>"." + req.path\<close>; the file system has the names under the working directory without \<open>./\<close>.\<close>

definition static_path :: "string \<Rightarrow> string" where
  "static_path path = c_str (if take 1 path = ''/'' then drop 1 path else CHR ''.'' # path)"

definition respond :: "'b send \<Rightarrow> (string \<Rightarrow> 'b \<Rightarrow> string \<times> 'b) \<Rightarrow> (string \<Rightarrow> int \<Rightarrow> bool) \<Rightarrow> string list \<Rightarrow> string \<Rightarrow>
    string res \<Rightarrow> request \<Rightarrow> 'b web \<Rightarrow> (response \<times> 'b web) res" where
  "respond send ask alive input now dir req w0 =
     (let r = new_response req; path = rpath req; filename = static_path path;
          already = is_already_login (rcookies req) w0;
          w = (case already of None \<Rightarrow> w0 | Some u \<Rightarrow> w0\<lparr>wuser := u\<rparr>)
      in
      if path \<noteq> ''/'' \<and> is_file_exist filename (wfiles w0) then serve_file filename r w0
      else if path = ''/adminconsole'' then admin_console send ask alive r w0
      else if path = ''/register'' then reg send req r w0
      else if path = ''/login'' \<or> already = None then login send req r w0
      else if path = ''/upload'' then
        (if rmethod req = ''GET'' then upload r w
         else if rmethod req = ''POST'' then handle_upload send dir req r w else Ok (r, w))
      else if starts ''/download?'' path then download_file req r w
      else if starts ''/download'' path then download send dir req r w
      else if path = ''/newfolder'' then create_new_folder dir req r w
      else if path = ''/renamefile'' then rename_file dir req r w
      else if path = ''/deletefile'' then delete_file send dir req r w
      else if path = ''/deletefolder'' then delete_folder dir req r w
      else if path = ''/movefile'' then move_file dir req r w
      else if path = ''/sendemail'' then
        (if rmethod req = ''GET'' then send_email r w
         else if rmethod req = ''POST'' then handle_send_email input now req r w else Ok (r, w))
      else if path = ''/inbox'' then inbox send r w
      else if starts ''/viewemail'' path then view_email send req r w
      else if starts ''/forward'' path then forward_email send req r w
      else if starts ''/replyemail'' path then reply_email send req r w
      else if starts ''/deleteemail'' path then delete_email send req r w
      else if path = ''/logout'' then login send req r (w\<lparr>wsessions := delete_session (wuser w) (wsessions w)\<rparr>)
      else login send req r w)"

text \<open>\<open>client_handler\<close>: what is sent back for the bytes of a connection.\<close>

definition client_handler :: "'b send \<Rightarrow> (string \<Rightarrow> 'b \<Rightarrow> string \<times> 'b) \<Rightarrow> (string \<Rightarrow> int \<Rightarrow> bool) \<Rightarrow> string list \<Rightarrow> string \<Rightarrow>
    string res \<Rightarrow> string \<Rightarrow> 'b web \<Rightarrow> (string \<times> 'b web) res" where
  "client_handler send ask alive input now dir bytes w =
     rbind (parse_request bytes) (\<lambda>req.
     case req of
       None \<Rightarrow> Ok ([], w)
     | Some req \<Rightarrow> rbind (respond send ask alive input now dir req w) (\<lambda>(r, w). Ok (reply r, w)))"

end
