(* ===== verification/Store_Client.thy ===== *)
theory Store_Client
  imports Front_Pages
begin

text \<open>
  What the front end relies on when it uses the storage: the locale \<open>row_store\<close> states it for
  \<open>send\<close>, and the accounts are proved correct from it. The storage node that satisfies it is in the
  theory \<open>Front_System\<close>.

  \<^item> \<open>rows b u f\<close> is the value of the file \<open>f\<close> of user \<open>u\<close>; \<open>ready k b\<close> says that \<open>k\<close> more requests can
    be answered; \<open>room b u v\<close> that a new value \<open>v\<close> fits; \<open>limit\<close> bounds the lines of a reply.
\<close>

section \<open>Fields and values that survive the protocol\<close>

definition field_ok :: "string \<Rightarrow> bool" where
  "field_ok t \<longleftrightarrow> NUL \<notin> set t \<and> CHR '','' \<notin> set t"

text \<open>A value is made of lines with their ends; none of them is the end marker of a reply.\<close>

definition line_ok :: "string \<Rightarrow> bool" where
  "line_ok t \<longleftrightarrow> NUL \<notin> set t \<and> CR \<notin> set t \<and> t \<noteq> done_marker"

definition text_of :: "string list \<Rightarrow> string" where
  "text_of ls = concat (map (\<lambda>l. l @ crlf) ls)"

definition get_line :: "string \<Rightarrow> string \<Rightarrow> string" where
  "get_line u f = ''get '' @ u @ '','' @ f @ crlf"

definition put_line :: "string \<Rightarrow> string \<Rightarrow> string \<Rightarrow> string" where
  "put_line u f v = ''put '' @ u @ '','' @ f @ '','' @ v"

definition value_line :: string where "value_line = ''+OK value as follows: ''"

lemma text_of_simps [simp]:
  "text_of [] = []" "text_of (l # ls) = l @ CR # LF # text_of ls" "text_of (ls @ ms) = text_of ls @ text_of ms"
  by (simp_all add: text_of_def)

lemma messages_of_the_code:
  "get_user_message u = get_line u ''pwd''"
  "add_user_message u p = put_line u ''pwd'' (text_of [p])"
  by (simp_all add: get_user_message_def add_user_message_def get_line_def put_line_def)

section \<open>The interface\<close>

locale row_store =
  fixes send :: "'b send" and rows :: "'b \<Rightarrow> string \<Rightarrow> string \<Rightarrow> string option"
    and ready :: "nat \<Rightarrow> 'b \<Rightarrow> bool" and room :: "'b \<Rightarrow> string \<Rightarrow> string \<Rightarrow> bool" and limit :: nat
  assumes get_row: "ready (Suc k) b \<Longrightarrow> field_ok u \<Longrightarrow> field_ok f \<Longrightarrow> rows b u f = Some (text_of ls) \<Longrightarrow>
      \<forall>l \<in> set ls. line_ok l \<Longrightarrow> Suc (length ls) < limit \<Longrightarrow>
      \<exists>c. send (get_line u f) u b = Ok (value_line # ls, c) \<and> ready k c \<and> rows c = rows b \<and> room c = room b"
    and get_none: "ready (Suc k) b \<Longrightarrow> field_ok u \<Longrightarrow> field_ok f \<Longrightarrow> rows b u f = None \<Longrightarrow> 1 < limit \<Longrightarrow>
      \<exists>l c. send (get_line u f) u b = Ok ([l], c) \<and> take 3 l \<noteq> ''+OK'' \<and> ready k c \<and> rows c = rows b \<and> room c = room b"
    and put_row: "ready (Suc k) b \<Longrightarrow> field_ok u \<Longrightarrow> field_ok f \<Longrightarrow> NUL \<notin> set v \<Longrightarrow> rows b u f = None \<Longrightarrow>
      room b u v \<Longrightarrow> 1 < limit \<Longrightarrow>
      \<exists>rep c. send (put_line u f v) u b = Ok (rep, c) \<and> ready k c \<and> rows c = (rows b)(u := (rows b u)(f \<mapsto> v))"

section \<open>Accounts\<close>

text \<open>A form with a name and a password.\<close>

definition form_field :: "string \<Rightarrow> bool" where
  "form_field t \<longleftrightarrow> t \<noteq> [] \<and> NUL \<notin> set t \<and> CR \<notin> set t \<and> CHR ''&'' \<notin> set t \<and> CHR ''='' \<notin> set t \<and> CHR '','' \<notin> set t"

definition posts :: "request \<Rightarrow> string \<Rightarrow> string \<Rightarrow> bool" where
  "posts req u p \<longleftrightarrow> rmethod req = ''POST'' \<and> rbody req = ''username='' @ u @ ''&password='' @ p"

lemma getlines_pair: "d \<notin> set a \<Longrightarrow> d \<notin> set b \<Longrightarrow> b \<noteq> [] \<Longrightarrow> getlines d (a @ d # b) = [a, b]"
  by (simp add: getlines_cons getlines_none)

lemma form_fields:
  assumes "posts req u p" and "form_field u" and "form_field p"
  shows "field (params (rbody req)) 0 = Ok u" and "field (params (rbody req)) 1 = Ok p"
proof -
  have "c_str (rbody req) = (''username='' @ u) @ CHR ''&'' # (''password='' @ p)"
    using assms by (simp add: posts_def form_field_def c_str_id)
  then have ps: "params (rbody req) = [''username='' @ u, ''password='' @ p]"
    using assms getlines_pair [of "CHR ''&''" "''username='' @ u" "''password='' @ p"]
    by (simp add: params_def split_at_def form_field_def)
  have "split_at (''username='' @ u) (CHR ''='') = [''username'', u]"
    "split_at (''password='' @ p) (CHR ''='') = [''password'', p]"
    using assms getlines_pair [of "CHR ''=''" "''username''" u] getlines_pair [of "CHR ''=''" "''password''" p]
    by (simp_all add: form_field_def split_at_def)
  then show "field (params (rbody req)) 0 = Ok u" "field (params (rbody req)) 1 = Ok p"
    unfolding ps by (simp_all add: field_def del: append.simps)
qed

lemma value_line_ok [simp]: "take 3 value_line = ''+OK''"
  by (simp add: value_line_def)

lemma set_header_get [simp]:
  "oget (headers (set_header k v r)) j = (if j = k then Some v else oget (headers r) j)"
  by (simp add: set_header_def)

lemma html_body [simp]: "body (html name subs f r) = page name subs f"
  by (simp add: html_def set_body_def set_header_def ok_type_def)

lemma user_home_cookie [simp]: "oget (headers (user_home u r w)) SET_COOKIE = Some (''sessionid='' @ u)"
  by (simp add: user_home_def)

context row_store
begin

text \<open>Both accounts and passwords are compared with what the store has.\<close>

lemma login_known:
  assumes form: "posts req u p" "form_field u" "form_field p" and b: "ready (Suc k) (wback w)" "3 \<le> limit"
    and q: "rows (wback w) u ''pwd'' = Some (text_of [q])" "form_field q" "q \<noteq> done_marker"
  shows "\<exists>r' w'. login send req r w = Ok (r', w') \<and> ready k (wback w') \<and> rows (wback w') = rows (wback w) \<and>
    room (wback w') = room (wback w) \<and>
    wsessions w' = (if p = q then add_session u (wsessions w) else wsessions w) \<and>
    (p = q \<longrightarrow> oget (headers r') SET_COOKIE = Some (''sessionid='' @ u)) \<and>
    (p \<noteq> q \<longrightarrow> is_already_login (rcookies req) w = None \<longrightarrow>
       body r' = page ''html/login-failed.html'' [] (wfiles w))"
proof -
  have "field_ok u" "field_ok ''pwd''" "line_ok q"
    using form q by (simp_all add: field_ok_def form_field_def line_ok_def)
  then obtain c where c: "send (get_line u ''pwd'') u (wback w) = Ok ([value_line, q], c)"
    "ready k c" "rows c = rows (wback w)" "room c = room (wback w)"
    using get_row [OF b(1) _ _ q(1)] b(2) by auto
  have "rmethod req = ''POST''" using form(1) by (simp add: posts_def)
  then show ?thesis
    using form_fields [OF form] c
    by (auto simp: login_def Let_def backend_def messages_of_the_code split: option.split)
qed

lemma login_unknown:
  assumes form: "posts req u p" "form_field u" "form_field p" and b: "ready (Suc k) (wback w)" "1 < limit"
    and none: "rows (wback w) u ''pwd'' = None" and new: "is_already_login (rcookies req) w = None"
  shows "\<exists>r' w'. login send req r w = Ok (r', w') \<and> ready k (wback w') \<and> rows (wback w') = rows (wback w) \<and>
    wsessions w' = wsessions w \<and> body r' = page ''html/login-failed.html'' [] (wfiles w)"
proof -
  have "field_ok u" "field_ok ''pwd''" using form by (simp_all add: field_ok_def form_field_def)
  then obtain l c where c: "send (get_line u ''pwd'') u (wback w) = Ok ([l], c)" "take 3 l \<noteq> ''+OK''"
    "ready k c" "rows c = rows (wback w)"
    using get_none [OF b(1) _ _ none b(2)] by blast
  have "rmethod req = ''POST''" using form(1) by (simp add: posts_def)
  then show ?thesis
    using form_fields [OF form] c new
    by (auto simp: login_def Let_def backend_def messages_of_the_code)
qed

lemma reg_new:
  assumes form: "posts req u p" "form_field u" "form_field p" and b: "ready (Suc (Suc k)) (wback w)" "1 < limit"
    and none: "rows (wback w) u ''pwd'' = None" and room: "room (wback w) u (text_of [p])"
  shows "\<exists>r' w'. reg send req r w = Ok (r', w') \<and> ready k (wback w') \<and>
    rows (wback w') = (rows (wback w))(u := (rows (wback w) u)(''pwd'' \<mapsto> text_of [p])) \<and>
    wsessions w' = wsessions w \<and> body r' = page ''html/new-user.html'' [] (wfiles w')"
proof -
  have f: "field_ok u" "field_ok ''pwd''" "NUL \<notin> set (text_of [p])"
    using form by (simp_all add: field_ok_def form_field_def)
  obtain l c where c: "send (get_line u ''pwd'') u (wback w) = Ok ([l], c)" "take 3 l \<noteq> ''+OK''"
    "ready (Suc k) c" "rows c = rows (wback w)" "room c = room (wback w)"
    using get_none [OF b(1) f(1,2) none b(2)] by blast
  obtain rep d where d: "send (put_line u ''pwd'' (text_of [p])) u c = Ok (rep, d)" "ready k d"
    "rows d = (rows c)(u := (rows c u)(''pwd'' \<mapsto> text_of [p]))"
    using put_row [OF c(3) f(1,2,3) _ _ b(2)] none room c(4,5) by auto
  have "rmethod req = ''POST''" using form(1) by (simp add: posts_def)
  then show ?thesis
    using form_fields [OF form] c d
    by (auto simp: reg_def Let_def backend_def messages_of_the_code simp del: text_of_simps)
qed

lemma reg_taken:
  assumes form: "posts req u p" "form_field u" "form_field p" and b: "ready (Suc k) (wback w)" "3 \<le> limit"
    and q: "rows (wback w) u ''pwd'' = Some (text_of [q])" "form_field q" "q \<noteq> done_marker"
  shows "\<exists>r' w'. reg send req r w = Ok (r', w') \<and> rows (wback w') = rows (wback w) \<and>
    wsessions w' = wsessions w \<and> body r' = page ''html/user-already-exist.html'' [] (wfiles w')"
proof -
  have "field_ok u" "field_ok ''pwd''" "line_ok q"
    using form q by (simp_all add: field_ok_def form_field_def line_ok_def)
  then obtain c where c: "send (get_line u ''pwd'') u (wback w) = Ok ([value_line, q], c)" "rows c = rows (wback w)"
    using get_row [OF b(1) _ _ q(1)] b(2) by auto
  have "rmethod req = ''POST''" using form(1) by (simp add: posts_def)
  then show ?thesis
    using form_fields [OF form] c
    by (auto simp: reg_def Let_def backend_def messages_of_the_code)
qed

end

end
