(* ===== verification/Mail_Delivery.thy ===== *)
theory Mail_Delivery
  imports Mail_Server Store_Client
begin

text \<open>
  A mail from the form of the front end to the page that shows it: the mail server reads the lines,
  finds sender and recipient, and stores the text; the front end gets it back and takes it apart.
  The storage is the interface \<open>row_store\<close>.
\<close>

section \<open>Reading the lines of a mail\<close>

text \<open>A line of a mail; the dot alone would end it.\<close>

definition mail_line :: "string \<Rightarrow> bool" where
  "mail_line l \<longleftrightarrow> line_ok l \<and> l \<noteq> ''.'' \<and> length l + 2 < BUFFER_SIZE"

lemma sfind_crlf: "CR \<notin> set l \<Longrightarrow> sfind crlf (l @ CR # LF # r) = Some (length l)"
  by (induction l) auto

lemma read_command_line:
  "CR \<notin> set l \<Longrightarrow> length l + 2 < BUFFER_SIZE \<Longrightarrow> read_command (l @ CR # LF # r) = Ok (l @ crlf, r)"
  by (simp add: read_command_def sfind_crlf)

lemma mail_lines_text:
  assumes "\<forall>l \<in> set ls. mail_line l" and "ls \<noteq> [] \<or> 0 < k"
  shows "\<exists>b. mail_lines k b0 (text_of ls @ ''.'' @ CR # LF # rest) = Ok (map (\<lambda>l. l @ crlf) ls, b, rest)"
  using assms
proof (induction ls arbitrary: k b0)
  case Nil
  have "read_command (''.'' @ CR # LF # rest) = Ok (''.'' @ crlf, rest)"
    by (rule read_command_line) (simp_all add: BUFFER_SIZE_def)
  then show ?case using Nil by (subst mail_lines.simps) simp
next
  case (Cons l ls)
  have l: "NUL \<notin> set l" "CR \<notin> set l" "l \<noteq> ''.''" "length l + 2 < BUFFER_SIZE"
    using Cons.prems(1) by (simp_all add: mail_line_def line_ok_def)
  have "l @ crlf \<noteq> ''.'' @ crlf" using l(3) by simp
  moreover have "c_str (l @ crlf) = l @ crlf" using l(1) by (simp add: c_str_id)
  moreover obtain b where "mail_lines (length (l @ crlf)) ((overwrite (l @ crlf) b0)[length (l @ crlf) := NUL])
      (text_of ls @ ''.'' @ CR # LF # rest) = Ok (map (\<lambda>l. l @ crlf) ls, b, rest)"
    using Cons.IH [of "length (l @ crlf)"] Cons.prems(1) by auto
  moreover have "read_command (text_of (l # ls) @ ''.'' @ CR # LF # rest) =
      Ok (l @ crlf, text_of ls @ ''.'' @ CR # LF # rest)"
    using read_command_line [OF l(2,4), of "text_of ls @ ''.'' @ CR # LF # rest"] by simp
  ultimately show ?case
    by (subst mail_lines.simps) (simp del: text_of_simps append.simps)
qed

section \<open>Sender and recipients\<close>

lemma find_from_first: "c \<notin> set a \<Longrightarrow> find_from c (a @ c # b) 0 = Some (length a)"
  by (simp add: find_from_def sfind_from_def sfind_char)

lemma angle_positions:
  assumes "CHR ''<'' \<notin> set a" and "CHR ''>'' \<notin> set (a @ t)"
  shows "find_from (CHR ''<'') (a @ CHR ''<'' # t @ CHR ''>'' # r) 0 = Some (length a)"
    and "find_from (CHR ''>'') (a @ CHR ''<'' # t @ CHR ''>'' # r) 0 = Some (Suc (length a + length t))"
    and "between (a @ CHR ''<'' # t @ CHR ''>'' # r) (length a) (Some (Suc (length a + length t))) = Ok t"
  using find_from_first [of "CHR ''<''" a "t @ CHR ''>'' # r"]
    find_from_first [of "CHR ''>''" "a @ CHR ''<'' # t" r] assms
  by (simp_all add: between_def substr_from_def)

lemma sender_line:
  "CHR ''<'' \<notin> set a \<Longrightarrow> CHR ''>'' \<notin> set (a @ t) \<Longrightarrow>
   sender_of (a @ CHR ''<'' # t @ CHR ''>'' # r) = Ok t"
  by (simp add: sender_of_def angle_positions del: set_append)

lemma recipient_line:
  assumes "CHR ''<'' \<notin> set (a @ t @ r)" and "CHR ''>'' \<notin> set (a @ t)"
  shows "rcvrs_of (a @ CHR ''<'' # t @ CHR ''>'' # r) = Ok [t]"
proof -
  have "find_from (CHR ''<'') (a @ CHR ''<'' # t @ CHR ''>'' # r) (Suc (length a)) = None"
    using assms(1) by (simp add: find_from_def sfind_from_def sfind_char)
  then show ?thesis
    using angle_positions [of a t r] assms by (simp add: rcvrs_of_def)
qed

lemma scan_plain: "take 5 l \<noteq> ''From:'' \<Longrightarrow> take 3 l \<noteq> ''To:'' \<Longrightarrow> length (snd st) \<le> MAX_MESSAGE_NUM \<Longrightarrow> scan_line l st = Ok st"
  by (cases st) (simp add: scan_line_def)

section \<open>The text of the form\<close>

text \<open>A text in an address, and the lines of the content.\<close>

definition address_text :: "string \<Rightarrow> bool" where
  "address_text t \<longleftrightarrow> t \<noteq> [] \<and> field_ok t \<and> CR \<notin> set t \<and> CHR ''<'' \<notin> set t \<and> CHR ''>'' \<notin> set t \<and> CHR ''@'' \<notin> set t \<and>
     length t < 100"

definition content_line :: "string \<Rightarrow> bool" where
  "content_line l \<longleftrightarrow> mail_line l \<and> take 5 l \<noteq> ''From:'' \<and> take 3 l \<noteq> ''To:''"

definition mail_of :: "string \<Rightarrow> string \<Rightarrow> string \<Rightarrow> string \<Rightarrow> string list \<Rightarrow> string list" where
  "mail_of user name now title cs =
     [''From: <'' @ user @ ''@localhost.com>'', ''To: <'' @ name @ ''@localhost.com>'',
      ''Date: '' @ now, ''Subject: '' @ title] @ cs"

lemma mail_text_lines:
  "content @ crlf = text_of cs \<Longrightarrow>
   mail_text user (name @ ''@localhost.com'') now title content @ rest =
     ''Send'' @ CR # LF # text_of (mail_of user name now title cs) @ ''.'' @ CR # LF # rest"
  by (simp add: mail_text_def mail_of_def)

lemma scan_mail:
  assumes "address_text user" "address_text name" "\<forall>l \<in> set cs. content_line l"
  shows "foldr_res scan_line (map (\<lambda>l. l @ crlf) (mail_of user name now title cs)) ([], []) =
    Ok (user @ ''@localhost.com'', [name @ ''@localhost.com''])"
proof -
  have f: "sender_of (''From: '' @ CHR ''<'' # (user @ ''@localhost.com'') @ CHR ''>'' # crlf) = Ok (user @ ''@localhost.com'')"
    using assms(1) by (intro sender_line) (auto simp: address_text_def)
  have t: "rcvrs_of (''To: '' @ CHR ''<'' # (name @ ''@localhost.com'') @ CHR ''>'' # crlf) = Ok [name @ ''@localhost.com'']"
    using assms(2) by (intro recipient_line) (auto simp: address_text_def)
  have c: "foldr_res scan_line (map (\<lambda>l. l @ crlf) cs) st = Ok st" if "length (snd st) \<le> MAX_MESSAGE_NUM" for st
    using assms(3)
  proof (induction cs)
    case (Cons l cs)
    have "take 5 (l @ crlf) \<noteq> ''From:''" "take 3 (l @ crlf) \<noteq> ''To:''"
      using Cons.prems by (auto simp: content_line_def take_Cons' split: if_splits)
    then show ?case using Cons that by (simp add: scan_plain)
  qed simp
  show ?thesis
    using f t by (simp add: mail_of_def scan_line_def MAX_MESSAGE_NUM_def c)
qed

text \<open>The mail server on the text of the form: the recipient is local, so the mail is stored.\<close>

lemma is_send:
  assumes "take 1 over = [NUL]"
  shows "is_command over ''SEND'' (''Send'' @ crlf)"
    and "\<And>w. map lower (take 1 w) \<noteq> ''s'' \<Longrightarrow> w \<noteq> [] \<Longrightarrow> \<not> is_command over w (''Send'' @ crlf)"
proof -
  obtain r where o: "over = NUL # r" using assms by (cases over) auto
  have "c_str (''Send'' @ NUL # r) = ''Send''" by (simp add: c_str_def)
  moreover have "map lower ''Send'' = map lower ''SEND''" by code_simp
  ultimately show "is_command over ''SEND'' (''Send'' @ crlf)" by (simp add: is_command_def o c_str_def)
  fix w :: string
  assume w: "map lower (take 1 w) \<noteq> ''s''" "w \<noteq> []"
  have "lower (CHR ''S'') = CHR ''s''" by code_simp
  then show "\<not> is_command over w (''Send'' @ crlf)"
    using w by (cases w) (auto simp: is_command_def c_str_def)
qed

definition mail_form :: "string \<Rightarrow> string \<Rightarrow> string \<Rightarrow> string \<Rightarrow> string list \<Rightarrow> bool" where
  "mail_form user name now title cs \<longleftrightarrow>
     address_text user \<and> address_text name \<and> mail_line (''Date: '' @ now) \<and> mail_line (''Subject: '' @ title) \<and>
     (\<forall>l \<in> set cs. content_line l)"

lemma mail_of_lines: "mail_form user name now title cs \<Longrightarrow> \<forall>l \<in> set (mail_of user name now title cs). mail_line l"
  by (auto simp: mail_form_def mail_of_def content_line_def mail_line_def line_ok_def address_text_def field_ok_def
      BUFFER_SIZE_def done_marker_def)

definition stored_mail :: "string \<Rightarrow> string \<Rightarrow> string \<Rightarrow> string \<Rightarrow> string list \<Rightarrow> string" where
  "stored_mail user name now title cs = text_of (mail_of user name now title cs @ [''.''])"

lemma deliver_local:
  assumes "address_text name"
  shows "deliver send md5 remote sender content ((name @ ''@localhost.com'') # queue) s =
    rbind (put_mail send md5 name content s) (\<lambda>s. Ok (say_ok s))"
proof -
  have "cut (CHR ''@'') (name @ ''@localhost.com'') = Some (name, ''localhost.com'')"
    using assms by (simp add: cut_append address_text_def)
  then show ?thesis by simp
qed

lemma mail_form_step:
  assumes over: "take 1 over = [NUL]" and form: "mail_form user name now title cs" and content: "content @ crlf = text_of cs"
  shows "mail_step send md5 remote over (mail_text user (name @ ''@localhost.com'') now title content @ rest) s =
    rbind (put_mail send md5 name (stored_mail user name now title cs) s) (\<lambda>s. Ok (Some rest, say_ok s))"
proof -
  let ?ls = "mail_of user name now title cs"
  have a: "address_text user" "address_text name" "\<forall>l \<in> set cs. content_line l"
    using form by (simp_all add: mail_form_def)
  have "?ls \<noteq> []" by (simp add: mail_of_def)
  then obtain b where b: "mail_lines 0 (replicate BUFFER_SIZE NUL) (text_of ?ls @ CHR ''.'' # CR # LF # rest) =
      Ok (map (\<lambda>l. l @ crlf) ?ls, b, rest)"
    using mail_lines_text [OF mail_of_lines [OF form], of 0] by (simp only: append.simps) blast
  have "concat (map (\<lambda>l. l @ crlf) ?ls) @ ''.'' @ crlf = stored_mail user name now title cs"
    by (simp add: stored_mail_def text_of_def)
  then have h: "handle_send send md5 remote (text_of ?ls @ CHR ''.'' # CR # LF # rest) s =
      rbind (put_mail send md5 name (stored_mail user name now title cs) s) (\<lambda>s. Ok (rest, say_ok s))"
    by (simp add: handle_send_def b scan_mail [OF a] deliver_local [OF a(2)] rbind_assoc del: deliver.simps)
  have "read_command (''Send'' @ CR # LF # (text_of ?ls @ ''.'' @ CR # LF # rest)) =
      Ok (''Send'' @ crlf, text_of ?ls @ ''.'' @ CR # LF # rest)"
    by (rule read_command_line) (simp_all add: BUFFER_SIZE_def)
  moreover have "\<not> is_command over w (''Send'' @ crlf)" if "w \<in> {''HELO '', ''MAIL FROM'', ''RCPT TO'', ''DATA''}" for w
  proof -
    have "map lower ''H'' \<noteq> ''s''" "map lower ''M'' \<noteq> ''s''" "map lower ''R'' \<noteq> ''s''" "map lower ''D'' \<noteq> ''s''"
      by code_simp+
    then show ?thesis using that by (intro is_send(2) [OF over]) auto
  qed
  ultimately show ?thesis
    unfolding mail_text_lines [OF content] mail_step_def
    using is_send(1) [OF over] by (simp add: h rbind_assoc)
qed

section \<open>Showing a mail\<close>

lemma mail_body_lines:
  assumes "\<forall>l \<in> set cs. l \<noteq> ''.''"
  shows "mail_body (hs @ cs @ [''.'', []]) (length hs) = Ok (text_of cs, length hs + length cs)"
  using assms
proof (induction cs arbitrary: hs)
  case Nil
  then show ?case by (subst mail_body.simps) (simp add: at_def nth_append)
next
  case (Cons l cs)
  have "mail_body (hs @ (l # cs) @ [''.'', []]) (Suc (length hs)) = Ok (text_of cs, Suc (length hs) + length cs)"
    using Cons.IH [of "hs @ [l]"] Cons.prems by simp
  then show ?case using Cons.prems by (subst mail_body.simps) (simp add: at_def nth_append)
qed

lemma mail_fields_of:
  assumes "\<forall>l \<in> set cs. content_line l"
  shows "mail_fields (value_line # mail_of user name now title cs @ [''.'', []]) =
    Ok (user @ ''@localhost.com'', now, title, text_of cs)"
proof -
  have "\<forall>l \<in> set cs. l \<noteq> ''.''" using assms by (simp add: content_line_def mail_line_def)
  then have b: "mail_body (value_line # mail_of user name now title cs @ [''.'', []]) 5 =
      Ok (text_of cs, 5 + length cs)"
    using mail_body_lines [of cs "value_line # take 4 (mail_of user name now title cs)"]
    by (simp add: mail_of_def eval_nat_numeral)
  show ?thesis
    using b by (simp add: mail_fields_def mail_of_def at_def address_of_def substr_from_def)
qed

lemma view_query:
  "NUL \<notin> set key \<Longrightarrow> CHR ''='' \<notin> set key \<Longrightarrow> key \<noteq> [] \<Longrightarrow> query_key 11 (''/viewemail?key='' @ key) = Ok key"
  using getlines_pair [of "CHR ''=''" "''key''" key] by (simp add: query_key_def substr_from_def split_at_def)

lemma mail_messages:
  "''put '' @ u @ '',##'' @ key @ '','' @ text @ crlf = put_line u (''##'' @ key) (text @ crlf)"
  "''get '' @ u @ '',##'' @ key @ crlf = get_line u (''##'' @ key)"
  by (simp_all add: put_line_def get_line_def)

context row_store
begin

lemma mail_stored:
  assumes over: "take 1 over = [NUL]" and form: "mail_form user name now title cs" and content: "content @ crlf = text_of cs"
    and key: "field_ok (md5 (stored_mail user name now title cs))"
    and b: "ready (Suc k) (mback s)" "1 < limit" "rows (mback s) name (''##'' @ md5 (stored_mail user name now title cs)) = None"
      "room (mback s) name (stored_mail user name now title cs @ crlf)"
  shows "\<exists>s'. mail_step send md5 remote over (mail_text user (name @ ''@localhost.com'') now title content @ rest) s =
      Ok (Some rest, s') \<and> mreply s' = mreply s @ ''250 OK'' @ crlf \<and> ready k (mback s') \<and>
    rows (mback s') = (rows (mback s))(name := (rows (mback s) name)
      (''##'' @ md5 (stored_mail user name now title cs) \<mapsto> stored_mail user name now title cs @ crlf))"
proof -
  let ?m = "stored_mail user name now title cs"
  have "\<forall>l \<in> set (mail_of user name now title cs @ [''.'']). NUL \<notin> set l"
    using mail_of_lines [OF form] by (auto simp: mail_line_def line_ok_def)
  then have nul: "NUL \<notin> set ?m" by (auto simp: stored_mail_def text_of_def)
  then have f: "field_ok name" "field_ok (''##'' @ md5 ?m)" "NUL \<notin> set (?m @ crlf)"
    using form key by (simp_all add: mail_form_def address_text_def field_ok_def)
  obtain rep c where c: "send (put_line name (''##'' @ md5 ?m) (?m @ crlf)) name (mback s) = Ok (rep, c)"
    "ready k c" "rows c = (rows (mback s))(name := (rows (mback s) name)(''##'' @ md5 ?m \<mapsto> ?m @ crlf))"
    using put_row [OF b(1) f b(3,4,2)] by blast
  have "put_mail send md5 name ?m s = Ok (s\<lparr>mback := c\<rparr>)"
    using c(1) nul unfolding put_mail_def mail_messages by (simp add: c_str_id)
  then show ?thesis
    using mail_form_step [OF over form content, of send md5 remote rest s] c(2,3)
    by (simp add: say_ok_def say_def)
qed

lemma mail_shown:
  assumes form: "mail_form user name now title cs" and key: "field_ok key" "CHR ''='' \<notin> set key" "key \<noteq> []"
    and req: "rpath req = ''/viewemail?key='' @ key" and w: "wuser w = name"
    and b: "ready (Suc k) (wback w)" "length cs + 7 < limit"
    and row: "rows (wback w) name (''##'' @ key) = Some (stored_mail user name now title cs @ crlf)"
  shows "\<exists>w'. view_email send req r w = Ok (html ''html/view-email.html''
      [(''$from'', user @ ''@localhost.com''), (''$title'', title), (''$date'', now), (''$content'', text_of cs),
       (''$replyQuery'', ''key='' @ key), (''$forwardQuery'', ''key='' @ key), (''$deleteQuery'', ''key='' @ key)]
      (wfiles w) r, w') \<and> rows (wback w') = rows (wback w)"
proof -
  let ?ls = "mail_of user name now title cs @ [''.'', []]"
  have ls: "\<forall>l \<in> set ?ls. line_ok l" "Suc (length ?ls) < limit"
    using mail_of_lines [OF form] b(2) by (auto simp: mail_line_def line_ok_def done_marker_def mail_of_def)
  have row': "rows (wback w) name (''##'' @ key) = Some (text_of ?ls)"
    using row by (simp add: stored_mail_def)
  have f: "field_ok name" "field_ok (''##'' @ key)"
    using form key by (simp_all add: mail_form_def address_text_def field_ok_def)
  obtain c where c: "send (get_line name (''##'' @ key)) name (wback w) = Ok (value_line # ?ls, c)"
    "rows c = rows (wback w)"
    using get_row [OF b(1) f row' ls] by blast
  have "get_mail send key w = Ok (value_line # ?ls, w\<lparr>wback := c\<rparr>)"
    unfolding get_mail_def w mail_messages using c(1) by (simp add: backend_def)
  moreover have "query_key 11 (rpath req) = Ok key"
    using key unfolding req by (intro view_query) (simp_all add: field_ok_def)
  ultimately show ?thesis
    using form c(2) by (simp add: view_email_def mail_fields_of mail_form_def Let_def)
qed

end

end
