(* ===== verification/Front_Files.thy ===== *)
theory Front_Files
  imports Store_Client
begin

text \<open>
  The file service of a front end: what the form of a browser uploads, what the store gets of it, and
  what a download answers. A file with four hyphens in it is cut at the upload.
\<close>

section \<open>Searching\<close>

lemma prefix_before: "c \<notin> set p \<Longrightarrow> prefix p (a @ c # s) \<longleftrightarrow> prefix p a"
  by (induction a arbitrary: p) (auto simp: prefix_Cons)

lemma sfind_past:
  "c \<notin> set p \<Longrightarrow> p \<noteq> [] \<Longrightarrow> sfind p a = None \<Longrightarrow>
    sfind p (a @ c # s) = map_option ((+) (Suc (length a))) (sfind p s)"
proof (induction a)
  case Nil
  have "\<not> prefix p (c # s)" using Nil by (cases p) auto
  then show ?case using plus_1_eq_Suc by simp
next
  case (Cons b a)
  then show ?case
    using prefix_before [of c p "b # a" s] by (auto simp: option.map_comp comp_def split: if_splits)
qed

lemma sfind_kept: "c \<notin> set p \<Longrightarrow> p \<noteq> [] \<Longrightarrow> sfind p a = Some i \<Longrightarrow> sfind p (a @ c # s) = Some i"
proof (induction a arbitrary: i)
  case (Cons b a)
  then show ?case using prefix_before [of c p "b # a" s] by (auto split: if_splits)
qed simp

lemma sfind_absent: "c \<in> set p \<Longrightarrow> c \<notin> set s \<Longrightarrow> sfind p s = None"
proof (induction s)
  case (Cons d s)
  have "\<not> prefix p (d # s)" using Cons.prems set_mono_prefix [of p "d # s"] by auto
  then show ?case using Cons by simp
qed auto

lemma sfind_blank_line:
  "CR \<notin> set l \<Longrightarrow> sfind (crlf @ crlf) (l @ CR # LF # CR # LF # s) = Some (length l)"
  by (induction l) auto

lemma sfind_next_line:
  "CR \<notin> set l \<Longrightarrow> d \<noteq> CR \<Longrightarrow>
    sfind (crlf @ crlf) (l @ CR # LF # d # s) = map_option ((+) (length l + 2)) (sfind (crlf @ crlf) (d # s))"
  by (induction l) (auto simp: option.map_comp comp_def)

lemma drop_prefix: "drop (length xs) (xs @ ys) = ys" "length xs \<le> length (xs @ ys)"
  by simp_all

section \<open>The form of an upload\<close>

text \<open>What a browser sends for a form with one file; the boundary begins with two hyphens.\<close>

definition disposition :: string where
  "disposition = ''Content-Disposition: form-data; name=\"file\"; filename=\"''"

definition upload_form :: "string \<Rightarrow> string \<Rightarrow> string \<Rightarrow> string \<Rightarrow> string" where
  "upload_form b name ctype content =
     ''----'' @ b @ crlf @ disposition @ name @ ''\"'' @ crlf @ ''Content-Type: '' @ ctype @ crlf @ crlf @
     content @ crlf @ ''----'' @ b @ ''--'' @ crlf"

definition form_part :: "string \<Rightarrow> bool" where
  "form_part t \<longleftrightarrow> CR \<notin> set t \<and> CHR 0x22 \<notin> set t"

lemma form_name:
  assumes "form_part b" and "form_part name"
  shows "extract_file_name (upload_form b name ctype content) = Ok name"
proof -
  let ?p = "''filename=\"''" and ?r = "crlf @ ''Content-Type: '' @ ctype @ crlf @ crlf @ content @ crlf @ ''----'' @ b @ ''--'' @ crlf"
  have "sfind ?p (''----'' @ b) = None" by (rule sfind_absent [of "CHR 0x22"]) (use assms(1) in \<open>auto simp: form_part_def\<close>)
  then have "sfind ?p ((''----'' @ b) @ CR # LF # disposition @ name @ ''\"'' @ ?r) =
      map_option ((+) (Suc (length (''----'' @ b)))) (sfind ?p (LF # disposition @ name @ ''\"'' @ ?r))"
    by (rule sfind_past [rotated 2]) simp_all
  also have "sfind ?p (LF # disposition @ name @ ''\"'' @ ?r) = Some 46" by (simp add: disposition_def)
  finally have "sfind ?p (upload_form b name ctype content) = Some (51 + length b)" by (simp add: upload_form_def)
  moreover have p: "upload_form b name ctype content = (''----'' @ b @ crlf @ disposition) @ (name @ CHR 0x22 # ?r)"
    and len: "length (''----'' @ b @ crlf @ disposition) = 61 + length b"
    by (simp_all add: upload_form_def disposition_def)
  have "drop (61 + length b) (upload_form b name ctype content) = name @ CHR 0x22 # ?r"
    unfolding p len [symmetric] by (rule drop_prefix(1))
  moreover have "length (upload_form b name ctype content) \<ge> 61 + length b"
    unfolding p len [symmetric] by (rule drop_prefix(2))
  moreover have "sfind ''\"'' (name @ CHR 0x22 # ?r) = Some (length name)"
    using assms(2) by (simp add: sfind_char form_part_def)
  ultimately show ?thesis by (simp add: extract_file_name_def substr_from_def add.commute)
qed

lemma content_at:
  "sfind (crlf @ crlf) s = Some i \<Longrightarrow> i + 4 \<le> length s \<Longrightarrow> drop (i + 4) s = r \<Longrightarrow>
    extract_file_content s = Ok (case sfind ''----'' r of None \<Rightarrow> r | Some i \<Rightarrow> if i < 2 then r else take (i - 2) r)"
  by (simp add: extract_file_content_def substr_from_def)

lemma form_content:
  assumes "form_part b" "form_part name" and "CR \<notin> set ctype"
  shows "extract_file_content (upload_form b name ctype content) =
    Ok (case sfind ''----'' (content @ crlf @ ''----'' @ b @ ''--'' @ crlf) of
          None \<Rightarrow> content @ crlf @ ''----'' @ b @ ''--'' @ crlf
        | Some i \<Rightarrow> if i < 2 then content @ crlf @ ''----'' @ b @ ''--'' @ crlf
            else take (i - 2) (content @ crlf @ ''----'' @ b @ ''--'' @ crlf))"
proof -
  let ?r = "content @ crlf @ ''----'' @ b @ ''--'' @ crlf"
  let ?l1 = "''----'' @ b" and ?l2 = "disposition @ name @ ''\"''" and ?l3 = "''Content-Type: '' @ ctype"
  have cr: "CR \<notin> set ?l1" "CR \<notin> set ?l2" "CR \<notin> set ?l3"
    using assms by (auto simp: form_part_def disposition_def)
  have f: "upload_form b name ctype content = ?l1 @ CR # LF # ?l2 @ CR # LF # ?l3 @ CR # LF # CR # LF # ?r"
    by (simp add: upload_form_def)
  let ?P = "?l1 @ CR # LF # ?l2 @ CR # LF # ?l3 @ CR # LF # CR # LF # []"
  have p: "upload_form b name ctype content = ?P @ ?r" and len: "length ?P = length ?l1 + 2 + (length ?l2 + 2 + length ?l3) + 4"
    by (simp_all add: f)
  have "sfind (crlf @ crlf) (?l3 @ CR # LF # CR # LF # ?r) = Some (length ?l3)" by (rule sfind_blank_line [OF cr(3)])
  then have 2: "sfind (crlf @ crlf) (?l2 @ CR # LF # ?l3 @ CR # LF # CR # LF # ?r) = Some (length ?l2 + 2 + length ?l3)"
    using sfind_next_line [OF cr(2), of "CHR ''C''"] by simp
  have sf: "sfind (crlf @ crlf) (upload_form b name ctype content) = Some (length ?l1 + 2 + (length ?l2 + 2 + length ?l3))"
    unfolding f using sfind_next_line [OF cr(1), of "CHR ''C''"] 2 by (simp add: disposition_def)
  have dr: "drop (length ?l1 + 2 + (length ?l2 + 2 + length ?l3) + 4) (upload_form b name ctype content) = ?r"
    unfolding p len [symmetric] by (rule drop_prefix(1))
  have le: "length ?l1 + 2 + (length ?l2 + 2 + length ?l3) + 4 \<le> length (upload_form b name ctype content)"
    unfolding p len [symmetric] by (rule drop_prefix(2))
  show ?thesis by (rule content_at [OF sf le dr])
qed

lemma whole_content:
  assumes "form_part b" "form_part name" "CR \<notin> set ctype" and "sfind ''----'' content = None"
  shows "extract_file_content (upload_form b name ctype content) = Ok content"
proof -
  have "sfind ''----'' (content @ crlf @ ''----'' @ b @ ''--'' @ crlf) = Some (length content + 2)"
    using sfind_past [of CR "''----''" content "LF # ''----'' @ b @ ''--'' @ crlf"] assms(4) by simp
  then show ?thesis using form_content [OF assms(1-3)] by simp
qed

text \<open>A text with four hyphens ends two bytes before them, or runs on into the boundary.\<close>

lemma cut_content:
  assumes "form_part b" "form_part name" "CR \<notin> set ctype" and "sfind ''----'' content = Some i" "2 \<le> i"
  shows "extract_file_content (upload_form b name ctype content) = Ok (take (i - 2) content)"
proof -
  let ?r = "content @ crlf @ ''----'' @ b @ ''--'' @ crlf"
  have i: "i \<le> length content" using sfind_Some [OF assms(4)] by simp
  have "sfind ''----'' ?r = Some i"
    using sfind_kept [OF _ _ assms(4), of CR "LF # ''----'' @ b @ ''--'' @ crlf"] by simp
  then show ?thesis using form_content [OF assms(1-3), of content] assms(5) i by simp
qed

section \<open>Upload and download\<close>

text \<open>
  The name under which the front end keeps the file, and what has to hold for it: it is free or a
  file, its directory exists, it is safe as a format of \<open>debug\<close>.
\<close>

definition storable :: "string \<Rightarrow> fsys \<Rightarrow> bool" where
  "storable p f \<longleftrightarrow> can_create f p \<and> format_ok (c_str p) \<and> NUL \<notin> set p \<and> p \<noteq> []"

definition uploads :: "request \<Rightarrow> string \<Rightarrow> string \<Rightarrow> string \<Rightarrow> string \<Rightarrow> bool" where
  "uploads req b name ctype content \<longleftrightarrow> rmethod req = ''POST'' \<and> rpath req = ''/upload'' \<and>
     rbody req = upload_form b name ctype content"

definition upload_ok :: "string \<Rightarrow> string \<Rightarrow> string \<Rightarrow> string \<Rightarrow> bool" where
  "upload_ok b name ctype content \<longleftrightarrow>
     form_part b \<and> form_part name \<and> CR \<notin> set ctype \<and> sfind ''----'' content = None"

text \<open>A user with a session uploads a file into the directory \<open>d\<close>.\<close>

definition user_uploads :: "request \<Rightarrow> 'b web \<Rightarrow> string \<Rightarrow> string \<Rightarrow> string \<Rightarrow> string \<Rightarrow> bool" where
  "user_uploads req w u d name content \<longleftrightarrow>
     (\<exists>b ctype. uploads req b name ctype content \<and> upload_ok b name ctype content) \<and>
     is_already_login (rcookies req) w = Some u \<and> oget (wfiles w) ''upload'' = None \<and> storable (d @ name) (wfiles w)"

definition with_file_in :: "string \<Rightarrow> string \<Rightarrow> 'b \<Rightarrow> string \<Rightarrow> 'b web \<Rightarrow> 'b web" where
  "with_file_in p content bk u w = w\<lparr>wuser := u, wfiles := oupd p (File content) (wfiles w), wback := bk\<rparr>"

lemma with_file_in_simps [simp]:
  "wback (with_file_in p content bk u w) = bk" "wsessions (with_file_in p content bk u w) = wsessions w"
  "wfiles (with_file_in p content bk u w) = oupd p (File content) (wfiles w)"
  by (simp_all add: with_file_in_def)

lemma upload_stored:
  assumes up: "user_uploads req w u d name content"
    and store: "send (put_line u name (content @ crlf)) u (wback w) = Ok (rep, bk)"
  shows "\<exists>r. respond send ask alive input now (Ok d) req w = Ok (r, with_file_in (d @ name) content bk u w)"
proof -
  obtain b ctype where f: "uploads req b name ctype content" "upload_ok b name ctype content"
    using up by (auto simp: user_uploads_def)
  have "extract_file_name (rbody req) = Ok name" "extract_file_content (rbody req) = Ok content"
    using f form_name whole_content by (simp_all add: uploads_def upload_ok_def)
  moreover have "static_path (rpath req) = ''upload''" "rpath req \<noteq> ''/register''" "rpath req \<noteq> ''/login''"
    "rpath req \<noteq> ''/adminconsole''" "rpath req = ''/upload''" "rmethod req = ''POST''"
    using f(1) by (simp_all add: uploads_def static_path_def c_str_id)
  moreover have "put_line u name (content @ crlf) = ''put '' @ u @ '','' @ name @ '','' @ content @ crlf"
    by (simp add: put_line_def)
  ultimately show ?thesis
    using up store
    by (simp add: user_uploads_def respond_def is_file_exist_def handle_upload_def store_file_def debug_text_def storable_def
        backend_def Let_def with_file_in_def)
qed

lemma login_frame: "wsessions v = wsessions w \<Longrightarrow> is_already_login c v = is_already_login c w"
  by (auto simp: is_already_login_def split: option.split)

text \<open>What a download of a path answers.\<close>

lemma download_answer:
  assumes "rpath req = ''/download?'' @ p" and "is_already_login (rcookies req) w = Some u"
    and "oget (wfiles w) (c_str (''download?'' @ p)) = None"
  shows "\<exists>r. respond send ask alive input now dir req w = Ok (r, w\<lparr>wuser := u\<rparr>) \<and>
    body r = get_file_content_as_string p (wfiles w) \<and>
    oget (headers r) CONTENT_LEN = Some (to_string (file_size p (wfiles w)))"
  using assms
  by (simp add: respond_def is_file_exist_def static_path_def starts_def download_file_def substr_from_def Let_def
      set_header_def ok_type_def)

text \<open>A path of a file is served before any test of the session.\<close>

lemma static_answer:
  assumes "rpath req = CHR ''/'' # p" and "storable p f" and "wfiles w = oupd p (File content) g"
  shows "\<exists>r. respond send ask alive input now dir req w = Ok (r, w) \<and> body r = content"
proof -
  have "static_path (rpath req) = p" "rpath req \<noteq> ''/''"
    using assms(1,2) by (simp_all add: static_path_def c_str_id storable_def)
  then show ?thesis
    using assms(2,3)
    by (simp add: respond_def is_file_exist_def serve_file_def debug_text_def storable_def set_body_def set_header_def
        get_file_content_as_string_def file_content_def Let_def)
qed

context row_store
begin

text \<open>The store gets the content with a line end behind it.\<close>

lemma upload_row:
  assumes "user_uploads req w u d name content" and "ready (Suc k) (wback w)" and "field_ok u" "field_ok name"
    and "NUL \<notin> set content" and "rows (wback w) u name = None" and "room (wback w) u (content @ crlf)" and "1 < limit"
  shows "\<exists>r bk. respond send ask alive input now (Ok d) req w = Ok (r, with_file_in (d @ name) content bk u w) \<and>
    ready k bk \<and> rows bk = (rows (wback w))(u := (rows (wback w) u)(name \<mapsto> content @ crlf))"
proof -
  obtain rep bk where "send (put_line u name (content @ crlf)) u (wback w) = Ok (rep, bk)" "ready k bk"
    "rows bk = (rows (wback w))(u := (rows (wback w) u)(name \<mapsto> content @ crlf))"
    using put_row [OF assms(2-4) _ assms(6-8)] assms(5) by auto
  then show ?thesis using upload_stored [where send = send, OF assms(1)] by blast
qed

end

end
