(* ===== verification/Front_System.thy ===== *)
theory Front_System
  imports Mail_Delivery Front_Files KV_Protocol Master
begin

text \<open>
  The whole system behind a front end: the master and the storage nodes, each represented by the
  machine that is its primary. A request goes to the master, to the node it names, and its reply
  back through the reply loop of the front end. The interface \<open>row_store\<close> is interpreted on it.

  \<^item> \<open>snodes\<close> gives the node that listens at an address. A request to an address where nobody listens
    gives no bytes, so the reply loop does not end.
  \<^item> A node closes the connection after one request; \<open>fd\<close> is the connection's number on the node.
\<close>

section \<open>One request\<close>

record system =
  smaster :: Master.master
  snodes :: "string \<times> int \<Rightarrow> kv option"

definition ask_node :: "nat \<Rightarrow> int \<Rightarrow> string \<Rightarrow> kv \<Rightarrow> (string \<times> kv) res" where
  "ask_node n fd message p =
     rbind (worker_step n fd message (False, p)) (\<lambda>(_, q).
     Ok (concat (messages_to fd (drop (length (sent p)) (sent q))), q))"

definition route :: "string \<Rightarrow> (string \<times> int) res" where
  "route feedback =
     (let tokens = split_at (c_str (take 49 feedback)) (CHR '':'') in
      rbind (at tokens 1) (\<lambda>port. rbind (at tokens 0) (\<lambda>ip. Ok (ip, atoi port mod 2 ^ 16))))"

definition system_send ::
    "(string \<Rightarrow> int \<Rightarrow> bool) \<Rightarrow> nat \<Rightarrow> nat \<Rightarrow> int \<Rightarrow> system send" where
  "system_send alive n k fd message username s =
     rbind (master_step alive [] 0 (''?'' @ username) (smaster s)) (\<lambda>(feedback, m).
     rbind (route feedback) (\<lambda>a.
     rbind (case snodes s a of
              None \<Rightarrow> Ok ([], None)
            | Some p \<Rightarrow> rbind (ask_node n fd (c_str message) p) (\<lambda>(bytes, q). Ok (bytes, Some q))) (\<lambda>(bytes, q).
     rbind (send_to_backend k (\<lambda>_. feedback) (\<lambda>_ _ _. bytes) message username) (\<lambda>rep.
     Ok (rep, s\<lparr>smaster := m, snodes := (snodes s)(a := q)\<rparr>)))))"

section \<open>One request at a node\<close>

definition answering :: "nat \<Rightarrow> int \<Rightarrow> kv \<Rightarrow> bool" where
  "answering k fd p \<longleftrightarrow> serving k p \<and> is_primary p \<and> fd \<noteq> secondary_fd p"

definition row_in :: "view \<Rightarrow> string \<Rightarrow> string \<Rightarrow> string option" where
  "row_in V u f = (case vfiles V u of None \<Rightarrow> None | Some m \<Rightarrow> oget m f)"

definition room_in :: "int \<Rightarrow> view \<Rightarrow> string \<Rightarrow> string \<Rightarrow> bool" where
  "room_in cap V u v \<longleftrightarrow>
     int (length v) \<le> cap \<and> vused V + int (length v) \<le> cap \<and> vquota V u + int (length v) < cap"

lemma answering_less: "answering (Suc k) fd p \<Longrightarrow> answering k fd p"
  by (auto simp: answering_def intro: serving_less)

lemma ask_node_command:
  assumes p: "answering (Suc k) fd p" and c: "sane c" "within (capacity p) (executed c) (view_of p)"
  shows "\<exists>q. ask_node (Suc n) fd (wire c) p = Ok (concat (replies p fd 0 c) @ msg_done, q) \<and>
    answering k fd q \<and> capacity q = capacity p \<and> view_of q = view_step (capacity p) c (view_of p)"
proof -
  have s: "serving (Suc k) p" "is_primary p" "fd \<noteq> secondary_fd p" using p by (simp_all add: answering_def)
  obtain b q where q: "worker_step (Suc n) fd (wire c) (False, p) = Ok (b, q)" "serving k q"
    "view_of q = view_step (capacity p) c (view_of p)" "capacity q = capacity p"
    "is_primary q" "secondary_fd q = secondary_fd p"
    "sent q = sent p @ (map (Pair fd) (replies p fd 0 c) @
      (if writes c then [(secondary_fd p, to_string (next_seq p (user_of c)) @ '','' @ wire c)] else []) @
      [(fd, msg_done)])"
    using serve_one [OF s(1) c, of n fd] s(2) by auto
  have "concat (messages_to fd (drop (length (sent p)) (sent q))) = concat (replies p fd 0 c) @ msg_done"
    using s(3) by (simp add: q(7))
  then show ?thesis using q s by (intro exI [of _ q]) (simp add: ask_node_def answering_def)
qed

lemma field_sane:
  "field_ok u \<Longrightarrow> field_ok f \<Longrightarrow> sane (Get u f)"
  "field_ok u \<Longrightarrow> field_ok f \<Longrightarrow> NUL \<notin> set v \<Longrightarrow> sane (Put u f v)"
  by (simp_all add: field_ok_def sane_def)

lemma lines_are_wires: "get_line u f = wire (Get u f)" "put_line u f v = wire (Put u f v)"
  by (simp_all add: get_line_def put_line_def)

lemma get_at_node:
  assumes p: "answering (Suc k) fd p" and u: "field_ok u" "field_ok f"
  shows "\<exists>q. ask_node (Suc n) fd (get_line u f) p =
      Ok ((case row_in (view_of p) u f of
             None \<Rightarrow> (if vfiles (view_of p) u = None then msg_no_user else msg_no_file)
           | Some v \<Rightarrow> msg_value @ v) @ msg_done, q) \<and>
    answering k fd q \<and> capacity q = capacity p \<and> view_of q = view_of p"
proof -
  have "replies p fd 0 (Get u f) = (case row_in (view_of p) u f of
      None \<Rightarrow> [if vfiles (view_of p) u = None then msg_no_user else msg_no_file] | Some v \<Rightarrow> [msg_value, v])"
    by (simp add: replies_def spec_get_def with_file_def row_in_def split: option.split)
  moreover have "view_step (capacity p) (Get u f) (view_of p) = view_of p" by (rule view_step_get) simp
  ultimately show ?thesis
    using ask_node_command [OF p field_sane(1) [OF u], of n]
    by (auto simp: lines_are_wires split: option.splits)
qed

lemma put_at_node:
  assumes p: "answering (Suc k) fd p" and u: "field_ok u" "field_ok f" "NUL \<notin> set v"
    and new: "row_in (view_of p) u f = None" and room: "room_in (capacity p) (view_of p) u v"
  shows "\<exists>q. ask_node (Suc n) fd (put_line u f v) p = Ok (msg_stored @ msg_done, q) \<and>
    answering k fd q \<and> capacity q = capacity p \<and>
    row_in (view_of q) = (row_in (view_of p))(u := (row_in (view_of p) u)(f \<mapsto> v))"
proof -
  have "capacity p < 2 ^ 31" using p by (simp add: answering_def serving_def)
  then have w: "within (capacity p) (executed (Put u f v)) (view_of p)"
    and step: "spec_command (capacity p) True 0 (executed (Put u f v)) (view_of p) =
      (charge u (int (length v)) (put_files u (append_value f v (files_in (view_of p) u)) (view_of p)), [msg_stored])"
    using room by (auto simp: room_in_def spec_put_def)
  have "row_in (view_step (capacity p) (Put u f v) (view_of p)) =
      (row_in (view_of p))(u := (row_in (view_of p) u)(f \<mapsto> v))"
    unfolding view_step_def step using new
    by (auto simp: row_in_def charge_def put_files_def files_in_def append_value_def oget_def_def fun_eq_iff
        split: option.splits)
  then show ?thesis
    using ask_node_command [OF p field_sane(2) [OF u] w, of n] p step
    by (auto simp: lines_are_wires replies_def answering_def)
qed

section \<open>Routing\<close>

definition address_ok :: "string \<Rightarrow> int \<Rightarrow> bool" where
  "address_ok ip port \<longleftrightarrow>
     NUL \<notin> set ip \<and> CHR '':'' \<notin> set ip \<and> 0 \<le> port \<and> port < 2 ^ 16 \<and>
     length (ip @ '':'' @ to_string port) \<le> 49"

lemma route_address:
  assumes "address_ok ip port"
  shows "route (ip @ '':'' @ to_string port) = Ok (ip, port)"
proof -
  have a: "NUL \<notin> set ip" "CHR '':'' \<notin> set ip" "0 \<le> port" "port < 65536" "length (ip @ '':'' @ to_string port) \<le> 49"
    using assms by (simp_all add: address_ok_def)
  have i: "in_i32 port" using a(3,4) by (simp add: in_i32_def)
  have "c_str (take 49 (ip @ '':'' @ to_string port)) = ip @ CHR '':'' # to_string port"
    using a by (simp add: c_str_id)
  moreover have "getlines (CHR '':'') (ip @ CHR '':'' # to_string port) = [ip, to_string port]"
    using a(2) by (simp add: getlines_cons getlines_none)
  moreover have "atoi (to_string port) = port" using atoi_to_string [OF i, of "[]"] by simp
  ultimately show ?thesis using a(3,4) by (simp add: route_def split_at_def)
qed

lemma send_to_backend_route:
  "send_to_backend n ask node message u =
   rbind (route (ask (''?'' @ u))) (\<lambda>(ip, port). read_reply n message (node ip port (c_str message)))"
  by (simp add: send_to_backend_def route_def Let_def rbind_assoc)

section \<open>The system\<close>

text \<open>The address of the node of a user, the node, and the value of one of the user's files.\<close>

definition home :: "system \<Rightarrow> string \<Rightarrow> (string \<times> int) option" where
  "home s u =
     (case oget (servers (smaster s)) (owner (set (ids (smaster s))) (hash_str u)) of
        None \<Rightarrow> None
      | Some pr \<Rightarrow> map_option (Pair (sip (prim pr))) (sport (prim pr)))"

definition node_of :: "system \<Rightarrow> string \<Rightarrow> kv option" where
  "node_of s u = (case home s u of None \<Rightarrow> None | Some a \<Rightarrow> snodes s a)"

definition system_rows :: "system \<Rightarrow> string \<Rightarrow> string \<Rightarrow> string option" where
  "system_rows s u = (case node_of s u of None \<Rightarrow> (\<lambda>f. None) | Some p \<Rightarrow> row_in (view_of p) u)"

definition system_room :: "system \<Rightarrow> string \<Rightarrow> string \<Rightarrow> bool" where
  "system_room s u = (case node_of s u of None \<Rightarrow> (\<lambda>v. False) | Some p \<Rightarrow> room_in (capacity p) (view_of p) u)"

text \<open>Every node has a primary that accepts connections and can number \<open>k\<close> more requests.\<close>

definition system_ok :: "(string \<Rightarrow> int \<Rightarrow> bool) \<Rightarrow> int \<Rightarrow> nat \<Rightarrow> system \<Rightarrow> bool" where
  "system_ok alive fd k s \<longleftrightarrow>
     master_ok (smaster s) \<and>
     (\<forall>i pr. oget (servers (smaster s)) i = Some pr \<longrightarrow>
        (\<exists>port p. sport (prim pr) = Some port \<and> address_ok (sip (prim pr)) port \<and>
           alive (sip (prim pr)) port \<and> snodes s (sip (prim pr), port) = Some p \<and> answering k fd p))"

lemma master_answer:
  assumes s: "system_ok alive fd k s" and u: "NUL \<notin> set u"
  obtains ip port p m where "home s u = Some (ip, port)" "address_ok ip port" "snodes s (ip, port) = Some p"
    "answering k fd p" "master_step alive [] 0 (''?'' @ u) (smaster s) = Ok (ip @ '':'' @ to_string port, m)"
    "servers m = servers (smaster s)" "master_ok m"
proof -
  let ?m = "smaster s" and ?i = "owner (set (ids (smaster s))) (hash_str u)"
  have ok: "master_ok ?m" using s by (simp add: system_ok_def)
  then have m: "osorted (servers ?m)" "servers ?m \<noteq> []" by (simp_all add: master_ok_def)
  obtain pr where pr: "oget (servers ?m) ?i = Some pr"
    using owner_known [OF m, of "hash_str u"] server_of_owner [OF m, of "hash_str u"] hash_str_range [of u] by auto
  then obtain port p where p: "sport (prim pr) = Some port" "address_ok (sip (prim pr)) port"
    "alive (sip (prim pr)) port" "snodes s (sip (prim pr), port) = Some p" "answering k fd p"
    using s pr unfolding system_ok_def by blast
  obtain t where t: "lookup_user alive u ?m = Ok (sip (prim pr) @ '':'' @ to_string port, t)"
    "servers t = servers ?m" "master_ok t"
    using lookup_alive_ok [OF ok pr p(1), of alive] p(3) by blast
  have "c_str (''?'' @ u) = CHR ''?'' # u" using u by (simp add: c_str_id)
  then have "master_step alive [] 0 (''?'' @ u) ?m = lookup_user alive u ?m"
    by (simp add: master_step_def substr_from_def Let_def)
  then show thesis
    using that [of "sip (prim pr)" port p t] p t by (simp add: home_def pr)
qed

lemma node_ready:
  assumes "system_ok alive fd k s" and "NUL \<notin> set u"
  shows "\<exists>p. node_of s u = Some p \<and> answering k fd p"
proof -
  obtain ip port p where "home s u = Some (ip, port)" "snodes s (ip, port) = Some p" "answering k fd p"
    using master_answer [OF assms] by metis
  then show ?thesis by (simp add: node_of_def)
qed

lemma system_send_ok:
  assumes s: "system_ok alive fd k s" and u: "NUL \<notin> set u" and msg: "NUL \<notin> set message"
    and p: "node_of s u = Some p" and ask: "ask_node n fd message p = Ok (bytes, q)"
    and rep: "read_reply lim message bytes = Ok rep" and q: "answering j fd q" and j: "k = Suc j"
  shows "\<exists>t. system_send alive n lim fd message u s = Ok (rep, t) \<and> system_ok alive fd j t \<and>
    home t = home s \<and> (\<forall>w. node_of t w = (if home t w = home t u then Some q else node_of s w))"
proof -
  obtain ip port p' m where m: "home s u = Some (ip, port)" "address_ok ip port" "snodes s (ip, port) = Some p'"
    "master_step alive [] 0 (''?'' @ u) (smaster s) = Ok (ip @ '':'' @ to_string port, m)"
    "servers m = servers (smaster s)" "master_ok m"
    using master_answer [OF s u] by metis
  then have "p' = p" using p by (simp add: node_of_def)
  define t where "t = s\<lparr>smaster := m, snodes := (snodes s)((ip, port) := Some q)\<rparr>"
  have "system_send alive n lim fd message u s = Ok (rep, t)"
    using m \<open>p' = p\<close> ask rep msg route_address [OF m(2)]
    by (simp add: system_send_def send_to_backend_route c_str_id t_def)
  moreover have h: "home t = home s" using m(5) by (simp add: t_def home_def fun_eq_iff ids_def)
  moreover have "node_of t w = (if home t w = home t u then Some q else node_of s w)" for w
  proof -
    have "snodes t = (snodes s)((ip, port) := Some q)" by (simp add: t_def)
    then show ?thesis using m(1) by (cases "home s w") (auto simp: node_of_def h)
  qed
  moreover have "system_ok alive fd j t"
    unfolding system_ok_def
  proof (intro conjI allI impI)
    show "master_ok (smaster t)" using m(6) by (simp add: t_def)
    fix i pr
    assume "oget (servers (smaster t)) i = Some pr"
    then have "oget (servers (smaster s)) i = Some pr" using m(5) by (simp add: t_def)
    then obtain pt r where r: "sport (prim pr) = Some pt" "address_ok (sip (prim pr)) pt"
      "alive (sip (prim pr)) pt" "snodes s (sip (prim pr), pt) = Some r" "answering k fd r"
      using s unfolding system_ok_def by blast
    have "answering j fd r" using r(5) j by (auto intro: answering_less)
    then show "\<exists>pt r. sport (prim pr) = Some pt \<and> address_ok (sip (prim pr)) pt \<and>
        alive (sip (prim pr)) pt \<and> snodes t (sip (prim pr), pt) = Some r \<and> answering j fd r"
      using r q by (auto simp: t_def)
  qed
  ultimately show ?thesis by blast
qed

section \<open>The system is a store of rows\<close>

lemma replies_read:
  "2 \<le> lim \<Longrightarrow> CR \<notin> set l \<Longrightarrow> l \<noteq> done_marker \<Longrightarrow> take 7 message \<noteq> ''getlist'' \<Longrightarrow>
   read_reply lim message (l @ crlf @ msg_done) = Ok [l]"
  using read_reply_ok [of "[l]" message lim] by (simp add: msg_done_def done_marker_def)

lemma get_line_head: "take 7 (get_line u f) \<noteq> ''getlist''" and put_line_head: "take 7 (put_line u f v) \<noteq> ''getlist''"
  by (simp_all add: get_line_def put_line_def)

interpretation net: row_store "system_send alive (Suc n) lim fd" system_rows "system_ok alive fd" system_room lim
proof
  fix k b u f ls
  assume b: "system_ok alive fd (Suc k) b" and u: "field_ok u" "field_ok f"
    and row: "system_rows b u f = Some (text_of ls)" and ls: "\<forall>l \<in> set ls. line_ok l" "Suc (length ls) < lim"
  obtain p where p: "node_of b u = Some p" "answering (Suc k) fd p"
    using node_ready [OF b] u(1) by (auto simp: field_ok_def)
  then have r: "row_in (view_of p) u f = Some (text_of ls)" using row by (simp add: system_rows_def)
  obtain q where q: "ask_node (Suc n) fd (get_line u f) p = Ok (msg_value @ text_of ls @ msg_done, q)"
    "answering k fd q" "capacity q = capacity p" "view_of q = view_of p"
    using get_at_node [OF p(2) u, of n] by (simp add: r) blast
  have "read_reply lim (get_line u f) (concat (map (\<lambda>t. t @ crlf) (value_line # ls)) @ done_marker @ crlf) =
      Ok (value_line # ls)"
    using ls get_line_head
    by (intro read_reply_ok) (auto simp: line_ok_def value_line_def done_marker_def)
  moreover have "concat (map (\<lambda>t. t @ crlf) (value_line # ls)) @ done_marker @ crlf = msg_value @ text_of ls @ msg_done"
    by (simp add: msg_value_def value_line_def text_of_def msg_done_def done_marker_def)
  ultimately have rep: "read_reply lim (get_line u f) (msg_value @ text_of ls @ msg_done) = Ok (value_line # ls)"
    by simp
  have "NUL \<notin> set (get_line u f)" "NUL \<notin> set u" using u by (simp_all add: get_line_def field_ok_def)
  then obtain t where t: "system_send alive (Suc n) lim fd (get_line u f) u b = Ok (value_line # ls, t)"
    "system_ok alive fd k t" "home t = home b" "\<And>w. node_of t w = (if home t w = home t u then Some q else node_of b w)"
    using system_send_ok [OF b _ _ p(1) q(1) rep q(2) refl] by blast
  have same: "node_of b w = Some p" if "home t w = home t u" for w
    using that p(1) t(3) by (simp add: node_of_def)
  have "system_rows t = system_rows b" "system_room t = system_room b"
    using same q(3,4) by (auto simp: system_rows_def system_room_def t(4) fun_eq_iff split: option.split)
  then show "\<exists>c. system_send alive (Suc n) lim fd (get_line u f) u b = Ok (value_line # ls, c) \<and>
      system_ok alive fd k c \<and> system_rows c = system_rows b \<and> system_room c = system_room b"
    using t by blast
next
  fix k b u f
  assume b: "system_ok alive fd (Suc k) b" and u: "field_ok u" "field_ok f"
    and row: "system_rows b u f = None" and lim: "1 < lim"
  obtain p where p: "node_of b u = Some p" "answering (Suc k) fd p"
    using node_ready [OF b] u(1) by (auto simp: field_ok_def)
  then have r: "row_in (view_of p) u f = None" using row by (simp add: system_rows_def)
  define l where "l = (if vfiles (view_of p) u = None then ''-ERR User not exist'' else ''-ERR No such file'')"
  obtain q where q: "ask_node (Suc n) fd (get_line u f) p = Ok (l @ crlf @ msg_done, q)"
    "answering k fd q" "capacity q = capacity p" "view_of q = view_of p"
    using get_at_node [OF p(2) u, of n] r by (auto simp: l_def msg_no_user_def msg_no_file_def)
  have rep: "read_reply lim (get_line u f) (l @ crlf @ msg_done) = Ok [l]" "take 3 l \<noteq> ''+OK''"
  proof -
    have "CR \<notin> set l" "l \<noteq> done_marker" "take 3 l \<noteq> ''+OK''" by (auto simp: l_def done_marker_def)
    then show "read_reply lim (get_line u f) (l @ crlf @ msg_done) = Ok [l]" "take 3 l \<noteq> ''+OK''"
      using lim get_line_head replies_read [of lim l "get_line u f"] by simp_all
  qed
  have "NUL \<notin> set (get_line u f)" "NUL \<notin> set u" using u by (simp_all add: get_line_def field_ok_def)
  then obtain t where t: "system_send alive (Suc n) lim fd (get_line u f) u b = Ok ([l], t)"
    "system_ok alive fd k t" "home t = home b" "\<And>w. node_of t w = (if home t w = home t u then Some q else node_of b w)"
    using system_send_ok [OF b _ _ p(1) q(1) rep(1) q(2) refl] by blast
  have same: "node_of b w = Some p" if "home t w = home t u" for w
    using that p(1) t(3) by (simp add: node_of_def)
  have "system_rows t = system_rows b" "system_room t = system_room b"
    using same q(3,4) by (auto simp: system_rows_def system_room_def t(4) fun_eq_iff split: option.split)
  then show "\<exists>l c. system_send alive (Suc n) lim fd (get_line u f) u b = Ok ([l], c) \<and> take 3 l \<noteq> ''+OK'' \<and>
      system_ok alive fd k c \<and> system_rows c = system_rows b \<and> system_room c = system_room b"
    using t rep(2) by blast
next
  fix k b u f v
  assume b: "system_ok alive fd (Suc k) b" and u: "field_ok u" "field_ok f" "NUL \<notin> set v"
    and row: "system_rows b u f = None" and room: "system_room b u v" and lim: "1 < lim"
  obtain p where p: "node_of b u = Some p" "answering (Suc k) fd p"
    using node_ready [OF b] u(1) by (auto simp: field_ok_def)
  then have r: "row_in (view_of p) u f = None" "room_in (capacity p) (view_of p) u v"
    using row room by (simp_all add: system_rows_def system_room_def)
  obtain q where q: "ask_node (Suc n) fd (put_line u f v) p = Ok (msg_stored @ msg_done, q)" "answering k fd q"
    "row_in (view_of q) = (row_in (view_of p))(u := (row_in (view_of p) u)(f \<mapsto> v))"
    using put_at_node [OF p(2) u r, of n] by blast
  have rep: "read_reply lim (put_line u f v) (msg_stored @ msg_done) = Ok [''+OK Value stored'']"
    using replies_read [of lim "''+OK Value stored''" "put_line u f v"] lim put_line_head
    by (simp add: msg_stored_def done_marker_def)
  have "NUL \<notin> set (put_line u f v)" "NUL \<notin> set u" using u by (simp_all add: put_line_def field_ok_def)
  then obtain t where t: "system_send alive (Suc n) lim fd (put_line u f v) u b = Ok ([''+OK Value stored''], t)"
    "system_ok alive fd k t" "home t = home b" "\<And>w. node_of t w = (if home t w = home t u then Some q else node_of b w)"
    using system_send_ok [OF b _ _ p(1) q(1) rep q(2) refl] by blast
  have same: "node_of b w = Some p" if "home t w = home t u" for w
    using that p(1) t(3) by (simp add: node_of_def)
  have "system_rows t = (system_rows b)(u := (system_rows b u)(f \<mapsto> v))"
    using same q(3) p(1) by (auto simp: system_rows_def t(4) fun_eq_iff split: option.split)
  then show "\<exists>rep c. system_send alive (Suc n) lim fd (put_line u f v) u b = Ok (rep, c) \<and>
      system_ok alive fd k c \<and> system_rows c = (system_rows b)(u := (system_rows b u)(f \<mapsto> v))"
    using t by blast
qed

end
