(* ===== verification/Mail_Digest.thy ===== *)
theory Mail_Digest
  imports Cpp_String "HOL-Library.Word"
begin

text \<open>
  The key of a mail (\<open>hash_to_MD5\<close> in \<open>webmail/webmail_utils.cc\<close>): the digest of the text in lower-case
  hexadecimal. The digest itself is a parameter; what the store needs of it is its length.
\<close>

definition hex_lower :: "nat \<Rightarrow> char" where
  "hex_lower n = (if n < 10 then char_of (48 + n) else char_of (87 + n))"

text \<open>\<open>sprintf(buf, "%02x", b)\<close>.\<close>

definition hex_byte :: "8 word \<Rightarrow> string" where
  "hex_byte b = [hex_lower (unat b div 16), hex_lower (unat b mod 16)]"

definition MD5_DIGEST_LENGTH :: nat where "MD5_DIGEST_LENGTH = 16"

definition compute_digest :: "(string \<Rightarrow> 8 word list) \<Rightarrow> string \<Rightarrow> nat \<Rightarrow> 8 word list" where
  "compute_digest md5 data dataLengthBytes = md5 (take dataLengthBytes data)"

definition hash_to_MD5 :: "(string \<Rightarrow> 8 word list) \<Rightarrow> string \<Rightarrow> string" where
  "hash_to_MD5 md5 data =
     (let d = c_str data; digestBuffer = compute_digest md5 d (length d)
      in concat (map hex_byte (take MD5_DIGEST_LENGTH digestBuffer)))"

lemma hex_lower_chars:
  "\<forall>n\<in>set [0..<16]. hex_lower n \<noteq> NUL \<and> hex_lower n \<noteq> CHR '','' \<and> hex_lower n \<noteq> CHR ''='' \<and>
    hex_lower n \<noteq> CR \<and> hex_lower n \<noteq> LF"
  by (simp add: upt_conv_Cons hex_lower_def char_of_def)

lemma hex_lower_char:
  assumes "n < 16"
  shows "hex_lower n \<noteq> NUL \<and> hex_lower n \<noteq> CHR '','' \<and> hex_lower n \<noteq> CHR ''='' \<and> hex_lower n \<noteq> CR \<and> hex_lower n \<noteq> LF"
  using bspec [OF hex_lower_chars, of n] assms by simp

lemma hex_byte_chars: "c \<in> set (hex_byte b) \<Longrightarrow> \<exists>n < 16. c = hex_lower n"
proof -
  have "unat b < 256" using unsigned_less [of b, where 'a = nat] by simp
  then have b: "unat b div 16 < 16" "unat b mod 16 < 16" by (auto simp: less_mult_imp_div_less)
  assume "c \<in> set (hex_byte b)"
  then have "c = hex_lower (unat b div 16) \<or> c = hex_lower (unat b mod 16)" by (simp add: hex_byte_def)
  then show ?thesis using b by blast
qed

lemma key_chars:
  assumes "c \<in> set (hash_to_MD5 md5 data)"
  shows "c \<noteq> NUL \<and> c \<noteq> CHR '','' \<and> c \<noteq> CHR ''='' \<and> c \<noteq> CR \<and> c \<noteq> LF"
proof -
  obtain b where "c \<in> set (hex_byte b)" using assms by (auto simp: hash_to_MD5_def Let_def)
  then show ?thesis using hex_byte_chars hex_lower_char by metis
qed

lemma key_length: "length (md5 (c_str data)) = 16 \<Longrightarrow> length (hash_to_MD5 md5 data) = 32"
proof -
  have "length (concat (map hex_byte bs)) = 2 * length bs" for bs
    by (induction bs) (simp_all add: hex_byte_def)
  then show "length (md5 (c_str data)) = 16 \<Longrightarrow> ?thesis"
    by (simp add: hash_to_MD5_def compute_digest_def Let_def MD5_DIGEST_LENGTH_def)
qed

end
