(* ===== verification/System_Theorems.thy ===== *)
theory System_Theorems
  imports Front_System Mail_Digest
begin

text \<open>
  What the system does for its users, from the form in the browser through the front end, the
  master, the storage node and back: accounts and mails.
\<close>

section \<open>Accounts\<close>

text \<open>C8: After a registration through the front end, the master and the storage node, a login with the
  same password opens a session of that user and sets its cookie, and a login with another password
  leaves the sessions as they were.\<close>

theorem register_then_login:
  assumes s: "system_ok alive fd (Suc (Suc (Suc k))) (wback w)" "3 \<le> lim"
    and forms: "posts q1 u p" "posts q2 u p'" "form_field u" "form_field p" "form_field p'" "p \<noteq> done_marker"
    and new: "system_rows (wback w) u ''pwd'' = None" and room: "system_room (wback w) u (text_of [p])"
  shows "\<exists>r1 w1 r2 w2. reg (system_send alive (Suc n) lim fd) q1 r w = Ok (r1, w1) \<and>
    login (system_send alive (Suc n) lim fd) q2 r w1 = Ok (r2, w2) \<and>
    (p' = p \<longrightarrow> is_session_valid u (wsessions w2) \<and> oget (headers r2) SET_COOKIE = Some (''sessionid='' @ u)) \<and>
    (p' \<noteq> p \<longrightarrow> wsessions w2 = wsessions w)"
proof -
  obtain r1 w1 where 1: "reg (system_send alive (Suc n) lim fd) q1 r w = Ok (r1, w1)"
    "system_ok alive fd (Suc k) (wback w1)" "wsessions w1 = wsessions w"
    "system_rows (wback w1) u ''pwd'' = Some (text_of [p])"
    using net.reg_new [OF forms(1,3,4) s(1) _ new room, of lim n r] s(2) by auto
  obtain r2 w2 where 2: "login (system_send alive (Suc n) lim fd) q2 r w1 = Ok (r2, w2)"
    "wsessions w2 = (if p' = p then add_session u (wsessions w1) else wsessions w1)"
    "p' = p \<longrightarrow> oget (headers r2) SET_COOKIE = Some (''sessionid='' @ u)"
    using net.login_known [OF forms(2,3,5) 1(2) s(2) 1(4) forms(4,6), of n r] by blast
  show ?thesis
    using 1 2 by (intro exI [of _ r1] exI [of _ w1] exI [of _ r2] exI [of _ w2])
      (simp add: is_session_valid_def add_session_def)
qed

text \<open>C29: A registration under a name that is taken changes no row of any user in the storage nodes and
  no session, and answers the page that says so.\<close>

theorem taken_name_keeps_password:
  assumes s: "system_ok alive fd (Suc k) (wback w)" "3 \<le> lim"
    and forms: "posts req u p" "form_field u" "form_field p"
    and old: "system_rows (wback w) u ''pwd'' = Some (text_of [q])" "form_field q" "q \<noteq> done_marker"
  shows "\<exists>r' w'. reg (system_send alive (Suc n) lim fd) req r w = Ok (r', w') \<and>
    system_rows (wback w') = system_rows (wback w) \<and> wsessions w' = wsessions w \<and>
    body r' = page ''html/user-already-exist.html'' [] (wfiles w')"
  using net.reg_taken [OF forms s old] by blast

section \<open>Mails\<close>

text \<open>C7: A mail composed by the front end and sent by SEND is stored by the mail server in the row of
  its local recipient, and the page that the front end shows the recipient for its key has the
  sender, the subject, the date and the content that were entered. The conditions are: sender and
  recipient are plain names of less than 100 characters; no line of the mail is a single full stop
  or the end marker of the store, has a zero byte or a carriage return, or is longer than the buffer
  allows; no line of the content begins with From: or To:, which the server takes for headers; all
  storage nodes answer, the recipient has no mail with this key yet and its node has room for the
  mail; the digest of the mail has 16 bytes; and the byte behind the array into which the server
  copies the command, which the code compares although it never writes it, is zero.\<close>

theorem mail_round_trip:
  assumes s: "system_ok alive fd (Suc (Suc k)) (mback s)" "length cs + 7 < lim"
    and over: "take 1 over = [NUL]" and form: "mail_form user name now title cs" and content: "content @ crlf = text_of cs"
    and key: "key = hash_to_MD5 md5 (stored_mail user name now title cs)"
      "length (md5 (c_str (stored_mail user name now title cs))) = 16"
    and new: "system_rows (mback s) name (''##'' @ key) = None"
    and room: "system_room (mback s) name (stored_mail user name now title cs @ crlf)"
    and req: "rpath req = ''/viewemail?key='' @ key" and w: "wuser w = name"
  shows "\<exists>s' w'. mail_step (system_send alive (Suc n) lim fd) (hash_to_MD5 md5) remote over
        (mail_text user (name @ ''@localhost.com'') now title content @ rest) s = Ok (Some rest, s') \<and>
    view_email (system_send alive (Suc n) lim fd) req r (w\<lparr>wback := mback s'\<rparr>) =
      Ok (html ''html/view-email.html''
        [(''$from'', user @ ''@localhost.com''), (''$title'', title), (''$date'', now), (''$content'', content @ crlf),
         (''$replyQuery'', ''key='' @ key), (''$forwardQuery'', ''key='' @ key), (''$deleteQuery'', ''key='' @ key)]
        (wfiles w) r, w')"
proof -
  let ?m = "stored_mail user name now title cs"
  have k: "field_ok key" "CHR ''='' \<notin> set key" using key_chars [of _ md5 ?m] by (auto simp: key(1) field_ok_def)
  have "key \<noteq> []" using key_length [of md5 ?m, OF key(2)] key(1) by auto
  note k = k this
  obtain s' where s': "mail_step (system_send alive (Suc n) lim fd) (hash_to_MD5 md5) remote over
      (mail_text user (name @ ''@localhost.com'') now title content @ rest) s = Ok (Some rest, s')"
    "system_ok alive fd (Suc k) (mback s')"
    "system_rows (mback s') = (system_rows (mback s))(name := (system_rows (mback s) name)(''##'' @ key \<mapsto> ?m @ crlf))"
    using net.mail_stored [OF over form content, of "hash_to_MD5 md5" alive fd "Suc k" s lim n remote rest] s k key(1) new room by auto
  obtain w' where w': "view_email (system_send alive (Suc n) lim fd) req r (w\<lparr>wback := mback s'\<rparr>) =
      Ok (html ''html/view-email.html''
        [(''$from'', user @ ''@localhost.com''), (''$title'', title), (''$date'', now), (''$content'', text_of cs),
         (''$replyQuery'', ''key='' @ key), (''$forwardQuery'', ''key='' @ key), (''$deleteQuery'', ''key='' @ key)]
        (wfiles (w\<lparr>wback := mback s'\<rparr>)) r, w')"
    using net.mail_shown [OF form k(1-3) req, of "w\<lparr>wback := mback s'\<rparr>" alive fd k lim n r] s s' w by auto
  show ?thesis using s'(1) w' content by auto
qed

end
