(* ===== verification/System_Files.thy ===== *)
theory System_Files
  imports Front_System
begin

text \<open>
  The file service of the whole system: a file uploaded at a front end is in the row of its user in
  the storage node, and comes back from a download at the same front end; but everybody can read it
  there, and no other front end has it.
\<close>

definition stores_file :: "system \<Rightarrow> string \<Rightarrow> string \<Rightarrow> string \<Rightarrow> bool" where
  "stores_file s u name content \<longleftrightarrow> field_ok u \<and> field_ok name \<and> NUL \<notin> set content \<and>
     system_rows s u name = None \<and> system_room s u (content @ crlf)"

lemma upload_in_system:
  assumes "system_ok alive fd (Suc k) (wback w)" "1 < lim" and "user_uploads req w u d name content"
    and "stores_file (wback w) u name content"
  shows "\<exists>r bk. respond (system_send alive (Suc n) lim fd) ask up input now (Ok d) req w =
      Ok (r, with_file_in (d @ name) content bk u w) \<and>
    system_ok alive fd k bk \<and> system_rows bk u name = Some (content @ crlf)"
  using net.upload_row [OF assms(3,1) _ _ _ _ _ assms(2)] assms(4) by (fastforce simp: stores_file_def)

text \<open>The files of an upload come bk.\<close>


text \<open>Nobody needs a session to read them.\<close>

text \<open>C20: A file that a user has uploaded is answered to any request for its path, with or without a
  session: the test for a static file comes before the test of the session.\<close>

theorem uploads_are_public:
  assumes s: "system_ok alive fd (Suc k) (wback w)" "1 < lim"
    and up: "user_uploads req w u d name content" "stores_file (wback w) u name content"
    and any: "rpath req' = ''/'' @ d @ name"
  shows "\<exists>r1 w1 r2. respond (system_send alive (Suc n) lim fd) ask up input now (Ok d) req w = Ok (r1, w1) \<and>
    respond (system_send alive (Suc n) lim fd) ask up input now dir req' w1 = Ok (r2, w1) \<and> body r2 = content"
proof -
  obtain r1 bk where r1: "respond (system_send alive (Suc n) lim fd) ask up input now (Ok d) req w =
      Ok (r1, with_file_in (d @ name) content bk u w)"
    using upload_in_system [OF s up] by blast
  have "storable (d @ name) (wfiles w)" using up(1) by (simp add: user_uploads_def)
  then show ?thesis
    using r1 static_answer [of req' "d @ name" "wfiles w" "with_file_in (d @ name) content bk u w" content] any
    by fastforce
qed

text \<open>The other front ends do not have them, whatever the store says.\<close>

text \<open>C21: A file that was uploaded at one front end is in the storage node, but a front end with a
  working directory of its own, in which there is no file at this path, answers a download of it
  with the length -1 and no bytes, although it asks the same storage: downloads read the directory
  of the front end and never the storage. (Front ends that are started in the same directory share
  their files.) The user who asks has a session there, and the upload is one that
  upload_then_download covers.\<close>

theorem other_front_end_has_no_file:
  assumes s: "system_ok alive fd (Suc k) (wback w)" "1 < lim"
    and up: "user_uploads req w u d name content" "stores_file (wback w) u name content"
    and down: "rpath req' = ''/download?'' @ d @ name" "is_already_login (rcookies req') v = Some u'"
    and none: "oget (wfiles v) (d @ name) = None" "oget (wfiles v) (c_str (''download?'' @ d @ name)) = None"
  shows "\<exists>r1 w1 r2 w2. respond (system_send alive (Suc n) lim fd) ask up input now (Ok d) req w = Ok (r1, w1) \<and>
    system_rows (wback w1) u name = Some (content @ crlf) \<and>
    respond (system_send alive (Suc n) lim fd) ask up input now dir req' (v\<lparr>wback := wback w1\<rparr>) = Ok (r2, w2) \<and>
    body r2 = [] \<and> oget (headers r2) CONTENT_LEN = Some (to_string (- 1))"
proof -
  obtain r1 bk where r1: "respond (system_send alive (Suc n) lim fd) ask up input now (Ok d) req w =
      Ok (r1, with_file_in (d @ name) content bk u w)" "system_rows bk u name = Some (content @ crlf)"
    using upload_in_system [OF s up] by blast
  let ?v = "v\<lparr>wback := bk\<rparr>"
  have "is_already_login (rcookies req') ?v = Some u'" using down(2) login_frame [of ?v v] by simp
  then obtain r2 w2 where "respond (system_send alive (Suc n) lim fd) ask up input now dir req' ?v = Ok (r2, w2)"
    "body r2 = get_file_content_as_string (d @ name) (wfiles ?v)"
    "oget (headers r2) CONTENT_LEN = Some (to_string (file_size (d @ name) (wfiles ?v)))"
    using download_answer [OF down(1), of ?v u' "system_send alive (Suc n) lim fd" ask up input now dir] none(2) by auto
  then show ?thesis using r1 none(1) by (auto simp: get_file_content_as_string_def file_size_def file_content_def)
qed

end
