(* ===== verification/System_Examples.thy ===== *)
theory System_Examples
  imports System_Theorems System_Files KV_Examples
begin

text \<open>
  A system with one storage node of 1000 bytes: an account is created and used, a mail is sent and
  shown, and a file is uploaded and downloaded.
\<close>

definition big_node :: kv where "big_node = small_node\<lparr>capacity := 1000\<rparr>"

definition one_node :: system where
  "one_node = \<lparr>smaster = \<lparr>servers = [(1, \<lparr>prim = \<lparr>sid = Some 1, sip = ''10.0.0.1'', sport = Some 80,
       srunning = Some True\<rparr>, secd = dummy_server\<rparr>)], users = [], server_index = []\<rparr>,
     snodes = [(''10.0.0.1'', 80) \<mapsto> big_node]\<rparr>"

lemma big_node_simps [simp]:
  "view_of big_node = empty_view" "capacity big_node = 1000" "virmem_meta big_node = []" "is_primary big_node"
  "secondary_fd big_node = 0" "disk big_node = [(VM, Dir)]" "next_seq big_node u = 1"
  by (simp_all add: big_node_def view_of_def files_of_def oget_def_def fun_eq_iff next_seq_def)

lemma big_node_answering: "answering 3 5 big_node"
proof -
  have "kv_wf big_node" using small_node_wf by (simp add: big_node_def kv_wf_def nodes_ok_def)
  then have "serving 3 big_node"
    unfolding serving_def by simp
  then show ?thesis by (simp add: answering_def)
qed

lemma length_port: "length (to_string 80) = 2"
  by code_simp

lemma one_node_ok: "system_ok (\<lambda>ip port. True) 5 3 one_node"
proof -
  have "address_ok ''10.0.0.1'' 80" by (simp add: address_ok_def length_port)
  moreover have "master_ok (smaster one_node)" by (simp add: master_ok_def one_node_def osorted_Cons)
  ultimately show ?thesis using big_node_answering by (simp add: system_ok_def one_node_def)
qed

lemma one_node_home: "node_of one_node u = Some big_node"
proof -
  have "owner {1} k = 1" for k using owner_in [of "{1}" k] by simp
  then show ?thesis by (simp add: node_of_def home_def one_node_def ids_def okeys_def)
qed

lemma one_node_rows: "system_rows one_node u f = None"
  "system_room one_node u v \<longleftrightarrow> length v < 1000"
  by (auto simp: system_rows_def system_room_def one_node_home row_in_def room_in_def)

definition form :: "string \<Rightarrow> string \<Rightarrow> Front_Request.request" where
  "form path b = \<lparr>rmethod = ''POST'', rpath = path, rversion = ''HTTP/1.1'', rlength = Some (int (length b)),
     rcookies = [], rbody = b\<rparr>"

definition a_web :: "system web" where
  "a_web = \<lparr>wsessions = [], wuser = ''ann'', wfiles = [], wback = one_node, wmail = [], wfront = [], wbackends = []\<rparr>"

definition blank :: response where
  "blank = \<lparr>version = ''HTTP/1.1'', status = [], headers = [], body = []\<rparr>"

lemma fields_ok: "form_field ''ann''" "form_field ''secret''" "form_field ''guess''" "''secret'' \<noteq> done_marker"
  "posts (form ''/register'' ''username=ann&password=secret'') ''ann'' ''secret''"
  "posts (form ''/login'' ''username=ann&password=secret'') ''ann'' ''secret''"
  by (simp_all add: form_field_def done_marker_def posts_def form_def)

abbreviation a_send :: "system send" where
  "a_send \<equiv> system_send (\<lambda>ip port. True) 1 20 5"

theorem register_then_login_witness:
  "\<exists>r1 w1 r2 w2. reg a_send (form ''/register'' ''username=ann&password=secret'') blank a_web = Ok (r1, w1) \<and>
     login a_send (form ''/login'' ''username=ann&password=secret'') blank w1 = Ok (r2, w2) \<and>
     is_session_valid ''ann'' (wsessions w2) \<and> oget (headers r2) SET_COOKIE = Some ''sessionid=ann''"
proof -
  have "system_ok (\<lambda>ip port. True) 5 (Suc (Suc (Suc 0))) (wback a_web)"
    using one_node_ok by (simp add: a_web_def eval_nat_numeral)
  then show ?thesis
    using register_then_login [OF _ _ fields_ok(5,6,1,2,2,4), of "\<lambda>ip port. True" 5 0 a_web 20 0 blank]
    by (auto simp: a_web_def one_node_rows)
qed

theorem taken_name_keeps_password_witness:
  "\<exists>r1 w1 r2 w2. reg a_send (form ''/register'' ''username=ann&password=secret'') blank a_web = Ok (r1, w1) \<and>
     reg a_send (form ''/register'' ''username=ann&password=guess'') blank w1 = Ok (r2, w2) \<and>
     system_rows (wback w2) ''ann'' ''pwd'' = Some (''secret'' @ crlf)"
proof -
  have s: "system_ok (\<lambda>ip port. True) 5 (Suc (Suc (Suc 0))) (wback a_web)"
    using one_node_ok by (simp add: a_web_def eval_nat_numeral)
  have g: "posts (form ''/register'' ''username=ann&password=guess'') ''ann'' ''guess''"
    by (simp add: posts_def form_def)
  obtain r1 w1 where w1: "reg a_send (form ''/register'' ''username=ann&password=secret'') blank a_web = Ok (r1, w1)"
    "system_ok (\<lambda>ip port. True) 5 (Suc 0) (wback w1)" "system_rows (wback w1) ''ann'' ''pwd'' = Some (text_of [''secret''])"
    using net.reg_new [OF fields_ok(5,1,2) s, of 20 0 blank] by (auto simp: a_web_def one_node_rows)
  show ?thesis
    using taken_name_keeps_password [OF w1(2) _ g fields_ok(1,3) w1(3) fields_ok(2,4), of 20 0 blank] w1(1,3)
    by auto
qed

section \<open>A mail\<close>

definition a_mailer :: "system mailer" where
  "a_mailer = new_session [] one_node"

lemma a_mail_form: "mail_form ''bob'' ''ann'' ''noon'' ''greetings'' [''hello'', ''ann'']"
  by (simp add: mail_form_def address_text_def field_ok_def mail_line_def line_ok_def content_line_def
      BUFFER_SIZE_def done_marker_def)

lemma a_mail_length: "length (stored_mail ''bob'' ''ann'' ''noon'' ''greetings'' [''hello'', ''ann''] @ crlf) < 1000"
  by (simp add: stored_mail_def mail_of_def)

lemma zero_key: "hash_to_MD5 (\<lambda>t. replicate 16 0) d = ''00000000000000000000000000000000''"
proof -
  have "hex_lower 0 = CHR ''0''" by code_simp
  then have "hex_byte 0 = ''00''" by (simp add: hex_byte_def)
  moreover have "concat (replicate 16 ''00'') = ''00000000000000000000000000000000''" by code_simp
  ultimately show ?thesis
    by (simp add: hash_to_MD5_def compute_digest_def MD5_DIGEST_LENGTH_def Let_def)
qed

theorem mail_round_trip_witness:
  "\<exists>s' w'. mail_step a_send (hash_to_MD5 (\<lambda>t. replicate 16 0)) (\<lambda>h. Fail Undefined) [NUL]
        (mail_text ''bob'' ''ann@localhost.com'' ''noon'' ''greetings'' (''hello'' @ crlf @ ''ann'') @ ''QUIT'' @ crlf) a_mailer =
      Ok (Some (''QUIT'' @ crlf), s') \<and>
    view_email a_send (form ''/viewemail?key=00000000000000000000000000000000'' []) blank (a_web\<lparr>wback := mback s'\<rparr>) =
      Ok (html ''html/view-email.html''
        [(''$from'', ''bob@localhost.com''), (''$title'', ''greetings''), (''$date'', ''noon''),
         (''$content'', ''hello'' @ crlf @ ''ann'' @ crlf), (''$replyQuery'', ''key=00000000000000000000000000000000''),
         (''$forwardQuery'', ''key=00000000000000000000000000000000''), (''$deleteQuery'', ''key=00000000000000000000000000000000'')] [] blank, w')"
proof -
  have s: "system_ok (\<lambda>ip port. True) 5 (Suc (Suc 1)) (mback a_mailer)"
    using one_node_ok by (simp add: a_mailer_def new_session_def eval_nat_numeral)
  have room: "system_room (mback a_mailer) ''ann'' (stored_mail ''bob'' ''ann'' ''noon'' ''greetings'' [''hello'', ''ann''] @ crlf)"
    using a_mail_length by (simp add: a_mailer_def new_session_def one_node_rows del: length_append)
  have "\<exists>s' w'. mail_step a_send (hash_to_MD5 (\<lambda>t. replicate 16 0)) (\<lambda>h. Fail Undefined) [NUL]
        (mail_text ''bob'' (''ann'' @ ''@localhost.com'') ''noon'' ''greetings'' (''hello'' @ crlf @ ''ann'') @ ''QUIT'' @ crlf) a_mailer =
      Ok (Some (''QUIT'' @ crlf), s') \<and>
    view_email a_send (form ''/viewemail?key=00000000000000000000000000000000'' []) blank (a_web\<lparr>wback := mback s'\<rparr>) =
      Ok (html ''html/view-email.html''
        [(''$from'', ''bob'' @ ''@localhost.com''), (''$title'', ''greetings''), (''$date'', ''noon''),
         (''$content'', (''hello'' @ crlf @ ''ann'') @ crlf), (''$replyQuery'', ''key='' @ ''00000000000000000000000000000000''),
         (''$forwardQuery'', ''key='' @ ''00000000000000000000000000000000''), (''$deleteQuery'', ''key='' @ ''00000000000000000000000000000000'')] (wfiles a_web) blank, w')"
    unfolding One_nat_def
    by (rule mail_round_trip [OF s _ _ a_mail_form])
      (use room zero_key in \<open>simp_all add: field_ok_def one_node_rows a_mailer_def new_session_def form_def a_web_def\<close>)
  then show ?thesis by (simp add: a_web_def)
qed

section \<open>A file\<close>

definition file_web :: "system web" where
  "file_web = a_web\<lparr>wsessions := [(''ann'', ())], wfiles := [(''ann'', Dir)]\<rparr>"

definition ann_asks :: "string \<Rightarrow> string \<Rightarrow> Front_Request.request" where
  "ann_asks path b = (form path b)\<lparr>rcookies := [(''sessionid'', ''ann'')]\<rparr>"

abbreviation an_upload :: Front_Request.request where
  "an_upload \<equiv> ann_asks ''/upload'' (upload_form ''WebKit'' ''f'' ''text/plain'' ''hi'')"

abbreviation a_respond :: "string res \<Rightarrow> Front_Request.request \<Rightarrow> system web \<Rightarrow> (response \<times> system web) res" where
  "a_respond \<equiv> respond a_send (\<lambda>m b. ([], b)) (\<lambda>ip p. True) [] []"

lemma ann_uploads: "user_uploads an_upload file_web ''ann'' ''ann/'' ''f'' ''hi''"
proof -
  have "uploads an_upload ''WebKit'' ''f'' ''text/plain'' ''hi''" "upload_ok ''WebKit'' ''f'' ''text/plain'' ''hi''"
    by (simp_all add: uploads_def ann_asks_def form_def upload_ok_def form_part_def)
  moreover have "is_already_login (rcookies an_upload) file_web = Some ''ann''"
    by (simp add: is_already_login_def is_session_valid_def ann_asks_def form_def file_web_def)
  moreover have "storable (''ann/'' @ ''f'') (wfiles file_web)" by code_simp
  moreover have "oget (wfiles file_web) ''upload'' = None" by (simp add: file_web_def)
  ultimately show ?thesis unfolding user_uploads_def by blast
qed

lemma file_fits: "stores_file (wback file_web) ''ann'' ''f'' ''hi''" "system_ok (\<lambda>ip port. True) 5 (Suc 2) (wback file_web)"
  using one_node_ok by (simp_all add: stores_file_def file_web_def a_web_def field_ok_def one_node_rows)

lemma ann_reads:
  "rpath (ann_asks ''/download?ann/f'' []) = ''/download?'' @ ''ann/'' @ ''f''"
  "is_already_login (rcookies (ann_asks ''/download?ann/f'' [])) file_web = Some ''ann''"
  "oget (wfiles file_web) (''download?'' @ ''ann/'' @ ''f'') = None"
  "oget (wfiles file_web) (''ann/'' @ ''f'') = None"
  by (simp_all add: ann_asks_def form_def is_already_login_def is_session_valid_def file_web_def)


theorem uploads_are_public_witness:
  "\<exists>r1 w1 r2. a_respond (Ok ''ann/'') an_upload file_web = Ok (r1, w1) \<and>
     a_respond (Fail NullDeref) (form ''/ann/f'' []) w1 = Ok (r2, w1) \<and> body r2 = ''hi''"
proof -
  have "rpath (form ''/ann/f'' []) = ''/'' @ ''ann/'' @ ''f''" by (simp add: form_def)
  from uploads_are_public [OF file_fits(2) _ ann_uploads file_fits(1) this,
      of 20 0 "\<lambda>m b. ([], b)" "\<lambda>ip p. True" "[]" "[]" "Fail NullDeref"] show ?thesis
    unfolding One_nat_def by simp
qed

theorem other_front_end_has_no_file_witness:
  "\<exists>r1 w1 r2 w2. a_respond (Ok ''ann/'') an_upload file_web = Ok (r1, w1) \<and>
     system_rows (wback w1) ''ann'' ''f'' = Some (''hi'' @ crlf) \<and>
     a_respond (Fail NullDeref) (ann_asks ''/download?ann/f'' []) (file_web\<lparr>wback := wback w1\<rparr>) = Ok (r2, w2) \<and>
     body r2 = [] \<and> oget (headers r2) CONTENT_LEN = Some (to_string (- 1))"
proof -
  have "oget (wfiles file_web) (c_str (''download?'' @ ''ann/'' @ ''f'')) = None" by (simp add: file_web_def c_str_id)
  from other_front_end_has_no_file [OF file_fits(2) _ ann_uploads file_fits(1) ann_reads(1,2,4) this,
      of 20 0 "\<lambda>m b. ([], b)" "\<lambda>ip p. True" "[]" "[]" "Fail NullDeref"] show ?thesis
    unfolding One_nat_def by simp
qed

end
