(* ===== verification/Front_Access.thy ===== *)
theory Front_Access
  imports Front_Pages
begin

text \<open>
  Who gets a session: the handlers keep the set of sessions, except the login, which adds one when
  the storage answers with the password of the form.
\<close>

section \<open>Handlers keep the sessions\<close>

lemma backend_keeps: "backend send m u w = Ok (rep, w') \<Longrightarrow> wsessions w' = wsessions w \<and> wfront w' = wfront w"
  by (auto simp: backend_def rbind_eq_Ok)

lemma file_handlers_keep:
  "upload r w = Ok (r', w') \<Longrightarrow> wsessions w' = wsessions w"
  "handle_upload send dir req r w = Ok (r', w') \<Longrightarrow> wsessions w' = wsessions w"
  "serve_file fn r w = Ok (r', w') \<Longrightarrow> wsessions w' = wsessions w"
  "create_new_folder dir req r w = Ok (r', w') \<Longrightarrow> wsessions w' = wsessions w"
  "rename_file dir req r w = Ok (r', w') \<Longrightarrow> wsessions w' = wsessions w"
  "delete_file send dir req r w = Ok (r', w') \<Longrightarrow> wsessions w' = wsessions w"
  "delete_folder dir req r w = Ok (r', w') \<Longrightarrow> wsessions w' = wsessions w"
  "move_file dir req r w = Ok (r', w') \<Longrightarrow> wsessions w' = wsessions w"
  "download_file req r w = Ok (r', w') \<Longrightarrow> wsessions w' = wsessions w"
  "download send dir req r w = Ok (r', w') \<Longrightarrow> wsessions w' = wsessions w"
  by (auto simp: upload_def handle_upload_def serve_file_def create_new_folder_def rename_file_def
      delete_file_def delete_folder_def move_file_def download_file_def download_def rbind_eq_Ok Let_def
      dest!: backend_keeps split: if_splits)

lemma mail_handlers_keep:
  "send_email r w = Ok (r', w') \<Longrightarrow> wsessions w' = wsessions w"
  "handle_send_email input now req r w = Ok (r', w') \<Longrightarrow> wsessions w' = wsessions w"
  "inbox send r w = Ok (r', w') \<Longrightarrow> wsessions w' = wsessions w"
  "view_email send req r w = Ok (r', w') \<Longrightarrow> wsessions w' = wsessions w"
  "forward_email send req r w = Ok (r', w') \<Longrightarrow> wsessions w' = wsessions w"
  "reply_email send req r w = Ok (r', w') \<Longrightarrow> wsessions w' = wsessions w"
  "delete_email send req r w = Ok (r', w') \<Longrightarrow> wsessions w' = wsessions w"
  by (auto simp: send_email_def handle_send_email_def inbox_def view_email_def forward_email_def reply_email_def
      delete_email_def get_mail_def rbind_eq_Ok Let_def dest!: backend_keeps)

lemma reg_keeps: "reg send req r w = Ok (r', w') \<Longrightarrow> wsessions w' = wsessions w"
  by (auto simp: reg_def rbind_eq_Ok Let_def dest!: backend_keeps split: if_splits)

lemma rows_keep:
  "user_rows send name (t, w) = Ok (t', w') \<Longrightarrow> wsessions w' = wsessions w"
  "wsessions (snd (front_row alive i (t, w))) = wsessions w"
  by (auto simp: user_rows_def front_row_def rbind_eq_Ok Let_def dest!: backend_keeps)

lemma foldr_res_keeps:
  assumes "\<And>x t w t' w'. f x (t, w) = Ok (t', w') \<Longrightarrow> g w' = g w" and "foldr_res f xs (t, w) = Ok (t', w')"
  shows "g w' = g w"
  using assms(2)
proof (induction xs arbitrary: t w)
  case (Cons x xs)
  then obtain t1 w1 where "f x (t, w) = Ok (t1, w1)" "foldr_res f xs (t1, w1) = Ok (t', w')"
    by (auto simp: rbind_eq_Ok)
  then show ?case using Cons.IH assms(1) by metis
qed simp

lemma fold_keeps:
  assumes "\<And>x t w. g (snd (f x (t, w))) = g w"
  shows "g (snd (fold f xs st)) = g (snd st)"
proof (induction xs arbitrary: st)
  case (Cons x xs)
  then show ?case using assms [of x "fst st" "snd st"] by simp
qed simp

lemma users_keep: "foldr_res (user_rows send) ns (t, w) = Ok (t', w') \<Longrightarrow> wsessions w' = wsessions w"
  by (rule foldr_res_keeps [where f = "user_rows send" and g = wsessions]) (rule rows_keep(1))

lemma fronts_keep: "wsessions (snd (fold (front_row alive) is (t, w))) = wsessions w"
  using fold_keeps [where g = wsessions and f = "front_row alive" and st = "(t, w)", OF rows_keep(2)] by simp

lemma back_row_keeps: "back_row send ask alive i (t, w) = Ok (t', w') \<Longrightarrow> wsessions w' = wsessions w"
  by (auto simp: back_row_def rbind_eq_Ok Let_def split_beta split: if_splits dest!: users_keep)

lemma backs_keep: "foldr_res (back_row send ask alive) is (t, w) = Ok (t', w') \<Longrightarrow> wsessions w' = wsessions w"
  by (rule foldr_res_keeps [where f = "back_row send ask alive" and g = wsessions]) (rule back_row_keeps)

lemma admin_keeps:
  assumes "admin_console send ask alive r w = Ok (r', w')" shows "wsessions w' = wsessions w"
  using assms unfolding admin_console_def
  by (auto simp: rbind_eq_Ok Let_def split_beta fronts_keep simp del: upt_Suc dest!: backs_keep)

section \<open>The login\<close>

text \<open>The store has the password of the form under the name of the form.\<close>

definition password_checked :: "'b send \<Rightarrow> request \<Rightarrow> 'b \<Rightarrow> string \<Rightarrow> bool" where
  "password_checked send req b u \<longleftrightarrow>
     (\<exists>rep c p. send (get_user_message u) u b = Ok (rep, c) \<and> at rep 1 = Ok p \<and> take 3 (rep ! 0) = ''+OK'' \<and>
        field (params (rbody req)) 0 = Ok u \<and> field (params (rbody req)) 1 = Ok p)"

lemma login_sessions:
  assumes "login send req r w = Ok (r', w')"
  shows "wsessions w' = wsessions w \<or>
    (\<exists>u. wsessions w' = add_session u (wsessions w) \<and> password_checked send req (wback w) u)"
proof (cases "wsessions w' = wsessions w")
  case False
  then have "rmethod req = ''POST''" using assms by (auto simp: login_def Let_def split: if_splits)
  then obtain u p rep c where *: "field (params (rbody req)) 0 = Ok u" "field (params (rbody req)) 1 = Ok p"
    "send (get_user_message u) u (wback w) = Ok (rep, c)" "wsessions w' = add_session u (wsessions w)"
    "take 3 (rep ! 0) = ''+OK''" "at rep 1 = Ok p"
    using assms False
    by (auto simp: login_def backend_def rbind_eq_Ok Let_def at_def split: if_splits)
  then show ?thesis unfolding password_checked_def by blast
qed simp

lemma login_valid:
  assumes "login send req r w = Ok (r', w')" and "is_session_valid u (wsessions w')"
  shows "is_session_valid u (wsessions w) \<or> password_checked send req (wback w) u"
  using login_sessions [OF assms(1)] assms(2) by (auto simp: is_session_valid_def add_session_def split: if_splits)

lemma logout_valid:
  assumes "login send req r (w\<lparr>wsessions := delete_session v (wsessions w)\<rparr>) = Ok (r', w')"
    and "is_session_valid u (wsessions w')"
  shows "is_session_valid u (wsessions w) \<or> password_checked send req (wback w) u"
  using login_valid [OF assms] by (auto simp: is_session_valid_def delete_session_def split: if_splits)

lemmas handlers_keep = file_handlers_keep mail_handlers_keep reg_keeps admin_keeps

text \<open>C17: Whatever request a front end answers, a session exists afterwards only if it existed before
  or if the request named the user and the password that the store returned for this user.\<close>

theorem session_only_by_password:
  assumes "respond send ask alive input now dir req w = Ok (r', w')" and "is_session_valid u (wsessions w')"
  shows "is_session_valid u (wsessions w) \<or> password_checked send req (wback w) u"
proof -
  define w1 where "w1 = (case is_already_login (rcookies req) w of None \<Rightarrow> w | Some v \<Rightarrow> w\<lparr>wuser := v\<rparr>)"
  have w1: "wsessions w1 = wsessions w" "wback w1 = wback w" by (simp_all add: w1_def split: option.split)
  have keep: "wsessions w' = wsessions w \<or> login send req (new_response req) w = Ok (r', w') \<or>
      login send req (new_response req) w1 = Ok (r', w') \<or>
      login send req (new_response req) (w1\<lparr>wsessions := delete_session (wuser w1) (wsessions w1)\<rparr>) = Ok (r', w')"
    using assms(1) w1 unfolding respond_def Let_def w1_def [symmetric]
    by (auto split: if_splits dest: handlers_keep)
  then show ?thesis
    using assms(2) login_valid [of send req "new_response req" w r' w' u] login_valid [of send req "new_response req" w1 r' w' u]
      logout_valid [of send req "new_response req" "wuser w1" w1 r' w' u] w1
    by auto
qed

end
