(* ===== verification/Service_Examples.thy ===== *)
theory Service_Examples
imports Front_Access Store_Client
begin

text \<open>
  Concrete runs of the storage client and of the mail connection: the theorems of those theories
  applied at an input where all their hypotheses hold.
\<close>

section \<open>The storage client\<close>

theorem read_reply_lines_witness:
  "read_reply 3 ''get ann,pwd'' (concat (map (\<lambda>t. t @ crlf) [''+OK Value following'', ''secret'']) @
     done_marker @ crlf) = Ok [''+OK Value following'', ''secret'']"
  by (rule read_reply_lines) (auto simp: done_marker_def)

section \<open>The mail connection\<close>

text \<open>An answer that arrives in two pieces.\<close>

definition answer_conn :: connection where
  "answer_conn = initialize_buffers 20 [''25'', ''0 OK'' @ crlf]"

theorem expect_to_read_line_witness:
  "\<exists>d. expect_to_read ''250 *'' answer_conn = Ok (True, d) \<and> pending d = [] \<and> buf d = []"
proof -
  have h: "[] \<notin> set (pending answer_conn)" "input_of answer_conn = ''250 OK'' @ crlf @ []"
    "LF \<notin> set ''250 OK''" "Suc (length ''250 OK'') < buffer_size answer_conn"
    "length (buf answer_conn) \<le> buffer_size answer_conn"
    by (simp_all add: answer_conn_def initialize_buffers_def input_of_def)
  obtain d where "expect_to_read ''250 *'' answer_conn =
      Ok (matches (c_str ''250 *'') (c_str ''250 OK''), d)"
    and "input_of d = []" "[] \<notin> set (pending d)"
    using expect_to_read_line [OF h, of "''250 *''"] by blast
  then show ?thesis
    by (cases "pending d") (auto simp: input_of_def c_str_def)
qed

section \<open>A login\<close>

definition one_password :: "unit send" where
  "one_password = (\<lambda>m u b. Ok ([value_line, ''secret''], b))"

definition login_form :: request where
  "login_form = \<lparr>rmethod = ''POST'', rpath = ''/login'', rversion = ''HTTP/1.1'', rlength = Some 28, rcookies = [],
     rbody = ''username=ann&password=secret''\<rparr>"

definition empty_web :: "unit web" where
  "empty_web = \<lparr>wsessions = [], wuser = [], wfiles = [], wback = (), wmail = [], wfront = [], wbackends = []\<rparr>"

theorem session_only_by_password_witness:
  "\<exists>r w. respond one_password (\<lambda>m b. ([], b)) (\<lambda>ip p. True) [] [] (Fail NullDeref) login_form empty_web = Ok (r, w) \<and>
     is_session_valid ''ann'' (wsessions w) \<and> password_checked one_password login_form () ''ann''"
proof -
  have f: "field (params (rbody login_form)) 0 = Ok ''ann''" "field (params (rbody login_form)) 1 = Ok ''secret''"
    using form_fields [of login_form "''ann''" "''secret''"]
    by (simp_all add: posts_def login_form_def form_field_def)
  define w where "w = empty_web\<lparr>wsessions := add_session ''ann'' []\<rparr>"
  have "rmethod login_form = ''POST''" "rcookies login_form = []" "rpath login_form = ''/login''"
    by (simp_all add: login_form_def)
  moreover have "\<not> is_file_exist (static_path ''/login'') (wfiles empty_web)"
    by (simp add: is_file_exist_def empty_web_def file_content_def)
  moreover have "wsessions empty_web = []" by (simp add: empty_web_def)
  ultimately have "\<exists>r. respond one_password (\<lambda>m b. ([], b)) (\<lambda>ip p. True) [] [] (Fail NullDeref) login_form empty_web = Ok (r, w)"
    using f by (simp add: respond_def login_def is_already_login_def one_password_def backend_def w_def Let_def)
  then obtain r where r: "respond one_password (\<lambda>m b. ([], b)) (\<lambda>ip p. True) [] [] (Fail NullDeref) login_form empty_web = Ok (r, w)"
    by blast
  have v: "is_session_valid ''ann'' (wsessions w)" "\<not> is_session_valid ''ann'' (wsessions empty_web)"
    by (simp_all add: w_def is_session_valid_def add_session_def empty_web_def)
  have "password_checked one_password login_form () ''ann''"
    using session_only_by_password [OF r v(1)] v(2) by (simp add: empty_web_def)
  then show ?thesis using r v(1) by blast
qed

end
