(* ===== verification/Balancer_Props.thy ===== *)
theory Balancer_Props
  imports Balancer
begin

text \<open>
  What the load balancer promises: a client is sent to the first running server of the round, and
  is told that there is none only when none runs.
\<close>

section \<open>The choice\<close>

text \<open>The server \<open>m\<close> places behind \<open>i\<close> in the round over \<open>1 .. n\<close>.\<close>

definition around :: "int \<Rightarrow> int \<Rightarrow> int \<Rightarrow> int" where
  "around n i m = (i - 1 + m) mod n + 1"

lemma around_range: "0 < n \<Longrightarrow> 1 \<le> around n i m \<and> around n i m \<le> n"
  unfolding around_def using pos_mod_bound [of n "i - 1 + m"] pos_mod_sign [of n "i - 1 + m"] by linarith

lemma around_0: "1 \<le> i \<Longrightarrow> i \<le> n \<Longrightarrow> around n i 0 = i"
  by (simp add: around_def)

lemma next_around: "0 < n \<Longrightarrow> next_server n (around n i m) = around n i (m + 1)"
proof -
  assume n: "0 < n"
  define a where "a = (i - 1 + m) mod n"
  have a: "0 \<le> a" "a < n" using n by (simp_all add: a_def)
  have r: "around n i (m + 1) = (a + 1) mod n + 1"
    by (simp add: around_def a_def mod_simps algebra_simps)
  have e: "around n i m = a + 1" by (simp add: around_def a_def)
  consider "a + 1 = n" | "a + 2 = n" | "a + 2 < n" using a by linarith
  then show ?thesis
  proof cases
    case 1
    then have "a + 2 = 1 + n" by simp
    then have "(a + 2) mod n = 1 mod n" by (simp only: mod_add_self2)
    then show ?thesis using 1 a unfolding e r by (cases "n = 1") (auto simp: next_server_def)
  next
    case 2
    then have "2 + a = n" by simp
    then show ?thesis using a unfolding e r by (simp add: next_server_def Let_def)
  next
    case 3
    then show ?thesis using a unfolding e r by (simp add: next_server_def)
  qed
qed

lemma find_running_around:
  assumes n: "0 < n" and "0 \<le> c" "c < n" and "n - c < int k"
    and seen: "\<forall>m. 0 \<le> m \<and> m < c \<longrightarrow> \<not> running (around n i m)"
  shows "\<exists>j d. find_running k n running (around n i c) c = Ok (j, d) \<and> c \<le> d \<and> d \<le> n \<and> j = around n i d \<and>
    (d < n \<longrightarrow> running j) \<and> (\<forall>m. 0 \<le> m \<and> m < d \<longrightarrow> \<not> running (around n i m))"
  using assms(2-5)
proof (induction k arbitrary: c)
  case (Suc k)
  show ?case
  proof (cases "running (around n i c)")
    case True
    then show ?thesis using Suc.prems by auto
  next
    case False
    then have seen: "\<forall>m. 0 \<le> m \<and> m < c + 1 \<longrightarrow> \<not> running (around n i m)"
      using Suc.prems(4) by (metis less_le_not_le linorder_neqE_linordered_idom zle_add1_eq_le)
    show ?thesis
    proof (cases "c + 1 < n")
      case True
      then show ?thesis
        using Suc.IH [of "c + 1"] Suc.prems False seen next_around [OF n, of i c] by (auto simp: Let_def)
    next
      case c: False
      then have "c + 1 = n" using Suc.prems by simp
      then show ?thesis using False seen next_around [OF n, of i c] by (auto simp: Let_def)
    qed
  qed
qed simp

lemma around_all:
  assumes "1 \<le> j" "j \<le> n"
  shows "\<exists>m. 0 \<le> m \<and> m < n \<and> around n i m = j"
proof (intro exI [of _ "(j - i) mod n"] conjI)
  have "around n i ((j - i) mod n) = (j - 1) mod n + 1"
    by (simp add: around_def mod_simps)
  then show "around n i ((j - i) mod n) = j" using assms by simp
qed (use assms in auto)

text \<open>
  The search ends after at most one round; it stops at the first running server after the one given to
  the last client, and finds one exactly when one is running.
\<close>

lemma running_found:
  assumes "1 \<le> i" "i \<le> n"
  shows "\<exists>j d. find_running (nat n + 1) n running i 0 = Ok (j, d) \<and> 0 \<le> d \<and> d \<le> n \<and> j = around n i d \<and>
    (d < n \<longleftrightarrow> (\<exists>k. 1 \<le> k \<and> k \<le> n \<and> running k)) \<and> (d < n \<longrightarrow> running j) \<and>
    (\<forall>m. 0 \<le> m \<and> m < d \<longrightarrow> \<not> running (around n i m))"
proof -
  have n: "0 < n" using assms by simp
  have fuel: "n - 0 < int (nat n + 1)" "\<forall>m. 0 \<le> m \<and> m < 0 \<longrightarrow> \<not> running (around n i m)" using n by auto
  obtain j d where d: "find_running (nat n + 1) n running i 0 = Ok (j, d)" "0 \<le> d" "d \<le> n" "j = around n i d"
    "d < n \<longrightarrow> running j" "\<forall>m. 0 \<le> m \<and> m < d \<longrightarrow> \<not> running (around n i m)"
    using find_running_around [OF n order_refl n fuel] unfolding around_0 [OF assms] by blast
  have "d < n" if "1 \<le> k" "k \<le> n" "running k" for k
    using around_all [OF that(1,2), of i] that(3) d(3,6) by (metis leI order_antisym_conv)
  then show ?thesis using d around_range [OF n, of i d] by blast
qed

end
