(* ===== verification/Options.thy ===== *)
theory Options
  imports KV_Server Balancer
begin

text \<open>
  The command lines of the programs: \<open>getopt\<close> as the C library has it, and what each \<open>main\<close> makes of
  the options.

  \<^item> \<open>argv\<close> is the list of arguments after the name of the program. \<open>getopt\<close> takes the options from
    everywhere in the list, up to an argument \<open>--\<close>; the arguments it leaves are those from \<open>optind\<close> on.
  \<^item> An option that takes an argument has it in the same element or in the next one.
  \<^item> The options are handled in order, and the first bad one ends the process.
\<close>

section \<open>getopt\<close>

datatype opt_event = Opt char "string option" | Bad_opt char

text \<open>Whether the option exists, and whether it takes an argument.\<close>

fun takes_argument :: "string \<Rightarrow> char \<Rightarrow> bool option" where
  "takes_argument [] c = None"
| "takes_argument (d # ds) c =
     (if d = CHR '':'' then takes_argument ds c
      else if d = c then Some (ds \<noteq> [] \<and> hd ds = CHR '':'')
      else takes_argument ds c)"

text \<open>The options of one element, with the arguments behind it.\<close>

fun option_cluster :: "string \<Rightarrow> string \<Rightarrow> string list \<Rightarrow> opt_event list \<times> string list" where
  "option_cluster optstring [] args = ([], args)"
| "option_cluster optstring (c # cs) args =
     (case takes_argument optstring c of
        None \<Rightarrow> (let (es, r) = option_cluster optstring cs args in (Bad_opt c # es, r))
      | Some False \<Rightarrow> (let (es, r) = option_cluster optstring cs args in (Opt c None # es, r))
      | Some True \<Rightarrow>
          if cs \<noteq> [] then ([Opt c (Some cs)], args)
          else case args of [] \<Rightarrow> ([Bad_opt c], []) | a # r \<Rightarrow> ([Opt c (Some a)], r))"

lemma option_cluster_rest: "length (snd (option_cluster optstring cs args)) \<le> length args"
  by (induction optstring cs args rule: option_cluster.induct) (auto split: option.split list.split bool.split prod.split)

function getopt :: "string \<Rightarrow> string list \<Rightarrow> opt_event list \<times> string list" where
  "getopt optstring [] = ([], [])"
| "getopt optstring (a # args) =
     (if a = ''--'' then ([], args)
      else if length a < 2 \<or> hd a \<noteq> CHR ''-'' then
        (let (es, r) = getopt optstring args in (es, a # r))
      else
        (let (es, args) = option_cluster optstring (tl a) args; (fs, r) = getopt optstring args
         in (es @ fs, r)))"
  by pat_completeness auto
termination
proof (relation "measure (\<lambda>(os, as). length as)")
  fix optstring a args x es args'
  assume "x = option_cluster optstring (tl a) args" "(es, args') = x"
  then have "length args' \<le> length args" using option_cluster_rest [of optstring "tl a" args] by (metis snd_conv)
  then show "((optstring, args'), optstring, a # args) \<in> measure (\<lambda>(os, as). length as)" by simp
qed simp_all

section \<open>The storage server\<close>

record kv_options =
  opt_a :: bool
  opt_v :: bool
  opt_n :: bool
  node_id :: int
  port_number :: int

definition default_options :: kv_options where
  "default_options = \<lparr>opt_a = False, opt_v = False, opt_n = False, node_id = 0, port_number = 4711\<rparr>"

text \<open>The characters of the cases; the others of the option string are \<open>i\<close> and \<open>p\<close>.\<close>

definition kv_option :: "opt_event \<Rightarrow> kv_options \<Rightarrow> kv_options res" where
  "kv_option e opts =
     (case e of
        Bad_opt _ \<Rightarrow> Fail (Exit 1)
      | Opt c optarg \<Rightarrow>
          if c = CHR ''a'' then Ok (opts\<lparr>opt_a := True\<rparr>)
          else if c = CHR ''v'' then Ok (opts\<lparr>opt_v := True\<rparr>)
          else if c = CHR ''i'' then rbind (of_option NullDeref optarg) (\<lambda>a. Ok (opts\<lparr>node_id := atoi (c_str a)\<rparr>))
          else if c = CHR ''p'' then rbind (of_option NullDeref optarg) (\<lambda>a. Ok (opts\<lparr>port_number := atoi (c_str a)\<rparr>))
          else if c = CHR ''n'' then Ok (opts\<lparr>opt_n := True\<rparr>)
          else Ok opts)"

definition parse_arguments :: "string list \<Rightarrow> kv_options res" where
  "parse_arguments argv = foldr_res kv_option (fst (getopt ''avi:p:n'' argv)) default_options"

text \<open>
  \<open>main\<close> up to the accept loop. The result says which identity the master gave: a primary goes on to
  accept, a secondary starts \<open>ps_worker\<close> first, and a primary that takes over users \<open>migrate_worker\<close>.
\<close>

definition start_node :: "nat \<Rightarrow> (string \<Rightarrow> string) \<Rightarrow> string list \<Rightarrow> fsys \<Rightarrow> (identity \<times> kv) res" where
  "start_node n master argv d =
     rbind (parse_arguments argv) (\<lambda>opts.
     if opt_a opts then Fail (Exit 3)
     else
       rbind (contact_master master (node_id opts)) (\<lambda>i.
       rbind (initialization n (opt_n opts)
                ((init_kv MEMORY_CAPACITY CHUNK_SIZE)\<lparr>is_primary := identity_primary i, disk := d\<rparr>)) (\<lambda>s.
       Ok (i, s))))"

section \<open>The front end\<close>

text \<open>The port, as an \<open>unsigned short\<close>, and whether debugging output is wanted.\<close>

definition frontend_option :: "opt_event \<Rightarrow> string option \<times> bool \<Rightarrow> (string option \<times> bool) res" where
  "frontend_option e st =
     (case e of
        Bad_opt _ \<Rightarrow> Fail (Exit 1)
      | Opt c optarg \<Rightarrow>
          if c = CHR ''p'' then Ok (optarg, snd st) else if c = CHR ''v'' then Ok (fst st, True) else Fail Undefined)"

definition frontend_port :: "string list \<Rightarrow> (int \<times> bool) res" where
  "frontend_port argv =
     rbind (foldr_res frontend_option (fst (getopt ''p:v'' argv)) (None, False)) (\<lambda>(pvalue, vflag).
     rbind (of_option NullDeref pvalue) (\<lambda>p.
     let tmp = atoi (c_str p) in
     if tmp < 0 \<or> tmp > 65535 then Fail (Exit 2) else Ok (tmp, vflag)))"

text \<open>The three calls that open the socket, each of which may fail; the process starts to accept with its port.\<close>

definition open_socket :: "bool \<Rightarrow> bool \<Rightarrow> bool \<Rightarrow> int" where
  "open_socket created bound listening =
     (if \<not> created then - 1 else if \<not> bound then - 2 else if \<not> listening then - 3 else 0)"

definition frontend_start :: "bool \<Rightarrow> bool \<Rightarrow> bool \<Rightarrow> string list \<Rightarrow> (int \<times> bool) res" where
  "frontend_start created bound listening argv =
     rbind (frontend_port argv) (\<lambda>(port, vflag).
     if open_socket created bound listening < 0 then Fail (Exit 3) else Ok (port, vflag))"

section \<open>The load balancer\<close>

definition lb_option :: "opt_event \<Rightarrow> int \<Rightarrow> int res" where
  "lb_option e port =
     (case e of
        Opt c (Some optarg) \<Rightarrow> if c = CHR ''p'' then Ok (atoi (c_str optarg)) else Fail (Exit 1)
      | _ \<Rightarrow> Fail (Exit 1))"

text \<open>The port, and the servers of the file. Without a file name the argument is the null that ends \<open>argv\<close>.\<close>

definition lb_start :: "string list \<Rightarrow> fsys \<Rightarrow> (int \<times> int \<times> (int, fserver) omap) res" where
  "lb_start argv f =
     (if length argv < 2 then Fail (Exit 1)
      else
        rbind (foldr_res lb_option (fst (getopt ''p:'' argv)) 0) (\<lambda>port.
        rbind (case snd (getopt ''p:'' argv) of [] \<Rightarrow> Fail NullDeref | filename # _ \<Rightarrow> Ok filename) (\<lambda>filename.
        rbind (parse_all_servers filename f) (\<lambda>(n, servers). Ok (port, n, servers)))))"

section \<open>The mail server\<close>

text \<open>\<open>std::stol\<close> throws on text that is no number, and its \<open>long\<close> is stored in an \<open>int\<close>.\<close>

definition stol :: "string \<Rightarrow> int res" where
  "stol s =
     (case strtol s of
        None \<Rightarrow> Fail InvalidArgument
      | Some n \<Rightarrow> if - (2 ^ 63) \<le> n \<and> n < 2 ^ 63 then Ok n else Fail OutOfRange)"

record mail_options =
  mport :: int
  aflag :: bool
  debugflag :: bool

definition mail_option :: "opt_event \<Rightarrow> mail_options \<Rightarrow> mail_options res" where
  "mail_option e o' =
     (case e of
        Bad_opt _ \<Rightarrow> Fail (Exit 1)
      | Opt c optarg \<Rightarrow>
          if c = CHR ''p'' then
            rbind (of_option NullDeref optarg) (\<lambda>a. rbind (stol a) (\<lambda>p. Ok (o'\<lparr>mport := to_i32 p\<rparr>)))
          else if c = CHR ''a'' then Ok (o'\<lparr>aflag := True\<rparr>)
          else if c = CHR ''v'' then Ok (o'\<lparr>debugflag := True\<rparr>)
          else Ok o')"

definition mail_options_of :: "string list \<Rightarrow> mail_options res" where
  "mail_options_of argv =
     foldr_res mail_option (fst (getopt ''p:av'' argv)) \<lparr>mport = 2300, aflag = False, debugflag = False\<rparr>"

end
