(* ===== verification/Server_Watch.thy ===== *)
theory Server_Watch
  imports Balancer_Props Options
begin

text \<open>
  The checkers of the load balancer and of the admin console (\<open>check_server_state\<close> in
  \<open>frontend/load_balancer.cc\<close> and \<open>frontend/admin_console.h\<close>), and the load balancer from its command
  line to the page a client gets.
\<close>

section \<open>The checker of the admin console\<close>

record server_info =
  servertype :: string
  num_of_servers :: int

text \<open>One pass over the list the entry of \<open>server_list\<close> names; the state has the front ends and the back ends.\<close>

definition console_check :: "(string \<Rightarrow> int \<Rightarrow> bool) \<Rightarrow> server_info \<Rightarrow>
    (int, fserver) omap \<times> (int, fserver) omap \<Rightarrow> (int, fserver) omap \<times> (int, fserver) omap" where
  "console_check alive info st =
     (let (frontend_servers, backend_servers) = st in
      if servertype info = ''frontend'' then
        (check_servers alive (nat (num_of_servers info)) frontend_servers, backend_servers)
      else if servertype info = ''backend'' then
        (frontend_servers, check_servers alive (nat (num_of_servers info)) backend_servers)
      else st)"

section \<open>A pass\<close>

definition checked :: "(string \<Rightarrow> int \<Rightarrow> bool) \<Rightarrow> fserver \<Rightarrow> fserver" where
  "checked alive s = s\<lparr>frunning := alive (fip s) (fport s)\<rparr>"

lemma check_servers_get:
  "oget (check_servers alive n m) i =
    (if 1 \<le> i \<and> i \<le> int n then Some (checked alive (oget_def zero_fserver m i)) else oget m i)"
proof (induction n)
  case (Suc n)
  then show ?case by (auto simp: check_servers_def checked_def Let_def oget_def_def)
qed (auto simp: check_servers_def)

section \<open>The list of the servers\<close>

text \<open>The lines of the file, one server each.\<close>

definition server_line :: "string \<times> int \<Rightarrow> string" where
  "server_line s = fst s @ '':'' @ to_string (snd s)"

definition server_file :: "(string \<times> int) list \<Rightarrow> string" where
  "server_file ss = concat (map (\<lambda>s. server_line s @ [LF]) ss)"

definition server_ok :: "string \<times> int \<Rightarrow> bool" where
  "server_ok s \<longleftrightarrow> CHR '':'' \<notin> set (fst s) \<and> LF \<notin> set (fst s) \<and> in_i32 (snd s)"

definition listed :: "int \<Rightarrow> string \<times> int \<Rightarrow> fserver" where
  "listed k s = \<lparr>fid = k, fip = fst s, fport = snd s, frunning = False, ftype = None\<rparr>"

lemma parse_servers_lines:
  assumes "\<forall>s \<in> set ss. server_ok s"
  shows "\<exists>m'. parse_servers k (map server_line ss) m = Ok (k + int (length ss) - 1, m') \<and>
    (\<forall>i. oget m' i = (if k \<le> i \<and> i < k + int (length ss) then Some (listed i (ss ! nat (i - k))) else oget m i))"
  using assms
proof (induction ss arbitrary: k m)
  case (Cons s ss)
  have s: "CHR '':'' \<notin> set (fst s)" "in_i32 (snd s)" using Cons.prems by (auto simp: server_ok_def)
  have c: "cut (CHR '':'') (server_line s) = Some (fst s, to_string (snd s))"
    using s(1) by (simp add: server_line_def cut_append)
  have p: "atoi (c_str (to_string (snd s))) = snd s"
    using atoi_to_string [of "snd s" "[]"] s(2) by (simp add: c_str_id)
  obtain m' where m': "parse_servers (k + 1) (map server_line ss) (oupd k (listed k s) m) = Ok (k + 1 + int (length ss) - 1, m')"
    "\<forall>i. oget m' i = (if k + 1 \<le> i \<and> i < k + 1 + int (length ss) then Some (listed i (ss ! nat (i - (k + 1))))
        else oget (oupd k (listed k s) m) i)"
    using Cons.IH [of "k + 1" "oupd k (listed k s) m"] Cons.prems by auto
  have "oget m' i = (if k \<le> i \<and> i < k + int (length (s # ss)) then Some (listed i ((s # ss) ! nat (i - k))) else oget m i)" for i
  proof -
    consider "i = k" | "k + 1 \<le> i" | "i < k" by linarith
    then show ?thesis
    proof cases
      case 2
      then have "nat (i - k) = Suc (nat (i - (k + 1)))" by simp
      then show ?thesis using 2 m'(2) by simp
    qed (simp_all add: m'(2))
  qed
  then show ?case using m'(1) c p by (simp add: listed_def)
qed auto

lemma listed_parsed:
  assumes "\<forall>s \<in> set ss. server_ok s" and "oget f name = Some (File (server_file ss))"
  shows "\<exists>m. parse_all_servers name f = Ok (int (length ss), m) \<and>
    (\<forall>i. 1 \<le> i \<and> i \<le> int (length ss) \<longrightarrow> oget m i = Some (listed i (ss ! nat (i - 1))))"
proof -
  have l: "LF \<notin> set (server_line s)" if "s \<in> set ss" for s
    using assms(1) that by (auto simp: server_line_def server_ok_def)
  have "getlines LF (server_file ss) = map server_line ss"
    using getlines_lines [of "map server_line ss" LF] l unfolding server_file_def by (simp only: map_map comp_def) fastforce
  then show ?thesis
    using parse_servers_lines [OF assms(1), of 1 "[]"] assms(2)
    by (auto simp: parse_all_servers_def get_file_content_as_string_def file_content_def)
qed

section \<open>From the command line to the page\<close>

text \<open>The answer with a page, and whether the \<open>k\<close>th server of the file accepts connections.\<close>

definition lb_page :: "string \<Rightarrow> string" where
  "lb_page content = lb_header @ to_string (int (length content)) @ crlf @ crlf @ content"

definition server_no :: "(string \<times> int) list \<Rightarrow> int \<Rightarrow> string \<times> int" where
  "server_no ss k = ss ! nat (k - 1)"

definition accepts :: "(string \<Rightarrow> int \<Rightarrow> bool) \<Rightarrow> string \<times> int \<Rightarrow> bool" where
  "accepts alive s \<longleftrightarrow> alive (fst s) (snd s)"

lemma lb_start_listed:
  assumes "\<forall>s \<in> set ss. server_ok s" and "oget f name = Some (File (server_file ss))"
    and "name = [] \<or> hd name \<noteq> CHR ''-''" and "in_i32 port"
  shows "\<exists>m. lb_start [''-p'', to_string port, name] f = Ok (port, int (length ss), m) \<and>
    (\<forall>i. 1 \<le> i \<and> i \<le> int (length ss) \<longrightarrow> oget m i = Some (listed i (server_no ss i)))"
proof -
  have "getopt ''p:'' [''-p'', to_string port, name] = ([Opt (CHR ''p'') (Some (to_string port))], [name])"
    using assms(3) by (auto simp: Let_def)
  moreover have "atoi (c_str (to_string port)) = port"
    using atoi_to_string [of port "[]"] assms(4) by (simp add: c_str_id)
  ultimately show ?thesis
    using listed_parsed [OF assms(1,2)] by (auto simp: lb_start_def lb_option_def server_no_def)
qed

lemma lb_step_checked:
  assumes m: "\<forall>i. 1 \<le> i \<and> i \<le> int (length ss) \<longrightarrow> oget m i = Some (listed i (server_no ss i))"
    and i: "1 \<le> i" "i \<le> int (length ss)"
  shows "\<exists>d reply j. lb_step nopage page (int (length ss)) (check_servers alive (length ss) m) i = Ok (reply, j) \<and>
    0 \<le> d \<and> (\<forall>k. 0 \<le> k \<and> k < d \<longrightarrow> \<not> accepts alive (server_no ss (around (int (length ss)) i k))) \<and>
    (if d < int (length ss) then
       accepts alive (server_no ss (around (int (length ss)) i d)) \<and> j = around (int (length ss)) i (d + 1) \<and>
       reply = lb_page (replace_all page ''$server'' (server_line (server_no ss (around (int (length ss)) i d))))
     else d = int (length ss) \<and> reply = lb_page nopage)"
proof -
  let ?n = "int (length ss)" and ?m = "check_servers alive (length ss) m"
  let ?run = "\<lambda>j. frunning (oget_def zero_fserver ?m j)"
  have n: "0 < ?n" using i by linarith
  have get: "oget_def zero_fserver ?m k = checked alive (listed k (server_no ss k))" if "1 \<le> k" "k \<le> ?n" for k
    using that m by (simp add: oget_def_def check_servers_get)
  have run: "?run k \<longleftrightarrow> accepts alive (server_no ss k)" if "1 \<le> k" "k \<le> ?n" for k
    using get [OF that] by (simp add: checked_def listed_def accepts_def)
  obtain j d where d: "find_running (nat ?n + 1) ?n ?run i 0 = Ok (j, d)" "0 \<le> d" "d \<le> ?n" "j = around ?n i d"
    "d < ?n \<longrightarrow> ?run j" "\<forall>k. 0 \<le> k \<and> k < d \<longrightarrow> \<not> ?run (around ?n i k)"
    using running_found [OF i, of ?run] by blast
  have miss: "\<forall>k. 0 \<le> k \<and> k < d \<longrightarrow> \<not> accepts alive (server_no ss (around ?n i k))"
    using d(6) run around_range [OF n, of i] by blast
  have j: "1 \<le> j" "j \<le> ?n" unfolding d(4) using around_range [OF n] by simp_all
  show ?thesis
  proof (cases "d < ?n")
    case True
    have s: "fip (oget_def zero_fserver ?m j) = fst (server_no ss j)" "fport (oget_def zero_fserver ?m j) = snd (server_no ss j)"
      using get [OF j] by (simp_all add: checked_def listed_def)
    show ?thesis
      using True n d(1-5) miss s run [OF j] next_around [OF n, of i d]
      by (intro exI [of _ d]) (simp add: lb_step_def lb_page_def server_line_def Let_def)
  next
    case False
    then show ?thesis
      using n d(1-3) miss by (intro exI [of _ d]) (simp add: lb_step_def lb_page_def)
  qed
qed

text \<open>The load balancer, started on a list of servers.\<close>

text \<open>C31: A load balancer started with a port and a file of servers, whose checker has made a pass,
  answers a client with the page that redirects to the first server, in the round that begins at the
  given number, which accepted the connection of the checker, and begins the next round behind it;
  it says that no server runs only when none accepted.\<close>

theorem balancer_redirects:
  assumes "\<forall>s \<in> set ss. server_ok s" and "oget f name = Some (File (server_file ss))"
    and "name = [] \<or> hd name \<noteq> CHR ''-''" and "in_i32 port" and "1 \<le> i" "i \<le> int (length ss)"
  shows "\<exists>m d reply j. lb_start [''-p'', to_string port, name] f = Ok (port, int (length ss), m) \<and>
    lb_step nopage page (int (length ss)) (check_servers alive (length ss) m) i = Ok (reply, j) \<and>
    0 \<le> d \<and> (\<forall>k. 0 \<le> k \<and> k < d \<longrightarrow> \<not> accepts alive (server_no ss (around (int (length ss)) i k))) \<and>
    (if d < int (length ss) then
       accepts alive (server_no ss (around (int (length ss)) i d)) \<and> j = around (int (length ss)) i (d + 1) \<and>
       reply = lb_page (replace_all page ''$server'' (server_line (server_no ss (around (int (length ss)) i d))))
     else d = int (length ss) \<and> reply = lb_page nopage)"
proof -
  obtain m where m: "lb_start [''-p'', to_string port, name] f = Ok (port, int (length ss), m)"
    "\<forall>i. 1 \<le> i \<and> i \<le> int (length ss) \<longrightarrow> oget m i = Some (listed i (server_no ss i))"
    using lb_start_listed [OF assms(1-4)] by blast
  show ?thesis
    using lb_step_checked [OF m(2) assms(5,6), of nopage page alive] m(1)
    by (elim exE) (rule exI, rule exI, rule exI, rule exI, rule conjI, assumption, assumption)
qed

theorem balancer_redirects_witness:
  "\<exists>m reply j. lb_start [''-p'', to_string 9000, ''servers.txt'']
       [(''servers.txt'', File (server_file [(''10.0.0.1'', 1), (''10.0.0.2'', 2)]))] = Ok (9000, 2, m) \<and>
     lb_step ''none'' ''go to $server'' 2 (check_servers (\<lambda>ip p. p = 2) 2 m) 1 = Ok (reply, j) \<and>
     j = 1 \<and> reply = lb_page (replace_all ''go to $server'' ''$server'' (server_line (''10.0.0.2'', 2)))"
proof -
  let ?ss = "[(''10.0.0.1'', 1), (''10.0.0.2'', 2)] :: (string \<times> int) list"
  have ok: "\<forall>s \<in> set ?ss. server_ok s" by (simp add: server_ok_def in_i32_def)
  have f: "oget [(''servers.txt'', File (server_file ?ss))] ''servers.txt'' = Some (File (server_file ?ss))" by simp
  have h: "(''servers.txt'' :: string) = [] \<or> hd ''servers.txt'' \<noteq> CHR ''-''" "in_i32 9000" "(1::int) \<le> 1"
    "1 \<le> int (length ?ss)" by (simp_all add: in_i32_def)
  have len: "length ?ss = 2" "int 2 = 2" by simp_all
  obtain m d reply j where r: "lb_start [''-p'', to_string 9000, ''servers.txt''] [(''servers.txt'', File (server_file ?ss))] = Ok (9000, 2, m)"
    "lb_step ''none'' ''go to $server'' 2 (check_servers (\<lambda>ip p. p = 2) 2 m) 1 = Ok (reply, j)"
    "0 \<le> d" "\<forall>k. 0 \<le> k \<and> k < d \<longrightarrow> \<not> accepts (\<lambda>ip p. p = 2) (server_no ?ss (around 2 1 k))"
    "if d < 2 then accepts (\<lambda>ip p. p = 2) (server_no ?ss (around 2 1 d)) \<and> j = around 2 1 (d + 1) \<and>
        reply = lb_page (replace_all ''go to $server'' ''$server'' (server_line (server_no ?ss (around 2 1 d))))
     else d = 2 \<and> reply = lb_page ''none''"
    using balancer_redirects [OF ok f h, of "''none''" "''go to $server''" "\<lambda>ip p. p = 2"]
    unfolding len by (elim exE conjE)
  have a: "around 2 1 0 = 1" "around 2 1 1 = 2" "around 2 1 2 = 1" by (simp_all add: around_def)
  have up: "accepts (\<lambda>ip p. p = 2) (server_no ?ss 2)" "\<not> accepts (\<lambda>ip p. p = 2) (server_no ?ss 1)"
    by (simp_all add: accepts_def server_no_def)
  have "d = 1"
  proof -
    consider "d = 0" | "d = 1" | "1 < d" using r(3) by linarith
    then show ?thesis
    proof cases
      case 3
      then show ?thesis using r(4) up(1) a(2) by (metis zero_le_one)
    qed (use r(5) a up in auto)
  qed
  then have "j = 1 \<and> reply = lb_page (replace_all ''go to $server'' ''$server'' (server_line (''10.0.0.2'', 2)))"
    using r(5) a by (simp add: server_no_def)
  then show ?thesis using r(1,2) by blast
qed

end
