(* ===== verification/Front_Parse.thy ===== *)
theory Front_Parse
  imports Front_Request Mail_Conn
begin

text \<open>
  What a browser sends is what the front end reads: the percent encoding of a form, and a request
  with its header lines and its body.
\<close>

section \<open>Percent encoding\<close>

text \<open>The encoding: a byte is sent as it is, or as a percent sign and two hexadecimal digits.\<close>

definition percent_byte :: "char \<Rightarrow> string" where
  "percent_byte c = (let n = (of_char c :: nat) in [CHR ''%'', hex_char (n div 16), hex_char (n mod 16)])"

fun percent_encode :: "(char \<Rightarrow> bool) \<Rightarrow> string \<Rightarrow> string" where
  "percent_encode plain [] = []"
| "percent_encode plain (c # s) =
     (if plain c \<and> c \<noteq> CHR ''%'' then [c] else percent_byte c) @ percent_encode plain s"

lemma hex_digit_char: "n < 16 \<Longrightarrow> hex_digit (hex_char n) = Some (int n)"
  by (cases "n < 10") (simp_all add: hex_digit_def hex_char_def)

lemma no_hex_digit:
  "hex_digit NUL = None" "hex_digit (CHR ''-'') = None" "hex_digit (CHR ''+'') = None"
  "hex_digit (CHR ''x'') = None" "hex_digit (CHR ''X'') = None" "is_space c \<Longrightarrow> hex_digit c = None"
  by (auto simp: hex_digit_def is_space_def)

lemma hex_char_simps:
  assumes "n < 16"
  shows "hex_digit (hex_char n) = Some (int n)" "\<not> is_space (hex_char n)" "hex_char n \<noteq> NUL"
    "hex_char n \<noteq> CHR ''-''" "hex_char n \<noteq> CHR ''+''" "hex_char n \<noteq> CHR ''x''" "hex_char n \<noteq> CHR ''X''"
proof -
  note h = hex_digit_char [OF assms]
  show "hex_digit (hex_char n) = Some (int n)" by (rule h)
  show "\<not> is_space (hex_char n)" using h no_hex_digit(6) by force
  show "hex_char n \<noteq> NUL" "hex_char n \<noteq> CHR ''-''" "hex_char n \<noteq> CHR ''+''" "hex_char n \<noteq> CHR ''x''"
    "hex_char n \<noteq> CHR ''X''"
    using h no_hex_digit by auto
qed

lemma scan_hex_byte:
  assumes "a < 16" "b < 16"
  shows "scan_hex (c_str [hex_char a, hex_char b]) = Some (16 * int a + int b)"
  using hex_char_simps [OF assms(1)] hex_char_simps [OF assms(2)]
  by (simp add: scan_hex_def c_str_def)

lemma percent_byte_decoded:
  "url_decode_from ii (percent_byte c @ s) = rbind (url_decode_from (Some (of_char c)) s) (\<lambda>r. Ok (c # r))"
proof -
  define n where "n = (of_char c :: nat)"
  have "n < 256" by (simp add: n_def)
  then have d: "n div 16 < 16" "n mod 16 < 16" by auto
  have "16 * int (n div 16) + int (n mod 16) = int n" by (simp add: zdiv_int zmod_int)
  also have "int n = of_char c" unfolding n_def by (rule of_nat_of_char)
  finally have "scan_hex (c_str [hex_char (n div 16), hex_char (n mod 16)]) = Some (of_char c)"
    using scan_hex_byte [OF d] by simp
  then show ?thesis by (simp add: percent_byte_def Let_def n_def)
qed

lemma url_decode_from_encode: "url_decode_from ii (percent_encode plain s) = Ok s"
  by (induction s arbitrary: ii) (simp_all add: percent_byte_decoded)

text \<open>Decoding a percent-encoded string gives the string, whichever bytes were encoded.\<close>

theorem url_decode_encode: "url_decode (percent_encode plain s) = Ok s"
  unfolding url_decode_def by (rule url_decode_from_encode)

section \<open>A request\<close>

text \<open>A header line: the length of the body, a session cookie, or one the front end does not read.\<close>

datatype header = Length nat | Session string | Other string

fun header_text :: "header \<Rightarrow> string" where
  "header_text (Length n) = ''Content-Length: '' @ to_string (int n)"
| "header_text (Session u) = ''Cookie: sessionid='' @ u"
| "header_text (Other t) = t"

definition request_text :: "string \<Rightarrow> string \<Rightarrow> string \<Rightarrow> header list \<Rightarrow> string \<Rightarrow> string" where
  "request_text m path v hs b =
     m @ '' '' @ path @ '' '' @ v @ crlf @ concat (map (\<lambda>h. header_text h @ crlf) hs) @ crlf @ b"

text \<open>Text that \<open>printf\<close> and the line reader leave alone.\<close>

definition word_ok :: "string \<Rightarrow> bool" where
  "word_ok t \<longleftrightarrow> t \<noteq> [] \<and> NUL \<notin> set t \<and> CR \<notin> set t \<and> LF \<notin> set t \<and> CHR ''%'' \<notin> set t"

fun header_ok :: "header \<Rightarrow> bool" where
  "header_ok (Length n) \<longleftrightarrow> n < 2 ^ 31"
| "header_ok (Session u) \<longleftrightarrow> word_ok u \<and> CHR ''='' \<notin> set u \<and> CHR '';'' \<notin> set u"
| "header_ok (Other t) \<longleftrightarrow> word_ok t \<and> take 8 t \<noteq> COOKIE \<and> take 16 t \<noteq> CONTENT_LEN"

fun read_header :: "request \<Rightarrow> header \<Rightarrow> request" where
  "read_header req (Length n) = req\<lparr>rlength := Some (int n)\<rparr>"
| "read_header req (Session u) = req\<lparr>rcookies := oupd ''sessionid'' u (rcookies req)\<rparr>"
| "read_header req (Other t) = req"

lemma format_plain: "CHR ''%'' \<notin> set t \<Longrightarrow> format_ok t"
  by (induction t rule: format_ok.induct) auto

lemma debug_ok: "CHR ''%'' \<notin> set t \<Longrightarrow> debug_text t = Ok ()"
  by (auto simp: debug_text_def c_str_def intro!: format_plain dest: set_takeWhileD)

lemma header_text_ok: "header_ok h \<Longrightarrow> word_ok (header_text h)"
  by (cases h) (auto simp: word_ok_def to_string_notin is_digit_def)

lemma length_line:
  "n < 2 ^ 31 \<Longrightarrow> header_line (''Content-Length: '' @ to_string (int n)) req = Ok (req\<lparr>rlength := Some (int n)\<rparr>)"
proof -
  assume "n < 2 ^ 31"
  then have "in_i32 (int n)" by (simp add: in_i32_def)
  then have "atoi (to_string (int n)) = int n" using atoi_to_string [of "int n" "[]"] by simp
  moreover have "debug_text (''Content-Length: '' @ to_string (int n)) = Ok ()"
    by (rule debug_ok) (simp add: to_string_notin is_digit_def)
  ultimately show ?thesis by (simp add: header_line_def CONTENT_LEN_def COOKIE_def c_str_id)
qed

lemma session_line:
  assumes "header_ok (Session u)"
  shows "header_line (''Cookie: sessionid='' @ u) req = Ok (req\<lparr>rcookies := oupd ''sessionid'' u (rcookies req)\<rparr>)"
proof -
  have u: "u \<noteq> []" "NUL \<notin> set u" "CHR ''%'' \<notin> set u" "CHR ''='' \<notin> set u" "CHR '';'' \<notin> set u"
    using assms by (simp_all add: word_ok_def)
  have "getlines (CHR '';'') (''sessionid='' @ u) = [''sessionid='' @ u]" using u by (intro getlines_none) auto
  moreover have "getlines (CHR ''='') (''sessionid'' @ CHR ''='' # u) = [''sessionid'', u]"
    using u by (subst getlines_cons) (auto simp: getlines_none)
  moreover have "debug_text (''Cookie: sessionid='' @ u) = Ok ()" "debug_text u = Ok ()" "debug_text ''sessionid'' = Ok ()"
    using u by (auto intro: debug_ok)
  moreover have "c_str (''sessionid='' @ u) = ''sessionid='' @ u" using u by (simp add: c_str_id)
  ultimately show ?thesis
    by (simp add: header_line_def COOKIE_def CONTENT_LEN_def split_at_def add_cookie_def)
qed

lemma header_line_read: "header_ok h \<Longrightarrow> header_line (header_text h) req = Ok (read_header req h)"
proof (cases h)
  case (Other t)
  assume "header_ok h"
  then show ?thesis using Other debug_ok [of t] by (simp add: header_line_def word_ok_def)
qed (use length_line session_line in simp_all)

abbreviation read_headers :: "header list \<Rightarrow> request \<Rightarrow> request" where
  "read_headers hs req \<equiv> fold (\<lambda>h r. read_header r h) hs req"

lemma header_lines_empty: "header_lines [] b = (\<lambda>r. Ok (r, b))"
  by (rule ext) (subst header_lines.simps, simp)

lemma header_lines_read:
  assumes "\<forall>h \<in> set hs. header_ok h" and "line \<noteq> []"
  shows "header_lines line (concat (map (\<lambda>h. header_text h @ crlf) hs) @ CR # LF # b) req =
    rbind (header_line line req) (\<lambda>r. Ok (read_headers hs r, b))"
  using assms
proof (induction hs arbitrary: line req)
  case Nil
  have "read_line (CR # LF # b) = ([], b)" using read_line_crlf [of "[]" b] by simp
  then show ?case using Nil by (subst header_lines.simps) (simp add: header_lines_empty)
next
  case (Cons h hs)
  have w: "word_ok (header_text h)" using Cons.prems header_text_ok by simp
  then have "read_line (concat (map (\<lambda>h. header_text h @ crlf) (h # hs)) @ CR # LF # b) =
      (header_text h, concat (map (\<lambda>h. header_text h @ crlf) hs) @ CR # LF # b)"
    using read_line_crlf [of "header_text h" "concat (map (\<lambda>h. header_text h @ crlf) hs) @ CR # LF # b"]
    by (simp add: word_ok_def)
  moreover have "header_lines (header_text h) (concat (map (\<lambda>h. header_text h @ crlf) hs) @ CR # LF # b) =
      (\<lambda>r. Ok (read_headers hs (read_header r h), b))"
    using Cons.IH [of "header_text h"] Cons.prems(1) w header_line_read [of h]
    by (auto simp: fun_eq_iff word_ok_def)
  ultimately show ?case using Cons.prems(2) by (subst header_lines.simps) simp
qed

definition first_request :: "string \<Rightarrow> string \<Rightarrow> string \<Rightarrow> request" where
  "first_request m path v =
     \<lparr>rmethod = m, rpath = path, rversion = v, rlength = None, rcookies = [], rbody = []\<rparr>"

lemma parse_first_line:
  assumes m: "m \<in> {''GET'', ''POST''}" and w: "word_ok path" "CHR '' '' \<notin> set path" "word_ok v" "CHR '' '' \<notin> set v"
    and hs: "\<forall>h \<in> set hs. header_ok h"
  shows "parse_request (request_text m path v hs b) =
    rbind (read_body (read_headers hs (first_request m path v)) b) (\<lambda>req. Ok (Some req))"
proof -
  let ?l = "m @ '' '' @ path @ '' '' @ v"
  have mw: "word_ok m" "CHR '' '' \<notin> set m" using m by (auto simp: word_ok_def)
  have l: "word_ok ?l" using w mw by (simp add: word_ok_def)
  have "read_line (request_text m path v hs b) = (?l, concat (map (\<lambda>h. header_text h @ crlf) hs) @ CR # LF # b)"
    using read_line_crlf [of ?l "concat (map (\<lambda>h. header_text h @ crlf) hs) @ CR # LF # b"] l
    by (simp add: request_text_def word_ok_def)
  moreover have "split_at (c_str ?l) (CHR '' '') = [m, path, v]"
    using l mw w by (simp add: word_ok_def c_str_id split_at_def getlines_cons getlines_none)
  moreover have "take 8 ?l \<noteq> COOKIE" "take 16 ?l \<noteq> CONTENT_LEN"
    using m by (auto simp: COOKIE_def CONTENT_LEN_def)
  then have "header_line ?l req = Ok req" for req
    using l debug_ok [of ?l] by (simp add: header_line_def word_ok_def)
  moreover have "debug_text m = Ok ()" "debug_text path = Ok ()" "debug_text v = Ok ()"
    using mw w by (auto simp: word_ok_def intro: debug_ok)
  moreover have "?l \<noteq> []" by simp
  ultimately show ?thesis
    using header_lines_read [OF hs, of ?l b]
    by (simp add: parse_request_def first_request_def)
qed

text \<open>C30: A POST request with a length, session cookies and other header lines is parsed to its method,
  path and version, the values of its headers in order, and exactly the announced number of bytes of
  the body. The path and the version have no blank, and the path, the version and the headers have
  no percent sign, because each line goes to printf as its format, and no zero byte or line end.\<close>

theorem parse_post:
  assumes "word_ok path" "CHR '' '' \<notin> set path" "word_ok v" "CHR '' '' \<notin> set v" "\<forall>h \<in> set hs. header_ok h"
    and n: "rlength (read_headers hs (first_request ''POST'' path v)) = Some (int (length b))"
  shows "parse_request (request_text ''POST'' path v hs (b @ rest)) =
    Ok (Some ((read_headers hs (first_request ''POST'' path v))\<lparr>rbody := b\<rparr>))"
proof -
  let ?r = "read_headers hs (first_request ''POST'' path v)"
  have "rmethod (read_headers hs req) = rmethod req \<and> rbody (read_headers hs req) = rbody req" for req
  proof (induction hs arbitrary: req)
    case (Cons h hs)
    then show ?case by (cases h) simp_all
  qed simp
  then have "rmethod ?r = ''POST''" "rbody ?r = []" by (simp_all add: first_request_def)
  then have "read_body ?r (b @ rest) = Ok (?r\<lparr>rbody := b\<rparr>)" using n by (simp add: read_body_def)
  then show ?thesis using parse_first_line [OF _ assms(1-5), of "''POST''" "b @ rest"] by simp
qed

theorem parse_post_witness:
  "parse_request (''POST /login HTTP/1.1'' @ crlf @ ''Host: me'' @ crlf @ ''Content-Length: 3'' @ crlf @
      ''Cookie: sessionid=ann'' @ crlf @ crlf @ ''a=b'') =
   Ok (Some \<lparr>rmethod = ''POST'', rpath = ''/login'', rversion = ''HTTP/1.1'', rlength = Some 3,
     rcookies = [(''sessionid'', ''ann'')], rbody = ''a=b''\<rparr>)"
proof -
  let ?hs = "[Other ''Host: me'', Length 3, Session ''ann'']"
  have t: "to_string (int 3) = ''3''" by code_simp
  have "parse_request (request_text ''POST'' ''/login'' ''HTTP/1.1'' ?hs (''a=b'' @ [])) =
      Ok (Some ((read_headers ?hs (first_request ''POST'' ''/login'' ''HTTP/1.1''))\<lparr>rbody := ''a=b''\<rparr>))"
    by (rule parse_post) (simp_all add: word_ok_def COOKIE_def CONTENT_LEN_def first_request_def)
  then show ?thesis using t by (simp add: request_text_def first_request_def)
qed

end
