(* ===== verification/KV_Metadata.thy ===== *)
theory KV_Metadata
  imports KV_Chunkserver
begin

text \<open>
  The metadata files of a node: what \<open>write_cp_meta\<close>, \<open>write_virmem_meta\<close>, \<open>write_chunk_info\<close> and
  \<open>write_user_size\<close> write, \<open>load_cp_vm_meta\<close>, \<open>load_chunk_info\<close> and \<open>load_user_size\<close> read back.
\<close>

section \<open>Texts with a delimiter\<close>

text \<open>A user name that none of the metadata files takes for something else.\<close>

definition name_ok :: "string \<Rightarrow> bool" where
  "name_ok u \<longleftrightarrow> CHR '','' \<notin> set u \<and> CHR '';'' \<notin> set u \<and> CHR ''@'' \<notin> set u \<and> LF \<notin> set u"

definition one_line :: "string \<Rightarrow> bool" where "one_line t \<longleftrightarrow> LF \<notin> set t"

lemma one_line_simps [simp]:
  "one_line []" "one_line (c # t) \<longleftrightarrow> c \<noteq> LF \<and> one_line t" "one_line (s @ t) \<longleftrightarrow> one_line s \<and> one_line t"
  "one_line (to_string i)"
  by (auto simp: one_line_def to_string_notin is_digit_def)

lemma one_line_concat: "(\<And>t. t \<in> set ts \<Longrightarrow> one_line t) \<Longrightarrow> one_line (concat ts)"
  by (induction ts) auto

lemma name_one_line: "name_ok u \<Longrightarrow> one_line u"
  by (simp add: name_ok_def one_line_def)

lemma read_file_one_line: "file_content f p = Some t \<Longrightarrow> one_line t \<Longrightarrow> read_file p f = t"
  unfolding read_file_def one_line_def by (simp add: concat_getlines) (rule filter_True, auto)

text \<open>Parts that each follow the delimiter; the text before the first one is empty.\<close>

lemma tokens_parts:
  "xs \<noteq> [] \<Longrightarrow> (\<And>x. x \<in> set xs \<Longrightarrow> d \<notin> set x) \<Longrightarrow>
   tokens d (concat (map (\<lambda>x. d # x) xs)) = ([] # butlast xs, last xs)"
proof (induction xs)
  case (Cons x xs)
  have e: "tokens d (d # r) = ([] # fst (tokens d r), snd (tokens d r))" for r
    using tokens_cons [of d "[]" r] by simp
  show ?case
  proof (cases xs)
    case Nil
    then show ?thesis using Cons.prems by (simp add: e tokens_none)
  next
    case (Cons y ys)
    let ?r = "concat (map (\<lambda>x. d # x) xs)"
    have r: "?r = d # (y @ concat (map (\<lambda>x. d # x) ys))" by (simp add: Cons)
    have "tokens d ?r = ([] # butlast xs, last xs)" using Cons.IH Cons.prems Cons by simp
    then have t: "tokens d (y @ concat (map (\<lambda>x. d # x) ys)) = (butlast xs, last xs)"
      by (simp add: r e prod_eq_iff)
    have "tokens d (x @ d # (y @ concat (map (\<lambda>x. d # x) ys))) = (x # butlast xs, last xs)"
      using Cons.prems(2) by (subst tokens_cons) (simp_all add: t)
    then show ?thesis by (simp add: e Cons)
  qed
qed simp

lemma foldr_res_single: "foldr_res f [x] = f x"
proof (rule ext)
  show "foldr_res f [x] s = f x s" for s by (cases "f x s") simp_all
qed

text \<open>Entries put into a map in the order of their keys.\<close>

lemma fold_oupd_sorted:
  assumes "osorted (acc @ m)" and "\<And>k v acc. (k, v) \<in> set m \<Longrightarrow> oget acc k = None \<Longrightarrow> g (k, v) acc = oupd k v acc"
  shows "fold g m acc = acc @ m"
  using assms
proof (induction m arbitrary: acc)
  case (Cons p m)
  obtain k v where p: "p = (k, v)" by force
  have less: "x < k" if "x \<in> fst ` set acc" for x
    using Cons.prems(1) that by (auto simp: p osorted_def sorted_wrt_append)
  then have "oget acc k = None" by (metis map_of_eq_None_iff order_less_irrefl)
  then have "g p acc = acc @ [p]" using Cons.prems(2) oupd_append [OF less] by (simp add: p)
  then show ?case using Cons.IH [of "acc @ [p]"] Cons.prems by simp
qed simp

section \<open>The positions of the rows\<close>

fun record_line :: "int list \<Rightarrow> string" where
  "record_line [a, b, c] = to_string a @ '','' @ to_string b @ '','' @ to_string c"
| "record_line _ = []"

definition meta_line :: "string \<times> int list list \<Rightarrow> string" where
  "meta_line e = fst e @ '';'' @ concat (map (\<lambda>r. record_line r @ '';'') (snd e))"

definition position_ok :: "int list \<Rightarrow> bool" where
  "position_ok r \<longleftrightarrow> (\<exists>a b c. r = [a, b, c] \<and> in_i32 a \<and> in_i32 b \<and> in_i32 c)"

definition meta_ok :: "meta \<Rightarrow> bool" where
  "meta_ok m \<longleftrightarrow> osorted m \<and> (\<forall>(u, rs) \<in> set m. name_ok u \<and> rs \<noteq> [] \<and> (\<forall>r \<in> set rs. position_ok r))"

lemma record_line_no:
  assumes "position_ok r" and "\<not> is_digit d" and "d \<noteq> CHR ''-''" and "d \<noteq> CHR '',''"
  shows "d \<notin> set (record_line r)"
  using assms by (auto simp: position_ok_def to_string_notin)

lemma records_text_lines:
  "\<forall>r \<in> set rs. position_ok r \<Longrightarrow> records_text rs = Ok (concat (map (\<lambda>r. record_line r @ '';'') rs))"
  by (induction rs) (auto simp: position_ok_def record_text_def)

lemma meta_text_lines:
  "\<forall>(u, rs) \<in> set m. \<forall>r \<in> set rs. position_ok r \<Longrightarrow>
   meta_text m = Ok (concat (map (\<lambda>x. CHR ''@'' # x) (map meta_line m)))"
  by (induction m) (auto simp: records_text_lines meta_line_def)

lemma rebuild_record: "position_ok r \<Longrightarrow> rebuild_vector (record_line r) = Ok r"
  by (auto simp: position_ok_def rebuild_vector_def tokens_cons tokens_none)

lemma push_many:
  assumes "type \<in> {''virtual memory'', ''checkpointing''}" and "\<forall>r \<in> set rs. position_ok r" and "rs \<noteq> []"
  shows "foldr_res (\<lambda>t s. rbind (rebuild_vector t) (\<lambda>record. Ok (push_record type u record s)))
      (map record_line rs) s =
    Ok (with_meta type (oupd u (oget_def [] (meta_of type s) u @ rs) (meta_of type s)) s)"
  using assms(2,3)
proof (induction rs arbitrary: s)
  case (Cons r rs)
  have push: "push_record type u r s =
      with_meta type (oupd u (oget_def [] (meta_of type s) u @ [r]) (meta_of type s)) s" (is "_ = ?t")
    using assms(1) by (auto simp: push_record_def with_meta_def meta_of_def)
  have idem: "oupd u b (oupd u a m) = oupd u b m" for a b and m :: meta
    by (induction m) auto
  have twice: "with_meta type a (with_meta type b s) = with_meta type a s" for a b
    by (simp add: with_meta_def)
  show ?case
  proof (cases "rs = []")
    case True
    then show ?thesis using Cons.prems by (simp add: rebuild_record push)
  next
    case False
    then show ?thesis using Cons by (simp add: rebuild_record push idem twice)
  qed
qed simp

lemma parse_meta_line:
  assumes "type \<in> {''virtual memory'', ''checkpointing''}" and "name_ok u" and "\<forall>r \<in> set rs. position_ok r" and "rs \<noteq> []"
  shows "parse_meta (meta_line (u, rs)) type s =
    Ok (with_meta type (oupd u (oget_def [] (meta_of type s) u @ rs) (meta_of type s)) s)"
proof -
  have "tokens (CHR '';'') (concat (map (\<lambda>t. t @ [CHR '';'']) (u # map record_line rs))) = (u # map record_line rs, [])"
    using assms(2,3) by (intro tokens_join_all) (auto simp: name_ok_def record_line_no is_digit_def)
  then have "tokens (CHR '';'') (meta_line (u, rs)) = (u # map record_line rs, [])"
    by (simp add: meta_line_def comp_def)
  then show ?thesis unfolding parse_meta_def using push_many [OF assms(1,3,4)] by simp
qed

lemma parse_meta_lines:
  assumes "type \<in> {''virtual memory'', ''checkpointing''}"
    and "\<forall>(u, rs) \<in> set m. name_ok u \<and> rs \<noteq> [] \<and> (\<forall>r \<in> set rs. position_ok r)"
  shows "foldr_res (\<lambda>t. parse_meta t type) (map meta_line m) s =
    Ok (with_meta type (fold (\<lambda>(u, rs) M. oupd u (oget_def [] M u @ rs) M) m (meta_of type s)) s)"
  using assms(2)
proof (induction m arbitrary: s)
  case Nil
  then show ?case by (simp add: with_meta_def meta_of_def)
next
  case (Cons e m)
  obtain u rs where e: "e = (u, rs)" by force
  have twice: "with_meta type a (with_meta type b s) = with_meta type a s" for a b
    by (simp add: with_meta_def)
  show ?case using Cons parse_meta_line [OF assms(1), of u rs] by (simp add: e twice)
qed

lemma load_meta:
  assumes type: "type \<in> {''virtual memory'', ''checkpointing''}" and m: "meta_ok m" and new: "meta_of type s = []"
    and written: "meta_text m = Ok t" "file_content (disk s) path = Some t"
  shows "load_cp_vm_meta path type s = Ok (with_meta type m s)"
proof -
  have lines: "\<forall>(u, rs) \<in> set m. name_ok u \<and> rs \<noteq> [] \<and> (\<forall>r \<in> set rs. position_ok r)"
    using m by (simp add: meta_ok_def)
  then have t: "t = concat (map (\<lambda>x. CHR ''@'' # x) (map meta_line m))"
    using meta_text_lines [of m] written(1) by (simp add: case_prod_unfold)
  have no: "d \<notin> set x" if "x \<in> set (map meta_line m)" "d \<in> {CHR ''@'', LF}" for x d
    using that lines by (force simp: meta_line_def name_ok_def record_line_no is_digit_def)
  have "one_line (CHR ''@'' # x)" if "x \<in> set (map meta_line m)" for x
    using no [OF that, of LF] by (simp add: one_line_def)
  then have "one_line t" unfolding t by (intro one_line_concat) auto
  then have r: "read_file path (disk s) = t" using written(2) by (simp add: read_file_one_line)
  have "fold (\<lambda>(u, rs) M. oupd u (oget_def [] M u @ rs) M) m [] = [] @ m"
    using m by (intro fold_oupd_sorted) (auto simp: meta_ok_def oget_def_def)
  then have fold: "foldr_res (\<lambda>t. parse_meta t type) (map meta_line m) s = Ok (with_meta type m s)"
    using parse_meta_lines [OF type lines] new by simp
  show ?thesis
  proof (cases "m = []")
    case True
    then show ?thesis
      using fold by (simp add: load_cp_vm_meta_def r t parse_meta_def)
  next
    case False
    then have "tokens (CHR ''@'') t = ([] # butlast (map meta_line m), last (map meta_line m))"
      unfolding t using no by (intro tokens_parts) auto
    moreover have "map meta_line m = butlast (map meta_line m) @ [last (map meta_line m)]"
      using False by (intro append_butlast_last_id [symmetric]) simp
    then have "rbind (foldr_res (\<lambda>t. parse_meta t type) (butlast (map meta_line m)) s)
        (parse_meta (last (map meta_line m)) type) = foldr_res (\<lambda>t. parse_meta t type) (map meta_line m) s"
      using foldr_res_append [of "\<lambda>t. parse_meta t type" "butlast (map meta_line m)" "[last (map meta_line m)]" s]
      by (simp add: foldr_res_single)
    ultimately show ?thesis by (simp add: load_cp_vm_meta_def r fold)
  qed
qed

section \<open>The chunk counters and the sizes of the users\<close>

lemma load_chunk_info_text:
  assumes "chunk_info s = []" and "chunk_info_text t = Ok w" and "file_content (disk s) ''metadata/chunk_info'' = Some w"
    and "oget (chunk_info t) ''checkpointing'' = Some [a, b]" "oget (chunk_info t) ''virtual memory'' = Some [c, d]"
    and "in_i32 a" "in_i32 b" "in_i32 c" "in_i32 d"
  shows "load_chunk_info s = Ok (s\<lparr>chunk_info := [(''checkpointing'', [a, b]), (''virtual memory'', [c, d])]\<rparr>)"
proof -
  have t: "w = to_string a @ '','' @ to_string b @ '','' @ to_string c @ '','' @ to_string d @ '','' @ to_string (memory_used t)"
    using assms(2,4,5) by (simp add: chunk_info_text_def info_at_def oget_def_def)
  then have "read_file ''metadata/chunk_info'' (disk s) = w" using assms(3) by (intro read_file_one_line) simp_all
  then have "fst (tokens (CHR '','') (read_file ''metadata/chunk_info'' (disk s))) = map to_string [a, b, c, d]"
    by (simp add: t tokens_cons tokens_none)
  then show ?thesis
    using assms(1,6-9) by (simp add: load_chunk_info_def load_chunk_info_step_def push_info_def oget_def_def)
qed

lemma load_user_size_text:
  assumes "user_size s = []" and m: "osorted m" "\<forall>(u, n) \<in> set m. name_ok u \<and> in_i32 n"
    and "file_content (disk s) ''metadata/user_size'' = Some (user_size_text m)"
  shows "load_user_size s = Ok (s\<lparr>user_size := m\<rparr>)"
proof -
  have "one_line (user_size_text m)"
    unfolding user_size_text_def using m(2) by (intro one_line_concat) (auto simp: name_one_line)
  then have r: "read_file ''metadata/user_size'' (disk s) = user_size_text m"
    using assms(4) by (simp add: read_file_one_line)
  have t: "fst (tokens (CHR '','') (user_size_text m)) = concat (map (\<lambda>(u, n). [u, to_string n]) m)"
    using m(2)
  proof (induction m)
    case (Cons e m)
    obtain u n where e: "e = (u, n)" by force
    have "user_size_text (e # m) = u @ CHR '','' # to_string n @ CHR '','' # user_size_text m"
      by (simp add: e user_size_text_def)
    with Cons show ?case by (simp add: e name_ok_def tokens_cons)
  qed (simp add: user_size_text_def)
  have "user_size_pairs (concat (map (\<lambda>(u, n). [u, to_string n]) m)) w =
      Ok (w\<lparr>user_size := fold (\<lambda>(u, n). oupd u n) m (user_size w)\<rparr>)" for w
    using m(2) by (induction m arbitrary: w) auto
  moreover have "fold (\<lambda>(u, n). oupd u n) m [] = [] @ m" using m(1) by (intro fold_oupd_sorted) auto
  ultimately show ?thesis using assms(1) by (simp add: load_user_size_def r t)
qed

end
