(* ===== verification/KV_Files.thy ===== *)
theory KV_Files
  imports KV_Tools
begin

text \<open>
  What the helpers of \<open>kvstore/tools.cc\<close> do to the contents of directories: clearing one removes its
  files and nothing else, and a copy of a directory holds the files of the source.
\<close>

section \<open>The files of a directory\<close>

definition in_dir :: "string \<Rightarrow> string \<Rightarrow> bool" where
  "in_dir d q \<longleftrightarrow> (\<exists>n. q = d @ ''/'' @ n \<and> CHR ''/'' \<notin> set n)"

lemma in_dir_dirname: "in_dir d q \<longleftrightarrow> CHR ''/'' \<in> set q \<and> dirname q = d"
proof
  assume "CHR ''/'' \<in> set q \<and> dirname q = d"
  moreover obtain a n where "q = a @ CHR ''/'' # n" "CHR ''/'' \<notin> set n" if "CHR ''/'' \<in> set q"
    using split_list_last by metis
  ultimately show "in_dir d q" using dirname_append by (auto simp: in_dir_def)
qed (auto simp: in_dir_def dirname_append)

lemma in_dirI: "CHR ''/'' \<notin> set n \<Longrightarrow> in_dir d (d @ ''/'' @ n)"
  by (auto simp: in_dir_def)

lemma in_dir_unique: "in_dir d q \<Longrightarrow> in_dir e q \<Longrightarrow> d = e"
  by (simp add: in_dir_dirname)

lemma in_dir_file [simp]: "CHR ''/'' \<notin> set n \<Longrightarrow> in_dir d (e @ CHR ''/'' # n) \<longleftrightarrow> d = e"
  by (auto simp: in_dir_dirname dirname_append)

lemma strip_slash_dir [simp]: "strip_slash (d @ ''/'') = d"
  by (simp add: strip_slash_def)

lemma set_entries:
  "n \<in> set (entries f (d @ ''/'')) \<longleftrightarrow> CHR ''/'' \<notin> set n \<and> oget f (d @ ''/'' @ n) \<noteq> None"
proof -
  have "oget f q \<noteq> None \<longleftrightarrow> q \<in> set (okeys f)" for q
    using oget_None_iff [of f q] by simp
  then show ?thesis by (force simp: entries_def Let_def prefix_def image_iff)
qed

definition is_dir :: "fsys \<Rightarrow> string \<Rightarrow> bool" where
  "is_dir f d \<longleftrightarrow> oget f d = Some Dir \<and> d \<noteq> [] \<and> last d \<noteq> CHR ''/''"

lemma is_dir_exists: "is_dir f d \<Longrightarrow> dir_exists f (d @ ''/'')"
  by (simp add: is_dir_def dir_exists_def)

lemma file_content_None: "oget f p \<noteq> Some Dir \<Longrightarrow> file_content f p = None \<longleftrightarrow> oget f p = None"
  by (auto simp: file_content_def split: option.splits fentry.splits)

section \<open>Removing\<close>

lemma remove_path_content: "file_content (remove_path p f) q = (if q = p then None else file_content f q)"
  by (auto simp: remove_path_def file_content_def split: option.splits fentry.splits)

lemma remove_path_other: "q \<noteq> p \<Longrightarrow> oget (remove_path p f) q = oget f q"
  by (auto simp: remove_path_def split: option.splits fentry.splits)

lemma remove_path_dir: "oget (remove_path p f) q = Some Dir \<Longrightarrow> oget f q = Some Dir"
  by (auto simp: remove_path_def split: option.splits fentry.splits if_splits)

lemma remove_many_content:
  "file_content (fold (\<lambda>n. remove_path (p n)) ns f) q =
     (if \<exists>n \<in> set ns. q = p n then None else file_content f q)"
  by (induction ns arbitrary: f) (auto simp: remove_path_content)

lemma remove_many_other:
  "\<forall>n \<in> set ns. q \<noteq> p n \<Longrightarrow> oget (fold (\<lambda>n. remove_path (p n)) ns f) q = oget f q"
  by (induction ns arbitrary: f) (simp_all add: remove_path_other)

lemma remove_many_dir:
  "oget (fold (\<lambda>n. remove_path (p n)) ns f) q = Some Dir \<Longrightarrow> oget f q = Some Dir"
  by (induction ns arbitrary: f) (auto dest: remove_path_dir)

lemma clear_dir_content:
  assumes "is_dir f d"
  shows "file_content (clear_dir (d @ ''/'') f) q = (if in_dir d q then None else file_content f q)"
proof -
  have "(\<exists>n \<in> set (entries f (d @ ''/'')). q = (d @ ''/'') @ n) \<longleftrightarrow> in_dir d q \<and> oget f q \<noteq> None"
    by (auto simp: set_entries in_dir_def)
  then have "file_content (clear_dir (d @ ''/'') f) q =
      (if in_dir d q \<and> oget f q \<noteq> None then None else file_content f q)"
    unfolding clear_dir_def using is_dir_exists [OF assms] by (simp only: remove_many_content if_True)
  then show ?thesis by (auto simp: file_content_def)
qed

lemma clear_dir_other: "\<not> in_dir d q \<Longrightarrow> oget (clear_dir (d @ ''/'') f) q = oget f q"
  unfolding clear_dir_def
  by (cases "dir_exists f (d @ ''/'')") (simp_all only: if_True if_False, rule remove_many_other,
      auto simp: set_entries in_dir_def)

lemma clear_dir_dir: "oget (clear_dir d f) q = Some Dir \<Longrightarrow> oget f q = Some Dir"
  by (auto simp: clear_dir_def dest: remove_many_dir split: if_splits)

section \<open>Creating and copying\<close>

lemma can_create_in_dir:
  "is_dir f d \<Longrightarrow> CHR ''/'' \<notin> set n \<Longrightarrow> oget f (d @ ''/'' @ n) \<noteq> Some Dir \<Longrightarrow> can_create f (d @ ''/'' @ n)"
  using dirname_append [of n d]
  by (auto simp: can_create_def is_dir_def dir_exists_def strip_slash_def split: option.splits fentry.splits)

definition text_in :: "fsys \<Rightarrow> string \<Rightarrow> string" where
  "text_in f p = (case file_content f p of None \<Rightarrow> [] | Some c \<Rightarrow> c)"

lemma copy_file_effect: "can_create f q \<Longrightarrow> snd (copy_file p q f) = oupd q (File (text_in f p)) f"
  by (simp add: copy_file_def text_in_def Let_def)

lemma can_create_oupd: "can_create f q \<Longrightarrow> can_create f r \<Longrightarrow> can_create (oupd q (File c) f) r"
  by (auto simp: can_create_def dir_exists_def split: option.splits fentry.splits)

text \<open>The copies of several files, made one after another, do not disturb their sources.\<close>

lemma copy_many:
  assumes "\<forall>n \<in> set ns. can_create f (q n)" and "\<forall>n \<in> set ns. \<forall>m \<in> set ns. p m \<noteq> q n" and "inj q"
  shows "oget (fold (\<lambda>n g. snd (copy_file (p n) (q n) g)) ns f) r =
    (if r \<in> q ` set ns then Some (File (text_in f (p (inv q r)))) else oget f r)"
  using assms(1,2)
proof (induction ns arbitrary: f)
  case (Cons n ns)
  define g where "g = oupd (q n) (File (text_in f (p n))) f"
  have g: "snd (copy_file (p n) (q n) f) = g" using Cons.prems(1) by (simp add: g_def copy_file_effect)
  have "\<forall>m \<in> set ns. can_create g (q m)" using Cons.prems(1) by (simp add: g_def can_create_oupd)
  moreover have "text_in g (p m) = text_in f (p m)" if "m = n \<or> m \<in> set ns" for m
    using Cons.prems(2) that by (auto simp: g_def text_in_def file_content_def)
  ultimately show ?case
    using Cons.IH [of g] Cons.prems(2) assms(3) by (auto simp: g) (auto simp: g_def dest: injD [OF assms(3)])
qed simp

lemma copy_dir_effect:
  assumes "a \<noteq> b" and "is_dir f a" and "is_dir f b"
    and "\<forall>n. CHR ''/'' \<notin> set n \<longrightarrow> oget f (a @ ''/'' @ n) \<noteq> Some Dir \<and> oget f (b @ ''/'' @ n) \<noteq> Some Dir"
  shows "CHR ''/'' \<notin> set n \<Longrightarrow> oget (copy_dir (a @ ''/'') (b @ ''/'') f) (b @ ''/'' @ n) =
      (case oget f (a @ ''/'' @ n) of None \<Rightarrow> oget f (b @ ''/'' @ n) | Some e \<Rightarrow> Some e)"
    and "\<not> in_dir b q \<Longrightarrow> oget (copy_dir (a @ ''/'') (b @ ''/'') f) q = oget f q"
proof -
  let ?p = "\<lambda>n. (a @ ''/'') @ n" and ?q = "\<lambda>n. (b @ ''/'') @ n"
  have "inj ?q" by (simp add: inj_def)
  moreover have "?p m \<noteq> ?q n" if "CHR ''/'' \<notin> set m" "CHR ''/'' \<notin> set n" for m n
    using in_dir_unique [of a "?p m" b] that assms(1) by (metis append.assoc in_dir_def)
  ultimately have c: "oget (copy_dir (a @ ''/'') (b @ ''/'') f) r =
      (if r \<in> ?q ` set (entries f (a @ ''/'')) then Some (File (text_in f (?p (inv ?q r)))) else oget f r)" for r
    unfolding copy_dir_def using is_dir_exists [OF assms(2)] can_create_in_dir [OF assms(3)] assms(4)
    by (simp only: if_True) (rule copy_many, auto simp: set_entries)
  show "\<not> in_dir b q \<Longrightarrow> oget (copy_dir (a @ ''/'') (b @ ''/'') f) q = oget f q"
    using c by (auto simp: set_entries in_dir_def)
  assume n: "CHR ''/'' \<notin> set n"
  have i: "inv ?q (?q n) = n" by (rule inv_f_f) (simp add: inj_def)
  have "oget f (a @ ''/'' @ n) \<noteq> Some Dir" using assms(4) n by blast
  moreover have "oget (copy_dir (a @ ''/'') (b @ ''/'') f) (?q n) =
      (if n \<in> set (entries f (a @ ''/'')) then Some (File (text_in f (?p n))) else oget f (?q n))"
    using c [of "?q n"] unfolding i by (simp add: image_iff)
  ultimately show "oget (copy_dir (a @ ''/'') (b @ ''/'') f) (b @ ''/'' @ n) =
      (case oget f (a @ ''/'' @ n) of None \<Rightarrow> oget f (b @ ''/'' @ n) | Some e \<Rightarrow> Some e)"
    using n by (auto simp: set_entries text_in_def file_content_def split: option.splits fentry.splits)
qed

end
