(* ===== verification/KV_Checkpoint.thy ===== *)
theory KV_Checkpoint
  imports KV_Evict KV_Metadata KV_Files
begin

text \<open>
  What a checkpoint leaves on the disk: the rows of the users in memory in the chunk files of the
  directory \<open>checkpointing\<close>, the metadata that finds them, a copy of the rows that were evicted, and
  an empty log.
\<close>

section \<open>The directories of a node\<close>

abbreviation CP :: string where "CP \<equiv> ''checkpointing''"
abbreviation CVM :: string where "CVM \<equiv> ''checkpointing/virtual memory''"
abbreviation META :: string where "META \<equiv> ''metadata''"

definition dirs_ok :: "fsys \<Rightarrow> bool" where
  "dirs_ok f \<longleftrightarrow>
     oget f META = Some Dir \<and> oget f CP = Some Dir \<and> oget f VM = Some Dir \<and>
     (\<forall>p. oget f p = Some Dir \<longrightarrow> p \<in> {META, CP, VM, CVM}) \<and>
     (oget f CVM = Some Dir \<or> (\<forall>n. file_content f (CVM @ ''/'' @ n) = None))"

text \<open>The directories after everything that belongs to the last checkpoint was removed.\<close>

definition cleared :: "fsys \<Rightarrow> fsys \<Rightarrow> bool" where
  "cleared f g \<longleftrightarrow>
     oget g META = Some Dir \<and> oget g CP = Some Dir \<and> oget g VM = Some Dir \<and>
     (\<forall>p. oget g p = Some Dir \<longrightarrow> p \<in> {META, CP, VM, CVM}) \<and>
     (\<forall>q. in_dir META q \<or> in_dir CP q \<or> in_dir CVM q \<or> q = log_path \<longrightarrow> file_content g q = None) \<and>
     (\<forall>q. in_dir VM q \<longrightarrow> oget g q = oget f q)"

lemma clear_dir_keeps_none: "file_content f q = None \<Longrightarrow> file_content (clear_dir d f) q = None"
  by (simp add: clear_dir_def remove_many_content [of "\<lambda>n. d @ n"])

lemma not_in_dirs [simp]:
  "\<not> in_dir META META" "\<not> in_dir META CP" "\<not> in_dir META VM" "\<not> in_dir CP META" "\<not> in_dir CP CP"
  "\<not> in_dir CP VM" "\<not> in_dir CVM META" "\<not> in_dir CVM CP" "\<not> in_dir CVM VM" "\<not> in_dir VM META"
  "\<not> in_dir VM CP" "\<not> in_dir VM VM" "\<not> in_dir VM CVM" "\<not> in_dir CVM CVM" "in_dir CP CVM"
  "\<not> in_dir META CVM" "\<not> in_dir META log_path" "\<not> in_dir CP log_path" "\<not> in_dir CVM log_path" "\<not> in_dir VM log_path"
  by (simp_all add: in_dir_dirname dirname_def log_path_def)

lemma is_dir_names [simp]:
  "is_dir f META \<longleftrightarrow> oget f META = Some Dir" "is_dir f CP \<longleftrightarrow> oget f CP = Some Dir"
  "is_dir f VM \<longleftrightarrow> oget f VM = Some Dir" "is_dir f CVM \<longleftrightarrow> oget f CVM = Some Dir"
  by (simp_all add: is_dir_def)

lemmas clear_contents =
  clear_dir_content [of _ META, simplified] clear_dir_content [of _ CP, simplified]
  clear_dir_content [of _ CVM, simplified] clear_dir_content [of _ VM, simplified]
lemmas clear_others =
  clear_dir_other [of META, simplified] clear_dir_other [of CP, simplified]
  clear_dir_other [of CVM, simplified] clear_dir_other [of VM, simplified]

lemma checkpoint_clears:
  assumes "dirs_ok f"
  shows "cleared f ((remove_path log_path \<circ> clear_dir ''metadata/'' \<circ> clear_dir ''checkpointing/'' \<circ>
    clear_dir ''checkpointing/virtual memory/'') f)"
proof -
  define f1 where "f1 = clear_dir ''checkpointing/virtual memory/'' f"
  define f2 where "f2 = clear_dir ''checkpointing/'' f1"
  define f3 where "f3 = clear_dir ''metadata/'' f2"
  define f4 where "f4 = remove_path log_path f3"
  have f: "oget f META = Some Dir" "oget f CP = Some Dir" "oget f VM = Some Dir"
    "\<And>p. oget f p = Some Dir \<Longrightarrow> p \<in> {META, CP, VM, CVM}"
    using assms by (auto simp: dirs_ok_def)
  have log: "META \<noteq> log_path" "CP \<noteq> log_path" "VM \<noteq> log_path" by (simp_all add: log_path_def)
  have d1: "oget f1 META = Some Dir" "oget f1 CP = Some Dir" "oget f1 VM = Some Dir"
    using f by (simp_all add: f1_def clear_others)
  have d2: "oget f2 META = Some Dir" "oget f2 CP = Some Dir" "oget f2 VM = Some Dir"
    using d1 by (simp_all add: f2_def clear_others)
  have d3: "oget f3 META = Some Dir" "oget f3 CP = Some Dir" "oget f3 VM = Some Dir"
    using d2 by (simp_all add: f3_def clear_others)
  have "file_content f1 q = None" if "in_dir CVM q" for q
  proof (cases "oget f CVM = Some Dir")
    case True
    then show ?thesis using that by (simp add: f1_def clear_contents)
  next
    case False
    then have "file_content f q = None" using assms that by (auto simp: dirs_ok_def in_dir_def)
    then show ?thesis by (simp add: f1_def clear_dir_keeps_none)
  qed
  then have "file_content f4 q = None" if "in_dir META q \<or> in_dir CP q \<or> in_dir CVM q \<or> q = log_path" for q
    using that d1 d2 by (auto simp: f4_def f3_def f2_def remove_path_content clear_contents clear_dir_keeps_none)
  moreover have "oget f p = Some Dir" if "oget f4 p = Some Dir" for p
    using that unfolding f4_def f3_def f2_def f1_def by (blast dest: remove_path_dir clear_dir_dir)
  moreover have "oget f4 q = oget f q" if "in_dir VM q" for q
  proof -
    have "\<not> in_dir META q" "\<not> in_dir CP q" "\<not> in_dir CVM q" "q \<noteq> log_path"
      using that in_dir_unique [OF that, of META] in_dir_unique [OF that, of CP] in_dir_unique [OF that, of CVM]
      by auto
    then show ?thesis
      by (simp add: f4_def f3_def f2_def f1_def remove_path_other clear_others)
  qed
  ultimately have "cleared f f4"
    using d3 log f(4) unfolding cleared_def f4_def by (auto simp: remove_path_other)
  then show ?thesis by (simp add: f1_def f2_def f3_def f4_def)
qed

section \<open>The rows\<close>

text \<open>What the writing of rows to the checkpoint does not touch.\<close>

definition same_memory :: "kv \<Rightarrow> kv \<Rightarrow> bool" where
  "same_memory s t \<longleftrightarrow>
     heap t = heap s \<and> next_addr t = next_addr s \<and> tablets t = tablets s \<and> user_size t = user_size s \<and>
     memory_used t = memory_used s \<and> virmem_meta t = virmem_meta s \<and> capacity t = capacity s \<and>
     chunk_size t = chunk_size s \<and> seq_num_records t = seq_num_records s \<and>
     primary_holdback t = primary_holdback s \<and> is_primary t = is_primary s \<and>
     secondary_fd t = secondary_fd s \<and> sent t = sent s \<and> oget (chunk_info t) VM = oget (chunk_info s) VM \<and>
     (\<forall>q. \<not> in_dir CP q \<or> q = CVM \<longrightarrow> oget (disk t) q = oget (disk s) q) \<and>
     (\<forall>q. oget (disk t) q = Some Dir \<longrightarrow> oget (disk s) q = Some Dir)"

lemma same_memory_refl [simp]: "same_memory s s"
  by (simp add: same_memory_def)

lemma same_memory_trans: "same_memory s t \<Longrightarrow> same_memory t w \<Longrightarrow> same_memory s w"
  by (simp add: same_memory_def)

lemma same_memory_files: "same_memory s t \<Longrightarrow> files_of t = files_of s"
  by (rule files_of_frame) (simp_all add: same_memory_def)

lemma chunk_path_in_dir: "in_dir CP (chunk_path CP c)"
  by (simp add: in_dir_dirname) (simp add: chunk_path_def)

lemma meta_ok_oget:
  "meta_ok m \<longleftrightarrow> osorted m \<and>
     (\<forall>u rs. oget m u = Some rs \<longrightarrow> name_ok u \<and> rs \<noteq> [] \<and> (\<forall>r \<in> set rs. position_ok r))"
proof (cases "osorted m")
  case True
  then show ?thesis using osorted_oget [OF True] by (auto simp: meta_ok_def)
qed (simp add: meta_ok_def)

text \<open>The checkpoint holds the rows of the users \<open>us\<close>.\<close>

definition saved :: "kv \<Rightarrow> string set \<Rightarrow> kv \<Rightarrow> bool" where
  "saved s us t \<longleftrightarrow>
     same_memory s t \<and> chunks_ok CP t \<and> meta_ok (cp_meta t) \<and>
     (\<exists>b. oget (chunk_info t) CP = Some [0, b] \<and>
        b = (\<Sum>u\<in>us. int (length (row_of (files_list s u))))) \<and>
     (\<forall>u. oget (cp_meta t) u \<noteq> None \<longleftrightarrow> u \<in> us) \<and>
     (\<forall>u \<in> us. stored_row CP u t = Ok (row_of (files_list s u)))"

lemma checkpoint_user_saved:
  assumes wf: "kv_wf s" and saved: "saved s us t" and u: "files_of s u = Some m" "u \<notin> us" "name_ok u"
    and fin: "finite us"
    and fits: "(\<Sum>u\<in>insert u us. int (length (row_of (files_list s u)))) \<le> chunk_size s" "chunk_size s < 2 ^ 31"
  shows "\<exists>t'. checkpoint_user u t = Ok t' \<and> saved s (insert u us) t'"
proof -
  let ?b = "\<Sum>u\<in>us. int (length (row_of (files_list s u)))"
  have b: "oget (chunk_info t) CP = Some [0, ?b]" and mem: "same_memory s t" and ck: "chunks_ok CP t"
    and mt: "meta_ok (cp_meta t)" "\<And>u. oget (cp_meta t) u \<noteq> None \<longleftrightarrow> u \<in> us"
    "\<And>u. u \<in> us \<Longrightarrow> stored_row CP u t = Ok (row_of (files_list s u))"
    using saved by (auto simp: saved_def)
  have m: "files_list s u = m" using u(1) by (simp add: files_list_def)
  have fit: "?b + int (length (row_of m)) \<le> chunk_size t" "chunk_size t < 2 ^ 31"
    using fits u(2) fin mem m by (auto simp: same_memory_def)
  have b0: "0 \<le> ?b" by (rule sum_nonneg) simp
  obtain a where a: "oget (tablets s) u = Some a" using u(1) by (auto simp: files_of_def split: option.splits)
  obtain n where n: "heap s a = Some n" "nkey n = u" "nvalue n = m"
    using kv_wf_node [OF wf a] u(1) by (metis option.inject)
  have run: "checkpoint_user u t = write_to_chunk u (row_of m) CP t"
    using a n mem by (simp add: checkpoint_user_def same_memory_def format_node_def)
  define t' where "t' = with_meta CP (oupd u [[0, ?b, int (length (row_of m))]] (odel u (meta_of CP t))) t
      \<lparr>disk := write_file (chunk_path CP 0) (row_of m) (disk t),
       chunk_info := oupd CP [0, ?b + int (length (row_of m))] (chunk_info t)\<rparr>"
  have t': "write_to_chunk u (row_of m) CP t = Ok t'"
    using write_to_chunk_fits [OF _ b b0 fit] by (simp add: t'_def)
  have st: "chunks_ok CP t'" "\<And>w. stored_row CP w t' = (if w = u then Ok (row_of m) else stored_row CP w t)"
    using write_to_chunk_stores [OF ck b fit, of u] t' by auto
  have cm: "cp_meta t' = oupd u [[0, ?b, int (length (row_of m))]] (odel u (cp_meta t))"
    by (simp add: t'_def with_meta_def meta_of_def)
  have "position_ok [0, ?b, int (length (row_of m))]"
    using b0 fit by (simp add: position_ok_def in_i32_def)
  then have "meta_ok (cp_meta t')" using mt(1) u(3) by (auto simp: meta_ok_oget cm)
  moreover have "same_memory t t'"
  proof -
    have "chunk_path CP 0 \<noteq> CVM" by code_simp
    then have "oget (disk t') q = oget (disk t) q" if "\<not> in_dir CP q \<or> q = CVM" for q
      using that chunk_path_in_dir [of 0] by (auto simp: t'_def intro!: write_file_other)
    moreover have "oget (disk t) q = Some Dir" if "oget (disk t') q = Some Dir" for q
      using that by (auto simp: t'_def write_file_def split: if_splits)
    ultimately show ?thesis by (simp add: same_memory_def t'_def with_meta_def)
  qed
  then have "same_memory s t'" by (rule same_memory_trans [OF mem])
  ultimately have "saved s (insert u us) t'"
    unfolding saved_def using st mt(2,3) cm u(2) fin m by (auto simp: t'_def)
  then show ?thesis using run t' by simp
qed

lemma checkpoint_users_saved:
  assumes wf: "kv_wf s" and users: "\<forall>u \<in> set xs. files_of s u \<noteq> None \<and> name_ok u" "distinct xs" "set xs \<inter> us = {}"
    and fin: "finite us" and saved: "saved s us t"
    and fits: "(\<Sum>u\<in>set xs \<union> us. int (length (row_of (files_list s u)))) \<le> chunk_size s" "chunk_size s < 2 ^ 31"
  shows "\<exists>t'. foldr_res checkpoint_user xs t = Ok t' \<and> saved s (set xs \<union> us) t'"
  using users fin saved fits(1)
proof (induction xs arbitrary: us t)
  case (Cons u xs)
  have "(\<Sum>u\<in>insert u us. int (length (row_of (files_list s u)))) \<le>
      (\<Sum>u\<in>set (u # xs) \<union> us. int (length (row_of (files_list s u))))"
    using Cons.prems(4) by (intro sum_mono2) auto
  then have fit: "(\<Sum>u\<in>insert u us. int (length (row_of (files_list s u)))) \<le> chunk_size s"
    using Cons.prems(6) by (rule order_trans)
  obtain m where m: "files_of s u = Some m" "name_ok u" "u \<notin> us" using Cons.prems(1,3) by auto
  obtain t1 where t1: "checkpoint_user u t = Ok t1" "saved s (insert u us) t1"
    using checkpoint_user_saved [OF wf Cons.prems(5) m(1,3,2) Cons.prems(4) fit fits(2)] by blast
  have "set (u # xs) \<union> us = set xs \<union> insert u us" by simp
  then show ?case
    using Cons.IH [of "insert u us" t1] Cons.prems t1 by auto
qed simp

section \<open>The metadata and the copy of the evicted rows\<close>

definition savable :: "kv \<Rightarrow> bool" where
  "savable s \<longleftrightarrow>
     kv_wf s \<and> dirs_ok (disk s) \<and> chunks_ok VM s \<and> meta_ok (virmem_meta s) \<and>
     (\<exists>a b. oget (chunk_info s) CP = Some [a, b]) \<and>
     (\<forall>i \<in> set (oget_def [] (chunk_info s) VM). in_i32 i) \<and>
     (\<forall>u n. oget (user_size s) u = Some n \<longrightarrow> name_ok u \<and> in_i32 n) \<and>
     (\<forall>u m. files_of s u = Some m \<longrightarrow>
        name_ok u \<and> comma_free m \<and> m \<noteq> [] \<and> oget (virmem_meta s) u = None) \<and>
     (\<Sum>u\<in>dom (files_of s). int (length (row_of (files_list s u)))) \<le> chunk_size s \<and> chunk_size s < 2 ^ 31"

definition emptied :: "kv \<Rightarrow> kv" where
  "emptied s = set_info CP 1 0 (set_info CP 0 0
     ((on_files (remove_path log_path \<circ> clear_dir ''metadata/'' \<circ> clear_dir ''checkpointing/'' \<circ>
        clear_dir ''checkpointing/virtual memory/'') s)\<lparr>cp_meta := []\<rparr>))"

definition cp_image :: "kv \<Rightarrow> kv \<Rightarrow> fsys \<Rightarrow> bool" where
  "cp_image s t f \<longleftrightarrow>
     saved (emptied s) (dom (files_of s)) t \<and>
     (\<exists>x. meta_text (cp_meta t) = Ok x \<and> file_content f ''metadata/cp_meta'' = Some x) \<and>
     (\<exists>x. meta_text (virmem_meta s) = Ok x \<and> file_content f ''metadata/virmem_meta'' = Some x) \<and>
     (\<exists>x. chunk_info_text t = Ok x \<and> file_content f ''metadata/chunk_info'' = Some x) \<and>
     file_content f ''metadata/user_size'' = Some (user_size_text (user_size s)) \<and>
     (\<forall>q. in_dir CP q \<and> q \<noteq> CVM \<longrightarrow> file_content f q = file_content (disk t) q) \<and>
     (\<forall>n. CHR ''/'' \<notin> set n \<longrightarrow> oget f (VM @ ''/'' @ n) = oget (disk s) (VM @ ''/'' @ n) \<and>
        oget f (CVM @ ''/'' @ n) = oget (disk s) (VM @ ''/'' @ n)) \<and>
     (\<forall>d \<in> {META, CP, VM, CVM}. oget f d = Some Dir) \<and>
     (\<forall>p. oget f p = Some Dir \<longrightarrow> p \<in> {META, CP, VM, CVM})"

lemma write_in_dir:
  assumes "is_dir f d" and "CHR ''/'' \<notin> set n" and "oget f (d @ ''/'' @ n) = None"
  shows "write_file (d @ ''/'' @ n) x f = oupd (d @ ''/'' @ n) (File x) f"
  using can_create_in_dir [OF assms(1,2)] assms(3) by (simp add: write_file_def file_content_def)

lemma meta_text_defined: "meta_ok m \<Longrightarrow> \<exists>x. meta_text m = Ok x"
  by (subst meta_text_lines) (auto simp: meta_ok_def)

text \<open>The four files are written into an empty directory.\<close>

lemma write_metadata:
  assumes dir: "oget (disk t) META = Some Dir" and empty: "\<forall>q. in_dir META q \<longrightarrow> oget (disk t) q = None"
    and m: "meta_text (cp_meta t) = Ok x1" "meta_text (virmem_meta t) = Ok x2" "chunk_info_text t = Ok x3"
  shows "rbind (write_cp_meta t) (\<lambda>s. rbind (write_virmem_meta s) (\<lambda>s. rbind (write_chunk_info s) (\<lambda>s.
      Ok (write_user_size s)))) = Ok (t\<lparr>disk := oupd ''metadata/user_size'' (File (user_size_text (user_size t)))
        (oupd ''metadata/chunk_info'' (File x3) (oupd ''metadata/virmem_meta'' (File x2)
          (oupd ''metadata/cp_meta'' (File x1) (disk t))))\<rparr>)"
proof -
  have names: "oget (disk t) ''metadata/cp_meta'' = None" "oget (disk t) ''metadata/virmem_meta'' = None"
    "oget (disk t) ''metadata/chunk_info'' = None" "oget (disk t) ''metadata/user_size'' = None"
    using empty by (simp_all add: in_dir_dirname dirname_def)
  have w: "write_file ''metadata/cp_meta'' x f = oupd ''metadata/cp_meta'' (File x) f"
      if "oget f META = Some Dir" "oget f ''metadata/cp_meta'' = None" for x f
    using write_in_dir [of f META "''cp_meta''" x] that by simp
  have w2: "write_file ''metadata/virmem_meta'' x f = oupd ''metadata/virmem_meta'' (File x) f"
      if "oget f META = Some Dir" "oget f ''metadata/virmem_meta'' = None" for x f
    using write_in_dir [of f META "''virmem_meta''" x] that by simp
  have w3: "write_file ''metadata/chunk_info'' x f = oupd ''metadata/chunk_info'' (File x) f"
      if "oget f META = Some Dir" "oget f ''metadata/chunk_info'' = None" for x f
    using write_in_dir [of f META "''chunk_info''" x] that by simp
  have w4: "write_file ''metadata/user_size'' x f = oupd ''metadata/user_size'' (File x) f"
      if "oget f META = Some Dir" "oget f ''metadata/user_size'' = None" for x f
    using write_in_dir [of f META "''user_size''" x] that by simp
  have info: "chunk_info_text (t\<lparr>disk := d\<rparr>) = chunk_info_text t" for d
    by (simp add: chunk_info_text_def info_at_def)
  show ?thesis
    using m names dir by (simp add: write_cp_meta_def write_virmem_meta_def write_chunk_info_def
        write_user_size_def info w w2 w3 w4)
qed

lemma copy_vm:
  assumes dirs: "oget f CP = Some Dir" "oget f VM = Some Dir" "\<forall>p. oget f p = Some Dir \<longrightarrow> p \<in> {META, CP, VM, CVM}"
    and empty: "\<forall>q. in_dir CVM q \<longrightarrow> oget f q = None" "file_content f CVM = None"
  defines "g \<equiv> (copy_dir ''virtual memory/'' ''checkpointing/virtual memory/'' \<circ>
            create_dir ''checkpointing/virtual memory'') f"
  shows "oget g CVM = Some Dir" and "q \<noteq> CVM \<Longrightarrow> \<not> in_dir CVM q \<Longrightarrow> oget g q = oget f q"
    and "CHR ''/'' \<notin> set n \<Longrightarrow> oget g (CVM @ ''/'' @ n) = oget f (VM @ ''/'' @ n)"
proof -
  define h where "h = create_dir ''checkpointing/virtual memory'' f"
  have "oget f CVM = None \<or> oget f CVM = Some Dir"
    using empty(2) by (auto simp: file_content_def split: option.splits fentry.splits)
  moreover have "dirname CVM = CP" by (simp add: dirname_def)
  then have "dir_exists f (dirname CVM)" using dirs(1) by (simp add: dir_exists_def strip_slash_def)
  ultimately have h: "oget h q = (if q = CVM then Some Dir else oget f q)" for q
    by (auto simp: h_def create_dir_def)
  have nodir: "oget h (VM @ ''/'' @ n) \<noteq> Some Dir \<and> oget h (CVM @ ''/'' @ n) \<noteq> Some Dir" if "CHR ''/'' \<notin> set n" for n
  proof -
    have "in_dir VM (VM @ ''/'' @ n)" "in_dir CVM (CVM @ ''/'' @ n)" using that by (rule in_dirI)+
    then have "VM @ ''/'' @ n \<notin> {META, CP, VM, CVM}" "VM @ ''/'' @ n \<noteq> CVM" "CVM @ ''/'' @ n \<noteq> CVM"
      "oget f (CVM @ ''/'' @ n) = None"
      using empty(1) by auto
    then show ?thesis using dirs(3) unfolding h by (simp only: if_False) blast
  qed
  have c: "g = copy_dir (VM @ ''/'') (CVM @ ''/'') h" by (simp add: g_def h_def)
  have d: "is_dir h VM" "is_dir h CVM" "VM \<noteq> CVM" using dirs(2) by (simp_all add: h)
  show "oget g CVM = Some Dir" unfolding c
    by (subst copy_dir_effect(2) [OF d(3,1,2)]) (use nodir in \<open>simp_all add: h\<close>)
  show "oget g q = oget f q" if "q \<noteq> CVM" "\<not> in_dir CVM q" unfolding c
    by (subst copy_dir_effect(2) [OF d(3,1,2)]) (use nodir that in \<open>simp_all add: h\<close>)
  assume n: "CHR ''/'' \<notin> set n"
  have "oget h (CVM @ ''/'' @ n) = None" using empty(1) in_dirI [OF n, of CVM] by (simp add: h)
  moreover have "oget h (VM @ ''/'' @ n) = oget f (VM @ ''/'' @ n)" by (simp add: h)
  ultimately show "oget g (CVM @ ''/'' @ n) = oget f (VM @ ''/'' @ n)" unfolding c
    using copy_dir_effect(1) [OF d(3,1,2) _ n] nodir by (auto split: option.split)
qed

section \<open>The checkpoint\<close>

lemma tablets_files:
  assumes "kv_wf s"
  shows "distinct (okeys (tablets s))" and "set (okeys (tablets s)) = dom (files_of s)"
proof -
  show "distinct (okeys (tablets s))" using assms om.ordered_keys by (auto simp: kv_wf_def)
  have "files_of s u \<noteq> None \<longleftrightarrow> oget (tablets s) u \<noteq> None" for u
    by (cases "oget (tablets s) u") (simp add: files_of_def, metis kv_wf_node [OF assms] option.distinct(1))
  then show "set (okeys (tablets s)) = dom (files_of s)" by (auto simp: om.keys_dom)
qed

lemma emptied_simps [simp]:
  "heap (emptied s) = heap s" "next_addr (emptied s) = next_addr s" "tablets (emptied s) = tablets s"
  "user_size (emptied s) = user_size s" "memory_used (emptied s) = memory_used s" "virmem_meta (emptied s) = virmem_meta s"
  "capacity (emptied s) = capacity s" "chunk_size (emptied s) = chunk_size s" "cp_meta (emptied s) = []"
  "seq_num_records (emptied s) = seq_num_records s" "primary_holdback (emptied s) = primary_holdback s"
  "is_primary (emptied s) = is_primary s" "secondary_fd (emptied s) = secondary_fd s" "sent (emptied s) = sent s"
  "oget (chunk_info (emptied s)) VM = oget (chunk_info s) VM"
  "files_of (emptied s) = files_of s" "files_list (emptied s) = files_list s"
proof -
  show f: "files_of (emptied s) = files_of s"
    by (rule files_of_frame) (simp_all add: emptied_def set_info_def on_files_def)
  then show "files_list (emptied s) = files_list s" by (rule files_list_cong)
qed (simp_all add: emptied_def set_info_def on_files_def)

lemma kv_wf_emptied: "kv_wf s \<Longrightarrow> kv_wf (emptied s)"
  by (simp add: kv_wf_def nodes_ok_def)

lemma emptied_saved:
  assumes s: "savable s"
  shows "cleared (disk s) (disk (emptied s))" and "saved (emptied s) {} (emptied s)"
    and "checkpointing s =
      rbind (foldr_res checkpoint_user (okeys (tablets s)) (emptied s)) (\<lambda>s.
      rbind (write_cp_meta s) (\<lambda>s. rbind (write_virmem_meta s) (\<lambda>s. rbind (write_chunk_info s) (\<lambda>s.
      Ok (on_files (copy_dir ''virtual memory/'' ''checkpointing/virtual memory/'' \<circ>
            create_dir ''checkpointing/virtual memory'') (write_user_size s))))))"
proof -
  obtain a b where ab: "oget (chunk_info s) CP = Some [a, b]" and d: "dirs_ok (disk s)"
    using s by (auto simp: savable_def)
  have info: "oget (chunk_info (emptied s)) CP = Some [0, 0]"
    using ab by (simp add: emptied_def set_info_def on_files_def oget_def_def)
  show c: "cleared (disk s) (disk (emptied s))"
    using checkpoint_clears [OF d] by (simp add: emptied_def set_info_def on_files_def)
  have p: "chunk_path CP 0 = CP @ ''/'' @ (''chunk'' @ to_string 0)" "CHR ''/'' \<notin> set (''chunk'' @ to_string 0)"
    by (simp_all add: chunk_path_def)
  have none: "file_content (disk (emptied s)) (chunk_path CP 0) = None"
    using c chunk_path_in_dir [of 0] by (auto simp: cleared_def)
  have "chunk_path CP 0 \<notin> {META, CP, VM, CVM}" by code_simp
  then have "oget (disk (emptied s)) (chunk_path CP 0) \<noteq> Some Dir" using c by (auto simp: cleared_def)
  then have "can_create (disk (emptied s)) (chunk_path CP 0)"
    unfolding p(1) using c p(2) by (intro can_create_in_dir) (simp_all add: cleared_def)
  then have "chunks_ok CP (emptied s)"
    using info none by (simp add: chunks_ok_def chunk_file_def meta_of_def oget_def_def)
  then show "saved (emptied s) {} (emptied s)"
    using info by (simp add: saved_def meta_ok_def)
  show "checkpointing s =
      rbind (foldr_res checkpoint_user (okeys (tablets s)) (emptied s)) (\<lambda>s.
      rbind (write_cp_meta s) (\<lambda>s. rbind (write_virmem_meta s) (\<lambda>s. rbind (write_chunk_info s) (\<lambda>s.
      Ok (on_files (copy_dir ''virtual memory/'' ''checkpointing/virtual memory/'' \<circ>
            create_dir ''checkpointing/virtual memory'') (write_user_size s))))))"
    using ab by (simp add: checkpointing_def emptied_def Let_def on_files_def info_at_def set_info_def oget_def_def)
qed

lemma in_VM_no_dir: "in_dir VM q \<Longrightarrow> q \<notin> {META, CP, VM, CVM}"
  by auto

lemma metadata_paths:
  "in_dir META ''metadata/cp_meta''" "in_dir META ''metadata/virmem_meta''"
  "in_dir META ''metadata/chunk_info''" "in_dir META ''metadata/user_size''"
  "\<not> in_dir CVM ''metadata/cp_meta''" "\<not> in_dir CVM ''metadata/virmem_meta''"
  "\<not> in_dir CVM ''metadata/chunk_info''" "\<not> in_dir CVM ''metadata/user_size''"
  by (simp_all add: in_dir_dirname dirname_def)

lemma checkpoint_image:
  assumes s: "savable s"
  shows "\<exists>t g. checkpointing s = Ok (t\<lparr>disk := g\<rparr>) \<and> cp_image s t g \<and> oget g log_path = None"
proof -
  let ?xs = "okeys (tablets s)"
  have wf: "kv_wf s" and names: "\<And>u m. files_of s u = Some m \<Longrightarrow> name_ok u"
    and fits: "(\<Sum>u\<in>dom (files_of s). int (length (row_of (files_list s u)))) \<le> chunk_size s" "chunk_size s < 2 ^ 31"
    using s by (auto simp: savable_def)
  have keys: "distinct ?xs" "set ?xs = dom (files_of s)" by (rule tablets_files [OF wf])+
  obtain t where t: "foldr_res checkpoint_user ?xs (emptied s) = Ok t" "saved (emptied s) (dom (files_of s)) t"
    using checkpoint_users_saved [OF kv_wf_emptied [OF wf] _ keys(1) _ _ emptied_saved(2) [OF s]] names fits
    by (auto simp: keys(2))
  have c: "cleared (disk s) (disk (emptied s))" by (rule emptied_saved(1) [OF s])
  have mem: "same_memory (emptied s) t" and mt: "meta_ok (cp_meta t)" and
    ck: "\<exists>b. oget (chunk_info t) CP = Some [0, b]"
    using t(2) by (auto simp: saved_def)
  have same: "oget (disk t) q = oget (disk (emptied s)) q" if "\<not> in_dir CP q \<or> q = CVM" for q
    using mem that by (simp add: same_memory_def)
  have dirs: "oget (disk t) META = Some Dir" "oget (disk t) CP = Some Dir" "oget (disk t) VM = Some Dir"
    using c same by (simp_all add: cleared_def)
  have only: "p \<in> {META, CP, VM, CVM}" if "oget (disk t) p = Some Dir" for p
    using c that mem by (auto simp: same_memory_def cleared_def)
  have gone: "oget (disk t) q = None" if "in_dir META q \<or> in_dir CVM q \<or> q = log_path" for q
  proof -
    have "q \<notin> {META, CP, VM, CVM}" using that by (auto simp: log_path_def)
    moreover have n: "\<not> in_dir CP q" using that in_dir_unique [of CP q] by auto
    moreover have "file_content (disk (emptied s)) q = None" using c that by (auto simp: cleared_def)
    ultimately show ?thesis
      using same [OF disjI1 [OF n]] only [of q] file_content_None [of "disk t" q] by (auto simp: file_content_def)
  qed
  obtain x1 where x1: "meta_text (cp_meta t) = Ok x1" using meta_text_defined [OF mt] by blast
  have vm: "virmem_meta t = virmem_meta s" "user_size t = user_size s" "oget (chunk_info t) VM = oget (chunk_info s) VM"
    using mem by (simp_all add: same_memory_def)
  obtain x2 where x2: "meta_text (virmem_meta t) = Ok x2"
    using meta_text_defined [of "virmem_meta s"] s vm by (auto simp: savable_def)
  obtain x3 where x3: "chunk_info_text t = Ok x3"
  proof -
    obtain a b where "oget (chunk_info s) VM = Some [a, b]" using s by (auto simp: savable_def chunks_ok_def)
    then show thesis using that ck vm by (auto simp: chunk_info_text_def info_at_def oget_def_def)
  qed
  define f where "f = oupd ''metadata/user_size'' (File (user_size_text (user_size t)))
        (oupd ''metadata/chunk_info'' (File x3) (oupd ''metadata/virmem_meta'' (File x2)
          (oupd ''metadata/cp_meta'' (File x1) (disk t))))"
  define g where "g = (copy_dir ''virtual memory/'' ''checkpointing/virtual memory/'' \<circ>
            create_dir ''checkpointing/virtual memory'') f"
  have "checkpointing s = Ok (t\<lparr>disk := g\<rparr>)"
  proof -
    have "rbind (write_cp_meta t) (\<lambda>s. rbind (write_virmem_meta s) (\<lambda>s. rbind (write_chunk_info s) (\<lambda>s.
      Ok (on_files k (write_user_size s))))) = Ok (on_files k (t\<lparr>disk := f\<rparr>))" for k
      using write_metadata [OF dirs(1) _ x1 x2 x3] gone
      by (auto simp: f_def rbind_eq_Ok)
    then show ?thesis by (simp add: emptied_saved(3) [OF s] t(1)) (simp add: on_files_def g_def)
  qed
  moreover have "cp_image s t g \<and> oget g log_path = None"
  proof -
    have n: "oget f q = oget (disk t) q" if "\<not> in_dir META q" for q
      using that metadata_paths by (auto simp: f_def)
    have fd: "oget f p = Some Dir \<Longrightarrow> p \<in> {META, CP, VM, CVM}" for p
      using only [of p] by (auto simp: f_def split: if_splits)
    have "file_content (disk (emptied s)) CVM = None" using c by (auto simp: cleared_def)
    then have "file_content f CVM = None" using n [of CVM] same [of CVM] by (simp add: file_content_def)
    moreover have "oget f q = None" if "in_dir CVM q" for q
    proof -
      have "\<not> in_dir META q" using that in_dir_unique [OF that, of META] by auto
      then show ?thesis using n gone that by simp
    qed
    ultimately have g: "oget g CVM = Some Dir" "\<And>q. q \<noteq> CVM \<Longrightarrow> \<not> in_dir CVM q \<Longrightarrow> oget g q = oget f q"
      "\<And>n. CHR ''/'' \<notin> set n \<Longrightarrow> oget g (CVM @ ''/'' @ n) = oget f (VM @ ''/'' @ n)"
      using copy_vm [of f] dirs fd n unfolding g_def by auto
    have m: "oget g ''metadata/cp_meta'' = Some (File x1)" "oget g ''metadata/virmem_meta'' = Some (File x2)"
      "oget g ''metadata/chunk_info'' = Some (File x3)"
      "oget g ''metadata/user_size'' = Some (File (user_size_text (user_size s)))"
      using vm metadata_paths by (simp_all add: g(2) f_def)
    have vmq: "oget g (VM @ ''/'' @ k) = oget (disk s) (VM @ ''/'' @ k) \<and>
        oget g (CVM @ ''/'' @ k) = oget (disk s) (VM @ ''/'' @ k)" if k: "CHR ''/'' \<notin> set k" for k
    proof -
      let ?q = "VM @ ''/'' @ k"
      have q: "in_dir VM ?q" using k by (rule in_dirI)
      then have o: "\<not> in_dir META ?q" "\<not> in_dir CP ?q" "\<not> in_dir CVM ?q" "?q \<noteq> CVM"
        using in_dir_unique [OF q, of META] in_dir_unique [OF q, of CP] in_dir_unique [OF q, of CVM] by auto
      have "oget f ?q = oget (disk (emptied s)) ?q" by (rule trans [OF n [OF o(1)] same [OF disjI1 [OF o(2)]]])
      also have "\<dots> = oget (disk s) ?q" using c q by (simp add: cleared_def)
      finally show ?thesis using g(2) [OF o(4,3)] g(3) [OF k] by simp
    qed
    have cp: "file_content g q = file_content (disk t) q" if "in_dir CP q" "q \<noteq> CVM" for q
    proof -
      have "\<not> in_dir META q" "\<not> in_dir CVM q"
        using in_dir_unique [OF that(1), of META] in_dir_unique [OF that(1), of CVM] by auto
      then show ?thesis using g(2) [OF that(2)] n by (simp add: file_content_def)
    qed
    have gd: "p \<in> {META, CP, VM, CVM}" if "oget g p = Some Dir" for p
    proof (cases "p = CVM \<or> in_dir CVM p")
      case True
      moreover have "oget g p \<noteq> Some Dir" if p: "in_dir CVM p"
      proof -
        obtain k where k: "p = CVM @ ''/'' @ k" "CHR ''/'' \<notin> set k" using p by (auto simp: in_dir_def)
        have "VM @ ''/'' @ k \<notin> {META, CP, VM, CVM}" by (rule in_VM_no_dir [OF in_dirI [OF k(2)]])
        then have "oget f (VM @ ''/'' @ k) \<noteq> Some Dir" using fd by blast
        then show ?thesis unfolding k(1) g(3) [OF k(2)] .
      qed
      ultimately show ?thesis using that by auto
    next
      case False
      then show ?thesis using fd [of p] g(2) [of p] that by simp
    qed
    have lg: "log_path \<noteq> CVM" by (simp add: log_path_def)
    have log: "oget g log_path = None" using g(2) [OF lg] n [of log_path] gone [of log_path] by simp
    have "oget g META = Some Dir" "oget g CP = Some Dir" "oget g VM = Some Dir"
      using g(2) n dirs by (simp_all add: f_def)
    then show ?thesis
      unfolding cp_image_def using t(2) m x1 x2 x3 vm vmq cp gd log g(1) by (auto simp: file_content_def)
  qed
  ultimately show ?thesis by blast
qed

end
