(* ===== verification/KV_Restart.thy ===== *)
theory KV_Restart
  imports KV_Checkpoint KV_Protocol
begin

text \<open>
  A process that starts on the disk of a checkpoint: it loads the metadata, then the row of every
  user that was in memory, restores the evicted rows, and replays the log. It ends with what the
  node held when it stopped.
\<close>

section \<open>Loading the users\<close>

lemma load_cp_user_ok:
  assumes wf: "kv_wf t" and room: "put_room t u (bytes_of m)" and none: "files_of t u = None"
    and m: "comma_free m" "osorted m" "m \<noteq> []"
    and disk: "oget (cp_meta t) u \<noteq> None" "stored_row CP u t = Ok (row_of m)"
  shows "\<exists>w. load_cp_user (Suc n) u t = Ok w \<and> kv_wf w \<and> quiet t w \<and>
    memory_used w = memory_used t + msize m \<and> files_of w = (files_of t)(u \<mapsto> m)"
proof -
  obtain w where w: "restore_user (internal_put (Suc n) (- 1) u) (row_of m) t = Ok w" "kv_wf w" "quiet t w"
    "memory_used w = memory_used t + int (bytes_of m)" "files_of w = (files_of t)(u \<mapsto> m)"
    using cache.restore_row [OF wf m none room, of n "- 1"] by blast
  have "internal_put (Suc n) (- 1) = (\<lambda>u f v. put_entry (- 1) v (put_loop (Suc n) u f v (- 1) False 0))"
    by (intro ext) (simp add: internal_put_def)
  moreover have "oindex [] u (cp_meta t) = cp_meta t" using disk(1) by (auto simp: oindex_def)
  ultimately have "load_cp_user (Suc n) u t = Ok w"
    using w(1) disk(2) by (simp add: load_cp_user_def load_user_from_disk_def stored_row_def meta_of_def)
  then show ?thesis using w by (simp add: bytes_of_msize)
qed

lemma load_users:
  assumes wf: "kv_wf t" and xs: "distinct xs" "\<forall>u \<in> set xs. files_of t u = None"
    and m: "\<forall>u \<in> set xs. comma_free (F u) \<and> osorted (F u) \<and> F u \<noteq> []"
    and disk: "\<forall>u \<in> set xs. oget (cp_meta t) u \<noteq> None \<and> oget (virmem_meta t) u = None \<and>
      stored_row CP u t = Ok (row_of (F u))"
    and room: "0 \<le> memory_used t" "memory_used t + (\<Sum>u\<leftarrow>xs. msize (F u)) \<le> capacity t" "capacity t < 2 ^ 31"
  shows "\<exists>w. foldr_res (load_cp_user (Suc n)) xs t = Ok w \<and> kv_wf w \<and> quiet t w \<and>
    memory_used w = memory_used t + (\<Sum>u\<leftarrow>xs. msize (F u)) \<and>
    files_of w = (\<lambda>u. if u \<in> set xs then Some (F u) else files_of t u)"
  using assms
proof (induction xs arbitrary: t)
  case Nil
  then show ?case by (simp add: quiet_def)
next
  case (Cons u xs)
  have sum: "0 \<le> (\<Sum>u\<leftarrow>xs. msize (F u))" by (rule sum_list_nonneg) auto
  have "put_room t u (bytes_of (F u))"
    using Cons.prems(5-8) sum by (simp add: put_room_def mem_room_def bytes_of_msize)
  then obtain w where w: "load_cp_user (Suc n) u t = Ok w" "kv_wf w" "quiet t w"
    "memory_used w = memory_used t + msize (F u)" "files_of w = (files_of t)(u \<mapsto> F u)"
    using load_cp_user_ok [OF Cons.prems(1), of u "F u" n] Cons.prems by auto
  have same: "cp_meta w = cp_meta t" "virmem_meta w = virmem_meta t" "disk w = disk t" "capacity w = capacity t"
    using w(3) by (simp_all add: quiet_def same_node_def)
  have row: "stored_row CP v w = stored_row CP v t" for v by (simp add: stored_row_def meta_of_def same)
  have "\<forall>v \<in> set xs. files_of w v = None" using Cons.prems(2,3) w(5) by auto
  then obtain z where z: "foldr_res (load_cp_user (Suc n)) xs w = Ok z" "kv_wf z" "quiet w z"
    "memory_used z = memory_used w + (\<Sum>u\<leftarrow>xs. msize (F u))"
    "files_of z = (\<lambda>u. if u \<in> set xs then Some (F u) else files_of w u)"
    using Cons.IH [OF w(2)] Cons.prems row same w(4) msize_nonneg [of "F u"] by auto
  moreover have "quiet t z" using w(3) z(3) by (auto simp: quiet_def intro: same_node_trans)
  ultimately show ?case using w by (auto simp: fun_eq_iff)
qed

section \<open>Loading the checkpoint\<close>

definition fresh :: "int \<Rightarrow> int \<Rightarrow> fsys \<Rightarrow> kv" where
  "fresh cap csize f = (init_kv cap csize)\<lparr>disk := f\<rparr>"

text \<open>What the process holds once the metadata is read.\<close>

definition with_metadata :: "kv \<Rightarrow> kv \<Rightarrow> kv \<Rightarrow> kv" where
  "with_metadata s t r = r\<lparr>cp_meta := cp_meta t, virmem_meta := virmem_meta s,
     chunk_info := [(CP, oget_def [] (chunk_info t) CP), (VM, oget_def [] (chunk_info s) VM)],
     user_size := user_size s\<rparr>"

lemma load_metadata:
  assumes s: "savable s" and im: "cp_image s t f"
  shows "rbind (load_cp_vm_meta ''metadata/cp_meta'' CP (fresh cap csize f)) (\<lambda>s.
     rbind (load_cp_vm_meta ''metadata/virmem_meta'' VM s) (\<lambda>s.
     rbind (load_chunk_info s) load_user_size)) = Ok (with_metadata s t (fresh cap csize f))"
proof -
  let ?r = "fresh cap csize f"
  have saved: "saved (emptied s) (dom (files_of s)) t" using im by (simp add: cp_image_def)
  then obtain b where b: "oget (chunk_info t) CP = Some [0, b]"
    "b = (\<Sum>u\<in>dom (files_of s). int (length (row_of (files_list s u))))" "meta_ok (cp_meta t)"
    "oget (chunk_info t) VM = oget (chunk_info s) VM"
    by (auto simp: saved_def same_memory_def)
  have "0 \<le> b" unfolding b(2) by (rule sum_nonneg) simp
  moreover have "b < 2 ^ 31" using s b(2) by (auto simp: savable_def)
  ultimately have b32: "in_i32 b" by (simp add: in_i32_def)
  obtain c d where cd: "oget (chunk_info s) VM = Some [c, d]" "in_i32 c" "in_i32 d"
    using s by (auto simp: savable_def chunks_ok_def oget_def_def)
  obtain x1 x2 x3 where x: "meta_text (cp_meta t) = Ok x1" "file_content f ''metadata/cp_meta'' = Some x1"
    "meta_text (virmem_meta s) = Ok x2" "file_content f ''metadata/virmem_meta'' = Some x2"
    "chunk_info_text t = Ok x3" "file_content f ''metadata/chunk_info'' = Some x3"
    "file_content f ''metadata/user_size'' = Some (user_size_text (user_size s))"
    using im by (auto simp: cp_image_def)
  have vm: "meta_ok (virmem_meta s)" using s by (simp add: savable_def)
  have us: "osorted (user_size s)" "\<forall>(u, n) \<in> set (user_size s). name_ok u \<and> in_i32 n"
  proof -
    show o: "osorted (user_size s)" using s by (simp add: savable_def kv_wf_def)
    show "\<forall>(u, n) \<in> set (user_size s). name_ok u \<and> in_i32 n"
      using s osorted_oget [OF o] by (auto simp: savable_def)
  qed
  define r1 where "r1 = with_meta CP (cp_meta t) ?r"
  define r2 where "r2 = with_meta VM (virmem_meta s) r1"
  have 1: "load_cp_vm_meta ''metadata/cp_meta'' CP ?r = Ok r1" unfolding r1_def
    using x(2) by (intro load_meta [OF _ b(3) _ x(1)]) (simp_all add: fresh_def init_kv_def meta_of_def)
  have 2: "load_cp_vm_meta ''metadata/virmem_meta'' VM r1 = Ok r2" unfolding r2_def
    using x(4) by (intro load_meta [OF _ vm _ x(3)]) (simp_all add: r1_def fresh_def init_kv_def meta_of_def with_meta_def)
  have 3: "load_chunk_info r2 = Ok (r2\<lparr>chunk_info := [(CP, [0, b]), (VM, [c, d])]\<rparr>)"
    using x(6) b(1,4) cd b32
    by (intro load_chunk_info_text [OF _ x(5)]) (simp_all add: r2_def r1_def fresh_def init_kv_def in_i32_def)
  have 4: "load_user_size (r2\<lparr>chunk_info := i\<rparr>) = Ok (r2\<lparr>chunk_info := i\<rparr>\<lparr>user_size := user_size s\<rparr>)" for i
    using x(7) us by (intro load_user_size_text) (simp_all add: r2_def r1_def fresh_def init_kv_def)
  show ?thesis
    using 1 2 3 4 b(1) cd(1) by (simp add: with_metadata_def oget_def_def r2_def r1_def with_meta_def)
qed

text \<open>The evicted rows are copied back to where the metadata says they are.\<close>

lemma restore_vm:
  assumes dirs: "\<forall>d \<in> {META, CP, VM, CVM}. oget f d = Some Dir" "\<forall>p. oget f p = Some Dir \<longrightarrow> p \<in> {META, CP, VM, CVM}"
  defines "g \<equiv> (copy_dir ''checkpointing/virtual memory/'' ''virtual memory/'' \<circ> clear_dir ''virtual memory/'') f"
  shows "CHR ''/'' \<notin> set n \<Longrightarrow> file_content g (VM @ ''/'' @ n) = file_content f (CVM @ ''/'' @ n)"
    and "\<not> in_dir VM q \<Longrightarrow> oget g q = oget f q"
proof -
  define h where "h = clear_dir ''virtual memory/'' f"
  have c: "g = copy_dir (CVM @ ''/'') (VM @ ''/'') h" by (simp add: g_def h_def)
  have h: "oget h q = oget f q" if "\<not> in_dir VM q" for q using that by (simp add: h_def clear_others)
  have hv: "file_content h q = None" if "in_dir VM q" for q using that dirs(1) by (simp add: h_def clear_contents)
  have d: "is_dir h CVM" "is_dir h VM" "CVM \<noteq> VM" using dirs(1) by (simp_all add: h)
  have hd: "oget h p = Some Dir \<Longrightarrow> p \<in> {META, CP, VM, CVM}" for p
    using dirs(2) clear_dir_dir by (auto simp: h_def)
  have nodir: "oget h (CVM @ ''/'' @ k) \<noteq> Some Dir \<and> oget h (VM @ ''/'' @ k) \<noteq> Some Dir" if k: "CHR ''/'' \<notin> set k" for k
  proof -
    have "CVM @ ''/'' @ k \<notin> {META, CP, VM, CVM}" using in_dirI [OF k, of CVM] by auto
    moreover have "VM @ ''/'' @ k \<notin> {META, CP, VM, CVM}" by (rule in_VM_no_dir [OF in_dirI [OF k]])
    ultimately show ?thesis using hd by blast
  qed
  show "oget g q = oget f q" if "\<not> in_dir VM q"
    unfolding c using copy_dir_effect(2) [OF d(3,1,2) _ that] nodir h [OF that] by simp
  assume n: "CHR ''/'' \<notin> set n"
  have "\<not> in_dir VM (CVM @ ''/'' @ n)" using in_dir_unique [OF in_dirI [OF n, of CVM], of VM] by auto
  then have src: "oget h (CVM @ ''/'' @ n) = oget f (CVM @ ''/'' @ n)" by (rule h)
  have "oget h (VM @ ''/'' @ n) = None"
    using hv [OF in_dirI [OF n]] nodir [OF n] file_content_None [of h] by blast
  then have "oget g (VM @ ''/'' @ n) = oget f (CVM @ ''/'' @ n)"
    unfolding c using copy_dir_effect(1) [OF d(3,1,2) _ n] nodir src by (auto split: option.split)
  then show "file_content g (VM @ ''/'' @ n) = file_content f (CVM @ ''/'' @ n)" by (simp add: file_content_def)
qed

section \<open>The node after the restart\<close>

lemma read_records_cong:
  "(\<And>c. file_content f (chunk_path type c) = file_content g (chunk_path type c)) \<Longrightarrow>
   read_records type f rs = read_records type g rs"
  by (induction rs) (simp_all add: read_record_def)

lemma chunk_path_parts: "chunk_path type c = type @ ''/'' @ (''chunk'' @ to_string c)" "CHR ''/'' \<notin> set (''chunk'' @ to_string c)"
  by (simp_all add: chunk_path_def)

lemma saved_rows:
  assumes "cp_image s t f" and "u \<in> dom (files_of s)"
  shows "read_records CP f (oget_def [] (cp_meta t) u) = Ok (row_of (files_list s u))"
proof -
  have "chunk_path CP c \<noteq> CVM" for c by (simp add: chunk_path_def)
  then have "file_content f (chunk_path CP c) = file_content (disk t) (chunk_path CP c)" for c
    using assms(1) chunk_path_in_dir [of c] by (simp add: cp_image_def)
  then have "read_records CP f (oget_def [] (cp_meta t) u) = stored_row CP u t"
    unfolding stored_row_def meta_of_def by (simp add: read_records_cong [of f CP "disk t"])
  then show ?thesis using assms by (simp add: cp_image_def saved_def)
qed

lemma finite_files: "kv_wf s \<Longrightarrow> finite (dom (files_of s))"
  using tablets_files(2) [of s] by (metis List.finite_set)

lemma held_users:
  assumes "kv_wf s" and "distinct xs" and "set xs = dom (files_of s)"
  shows "held (view_of s) = (\<Sum>u\<leftarrow>xs. msize (files_list s u))"
  using assms by (simp add: held_def sum_list_distinct_conv_sum_set)

lemma load_image:
  assumes s: "savable s" and im: "cp_image s t f" and held: "memory_used s = held (view_of s)"
    and cap: "memory_used s \<le> cap" "cap < 2 ^ 31"
  shows "\<exists>r. load_checkpointing (Suc n) (fresh cap csize f) = Ok r \<and> kv_wf r \<and> view_of r = view_of s \<and>
    virmem_meta r = virmem_meta s \<and> (\<forall>u. stored_row VM u r = stored_row VM u s) \<and> capacity r = cap \<and>
    seq_num_records r = [] \<and> oget (disk r) log_path = oget f log_path"
proof -
  let ?m = "with_metadata s t (fresh cap csize f)" and ?xs = "okeys (cp_meta t)"
  have wf: "kv_wf s" and users: "\<And>u m. files_of s u = Some m \<Longrightarrow> comma_free m \<and> m \<noteq> [] \<and> oget (virmem_meta s) u = None"
    using s by (auto simp: savable_def)
  have saved: "saved (emptied s) (dom (files_of s)) t" using im by (simp add: cp_image_def)
  have keys: "distinct ?xs" "set ?xs = dom (files_of s)"
    using saved om.ordered_keys [of "cp_meta t"] by (auto simp: saved_def meta_ok_def om.keys_dom)
  have m: "kv_wf ?m" "files_of ?m = (\<lambda>u. None)" "memory_used ?m = 0" "capacity ?m = cap" "disk ?m = f"
    "cp_meta ?m = cp_meta t" "virmem_meta ?m = virmem_meta s" "user_size ?m = user_size s"
    "seq_num_records ?m = []"
  proof -
    show "kv_wf ?m" using kv_wf_init [of cap csize] wf
      by (intro kv_wf_frame [of ?m "init_kv cap csize"]) (simp_all add: with_metadata_def fresh_def kv_wf_def)
    show "files_of ?m = (\<lambda>u. None)" by (simp add: files_of_def with_metadata_def fresh_def init_kv_def fun_eq_iff)
  qed (simp_all add: with_metadata_def fresh_def init_kv_def)
  have total: "held (view_of s) = (\<Sum>u\<leftarrow>?xs. msize (files_list s u))" by (rule held_users [OF wf keys])
  have "\<forall>u \<in> set ?xs. comma_free (files_list s u) \<and> osorted (files_list s u) \<and> files_list s u \<noteq> []"
    using users files_list_sorted [OF wf] by (auto simp: keys(2) files_list_def)
  moreover have "oget (cp_meta ?m) u \<noteq> None \<and> oget (virmem_meta ?m) u = None \<and>
      stored_row CP u ?m = Ok (row_of (files_list s u))" if u: "u \<in> set ?xs" for u
  proof -
    have d: "u \<in> dom (files_of s)" using u by (simp only: keys(2))
    moreover have "oget (cp_meta t) u \<noteq> None" using u om.keys_dom [of "cp_meta t"] by auto
    ultimately show ?thesis using saved_rows [OF im d] users by (auto simp: m stored_row_def meta_of_def)
  qed
  ultimately obtain w where w: "foldr_res (load_cp_user (Suc n)) ?xs ?m = Ok w" "kv_wf w" "quiet ?m w"
    "memory_used w = (\<Sum>u\<leftarrow>?xs. msize (files_list s u))"
    "files_of w = (\<lambda>u. if u \<in> set ?xs then Some (files_list s u) else files_of ?m u)"
    using load_users [OF m(1) keys(1), of "files_list s" n] cap held total by (auto simp: m)
  have files: "files_of w = files_of s"
    unfolding w(5) keys(2) m(2) by (auto simp: files_list_def fun_eq_iff split: option.split)
  define g where "g = (copy_dir ''checkpointing/virtual memory/'' ''virtual memory/'' \<circ> clear_dir ''virtual memory/'') f"
  define r where "r = w\<lparr>disk := g\<rparr>"
  have same: "disk w = f" "virmem_meta w = virmem_meta s" "capacity w = cap" "seq_num_records w = []"
    "\<And>u. oget_def 0 (user_size w) u = oget_def 0 (user_size s) u"
    using w(3) m by (auto simp: quiet_def same_node_def)
  have dirs: "\<forall>d \<in> {META, CP, VM, CVM}. oget f d = Some Dir" "\<forall>p. oget f p = Some Dir \<longrightarrow> p \<in> {META, CP, VM, CVM}"
    using im by (auto simp: cp_image_def)
  have "file_content g (chunk_path VM c) = file_content (disk s) (chunk_path VM c)" for c
    unfolding chunk_path_parts(1) g_def restore_vm(1) [OF dirs chunk_path_parts(2)]
    using im chunk_path_parts(2) by (simp add: cp_image_def file_content_def)
  then have "stored_row VM u r = stored_row VM u s" for u
    using same by (simp add: stored_row_def meta_of_def r_def read_records_cong [of g VM "disk s"])
  moreover have "load_checkpointing (Suc n) (fresh cap csize f) = Ok r"
    using load_metadata [OF s im, of cap csize] w(1) m(6) same(1)
    by (auto simp: rbind_eq_Ok load_checkpointing_def on_files_def r_def g_def)
  moreover have "view_of r = view_of s"
    using files w(4) held total same(5) by (simp add: view_of_def r_def fun_eq_iff)
  moreover have "oget (disk r) log_path = oget f log_path"
    using restore_vm(2) [OF dirs, of log_path] by (simp add: r_def g_def)
  ultimately show ?thesis using w(2) same by (auto simp: r_def)
qed

lemma start_dirs:
  assumes "\<forall>d \<in> {META, CP, VM}. oget f d = Some Dir"
  shows "initialization n False (fresh cap csize f) =
    rbind (load_checkpointing n (fresh cap csize f)) (replay_log n)"
proof -
  have "on_files (create_dir ''metadata'' \<circ> create_dir ''checkpointing'' \<circ> create_dir ''virtual memory'') (fresh cap csize f) =
      fresh cap csize f"
    using assms by (simp add: on_files_def fresh_def create_dir_def)
  then show ?thesis by (simp add: initialization_def Let_def)
qed

text \<open>C12: A checkpoint changes no data of the running node, and a new process on its disk holds the
  users in memory with their files, sizes and accounting, and finds the row of every evicted user as
  it was. The conditions are: the node is well formed and the memory counter is the sum of the bytes
  held; the names of users have no comma, semicolon, at sign or line feed, and the file names and
  values of the users in memory have no comma, because a row with more commas is split when it is
  read back; no user is both in memory and on disk or is without files; the rows of all users in
  memory fit into one chunk; and the directories of the node are those it creates itself.\<close>

theorem checkpoint_restart:
  assumes s: "savable s" and held: "memory_used s = held (view_of s)"
    and cap: "memory_used s \<le> cap" "cap < 2 ^ 31"
  shows "\<exists>s' r. checkpointing s = Ok s' \<and> view_of s' = view_of s \<and>
    initialization (Suc n) False (fresh cap csize (disk s')) = Ok r \<and> view_of r = view_of s \<and>
    virmem_meta r = virmem_meta s \<and> (\<forall>u. stored_row VM u r = stored_row VM u s)"
proof -
  obtain t g where t: "checkpointing s = Ok (t\<lparr>disk := g\<rparr>)" "cp_image s t g" "oget g log_path = None"
    using checkpoint_image [OF s] by blast
  obtain r where r: "load_checkpointing (Suc n) (fresh cap csize g) = Ok r" "view_of r = view_of s"
    "virmem_meta r = virmem_meta s" "\<forall>u. stored_row VM u r = stored_row VM u s" "oget (disk r) log_path = None"
    using load_image [OF s t(2) held cap, of n csize] t(3) by auto
  have "replay_log (Suc n) r = Ok r" using r(5) by (simp add: replay_log_def file_content_def)
  moreover have "\<forall>d \<in> {META, CP, VM, CVM}. oget g d = Some Dir" using t(2) by (simp add: cp_image_def)
  ultimately have "initialization (Suc n) False (fresh cap csize g) = Ok r" using r(1) by (simp add: start_dirs)
  moreover have "same_memory (emptied s) t" using t(2) by (simp add: cp_image_def saved_def)
  then have "view_of (t\<lparr>disk := g\<rparr>) = view_of s"
    using same_memory_files [of "emptied s" t] by (simp add: view_of_def same_memory_def)
  ultimately show ?thesis using t(1) r by (intro exI [of _ "t\<lparr>disk := g\<rparr>"] exI [of _ r]) simp
qed

section \<open>A crash between two checkpoints\<close>

lemma cp_image_frame:
  assumes im: "cp_image s t f" and f: "\<forall>p. p \<noteq> log_path \<longrightarrow> oget g p = oget f p" "oget g log_path \<noteq> Some Dir"
  shows "cp_image s t g"
proof -
  have c: "p \<noteq> log_path \<Longrightarrow> file_content g p = file_content f p" for p using f(1) by (simp add: file_content_def)
  have n: "\<not> in_dir CP log_path" by simp
  have cp: "in_dir CP q \<Longrightarrow> file_content g q = file_content f q" for q
    using c [of q] n by (cases "q = log_path") simp_all
  have l: "VM @ ''/'' @ n \<noteq> log_path" "CVM @ ''/'' @ n \<noteq> log_path"
    "''metadata/cp_meta'' \<noteq> log_path" "''metadata/virmem_meta'' \<noteq> log_path" "''metadata/chunk_info'' \<noteq> log_path"
    "''metadata/user_size'' \<noteq> log_path" "META \<noteq> log_path" "CP \<noteq> log_path" "VM \<noteq> log_path" "CVM \<noteq> log_path" for n
    by (simp_all add: log_path_def)
  have "p \<in> {META, CP, VM, CVM}" if "oget g p = Some Dir" for p
    using that f im by (cases "p = log_path") (auto simp: cp_image_def)
  moreover have "\<forall>n. CHR ''/'' \<notin> set n \<longrightarrow> oget g (VM @ ''/'' @ n) = oget (disk s) (VM @ ''/'' @ n) \<and>
      oget g (CVM @ ''/'' @ n) = oget (disk s) (VM @ ''/'' @ n)"
    using im f(1) l(1,2) by (simp add: cp_image_def)
  ultimately show ?thesis
    using im cp l f(1) unfolding cp_image_def by (simp add: c)
qed

text \<open>The log can be created unless a directory has its name.\<close>

lemma log_creatable: "oget f log_path \<noteq> Some Dir \<Longrightarrow> can_create f log_path"
  by (auto simp: can_create_def log_path_def dirname_def dir_exists_def strip_slash_def
      split: option.split fentry.split)

text \<open>A start that loads a node whose log is a sequence of request lines executes these requests.\<close>

lemma restart_replays:
  assumes "\<forall>d \<in> {META, CP, VM}. oget f d = Some Dir" and "load_checkpointing (Suc n) (fresh cap csize f) = Ok r0"
    and "serving 0 r0" "commands_within (capacity r0) cs (view_of r0)"
    and "log_of r0 = concat (map wire cs)" "\<And>c. c \<in> set cs \<Longrightarrow> loggable c"
  shows "\<exists>r. initialization (Suc n) False (fresh cap csize f) = Ok r \<and> same_node r0 r \<and>
    view_of r = fold (view_step (capacity r0)) cs (view_of r0)"
proof -
  obtain r where r: "run_requests (Suc n) (map (\<lambda>c. (- 1, 0, executed c)) cs) r0 = Ok r" "same_node r0 r"
    "view_of r = fold (view_step (capacity r0)) cs (view_of r0)"
    using replay_requests [OF assms(3,4)] by blast
  then show ?thesis
    using assms(2) replay_log_of [OF assms(6,5), of "Suc n"] by (simp add: start_dirs [OF assms(1)])
qed

text \<open>A node after a checkpoint serves like the node before it, on an empty log.\<close>

lemma checkpointed_serving:
  assumes srv: "serving k s" and im: "cp_image s t0 g" and log: "oget g log_path = None"
    and s': "s' = t0\<lparr>disk := g\<rparr>"
  shows "view_of s' = view_of s \<and> capacity s' = capacity s \<and> serving k s' \<and> log_of s' = []"
proof -
  have mem: "same_memory (emptied s) t0" using im by (simp add: cp_image_def saved_def)
  have v: "view_of s' = view_of s"
    using same_memory_files [OF mem] mem by (simp add: view_of_def same_memory_def s')
  have wf: "kv_wf s'"
    using mem srv by (intro kv_wf_frame [of s' s]) (simp_all add: same_memory_def s' serving_def kv_wf_def)
  have "capacity s' = capacity s" using mem by (simp add: same_memory_def s')
  moreover have "serving k s'"
    using srv mem wf v log log_creatable [of g]
    by (simp add: serving_def s' same_memory_def next_seq_def)
  moreover have "log_of s' = []" using log by (simp add: log_of_def s' file_content_def)
  ultimately show ?thesis using v by simp
qed

text \<open>C5: A node takes a checkpoint, serves any sequence of requests, and stops: a new process on the
  disk it leaves behind loads the checkpoint, replays the log, and holds exactly the data and the
  accounting the node had. The conditions are: the node is well formed; no user is on disk at the
  checkpoint and none has to be evicted later (the data fits); the memory counter is exact at the
  checkpoint; the names of users have no comma, semicolon, at sign or line feed, and the names of
  files and the values have no comma, because a row with more commas is split when it is read back;
  no user is without files, all rows fit into one chunk, and the directories of the node are those
  it creates itself; the requests after it have no zero byte and no comma in a field before the
  last, and the write requests among them are lines that the replay executes again (one line each,
  no rename).\<close>

theorem crash_recovery:
  assumes s: "savable s" and srv: "serving (length rs) s" and held: "memory_used s = held (view_of s)"
    and w: "commands_within (capacity s) (map snd rs) (view_of s)"
    and lines: "\<And>c. c \<in> snd ` set rs \<Longrightarrow> writes c \<Longrightarrow> loggable c"
  shows "\<exists>s' t r. checkpointing s = Ok s' \<and> serve (Suc n) rs s' = Ok t \<and>
    initialization (Suc n) False (fresh (capacity s) csize (disk t)) = Ok r \<and> view_of r = view_of t"
proof -
  let ?cs = "filter writes (map snd rs)"
  obtain t0 g where t0: "checkpointing s = Ok (t0\<lparr>disk := g\<rparr>)" "cp_image s t0 g" "oget g log_path = None"
    using checkpoint_image [OF s] by blast
  define s' where "s' = t0\<lparr>disk := g\<rparr>"
  have s': "view_of s' = view_of s" "capacity s' = capacity s" "serving (length rs) s'" "log_of s' = []"
    using checkpointed_serving [OF srv t0(2,3) s'_def] by simp_all
  have bal: "balanced (capacity s) (view_of s)" "capacity s < 2 ^ 31" "virmem_meta s = []"
    using srv by (simp_all add: serving_def)
  obtain t where t: "serve (Suc n) rs s' = Ok t" "serving 0 t" "only_log s' t"
    "view_of t = fold (view_step (capacity s)) (map snd rs) (view_of s)" "log_of t = concat (map wire ?cs)"
    using serve_requests [of rs s' n] w s' by auto
  have nodir: "oget (disk t) log_path \<noteq> Some Dir" using t(2) by (auto simp: serving_def can_create_def)
  have im: "cp_image s t0 (disk t)"
    using t(3) by (intro cp_image_frame [OF t0(2) _ nodir]) (simp add: only_log_def s'_def)
  have cap: "memory_used s \<le> capacity s" using bal(1) by (simp add: balanced_def)
  obtain r0 where r0: "load_checkpointing (Suc n) (fresh (capacity s) csize (disk t)) = Ok r0" "kv_wf r0"
    "view_of r0 = view_of s" "virmem_meta r0 = virmem_meta s" "capacity r0 = capacity s"
    "seq_num_records r0 = []" "oget (disk r0) log_path = oget (disk t) log_path"
    using load_image [OF s im held cap bal(2), of n csize] by blast
  have "serving 0 r0"
    using r0 bal log_creatable [of "disk r0"] nodir by (simp add: serving_def next_seq_def oget_def_def)
  moreover have "commands_within (capacity r0) ?cs (view_of r0)" using within_writes [OF w] r0 by simp
  moreover have "log_of r0 = concat (map wire ?cs)" using t(5) r0(7) by (simp add: log_of_def file_content_def)
  moreover have "\<forall>d \<in> {META, CP, VM}. oget (disk t) d = Some Dir" using im by (simp add: cp_image_def)
  ultimately obtain r where "initialization (Suc n) False (fresh (capacity s) csize (disk t)) = Ok r"
    "view_of r = fold (view_step (capacity s)) ?cs (view_of s)"
    using restart_replays [OF _ r0(1), of ?cs] lines r0(3,5) by auto
  then show ?thesis using t0(1) t(1,4) by (auto simp: s'_def fold_writes)
qed

end
