(* ===== verification/KV_Span.thy ===== *)
theory KV_Span
  imports KV_Store
begin

text \<open>
  Two ways in which a row is not what it was when it comes back from the disk: it did not fit into
  the current chunk, or one of its values has a comma.
\<close>

section \<open>The number of chunks\<close>

lemma f32_exact: "n < 2 ^ 24 \<Longrightarrow> f32_round n = n"
  by (simp add: f32_round_def f32_exp.simps [of n])

lemma f32_exp_big: "2 ^ 23 \<le> n \<Longrightarrow> 2 ^ 23 \<le> n div 2 ^ f32_exp n"
proof (induction n rule: f32_exp.induct)
  case (1 n)
  show ?case
  proof (cases "n < 2 ^ 24")
    case True
    then show ?thesis using 1 by (simp add: f32_exp.simps [of n])
  next
    case False
    then have "2 ^ 23 \<le> n div 2" by simp
    then have "2 ^ 23 \<le> n div 2 div 2 ^ f32_exp (n div 2)" using 1 False by blast
    then show ?thesis using False by (subst f32_exp.simps) (simp add: div_mult2_eq)
  qed
qed

lemma f32_round_big:
  assumes "2 ^ 24 \<le> n"
  shows "2 ^ 24 \<le> f32_round n"
proof -
  define k where "k = f32_exp n"
  define q where "q = n div 2 ^ k"
  have "2 ^ 23 \<le> q" unfolding q_def k_def using assms by (intro f32_exp_big) simp
  moreover have "k = Suc (f32_exp (n div 2))" unfolding k_def using assms by (subst f32_exp.simps) simp
  then have "2 \<le> (2 :: nat) ^ k" by simp
  ultimately have "2 ^ 23 * 2 \<le> q * 2 ^ k" by (intro mult_le_mono) simp_all
  moreover have "q * 2 ^ k \<le> f32_round n" by (simp add: f32_round_def Let_def k_def q_def)
  ultimately show ?thesis by simp
qed

lemma two_chunks:
  assumes "0 < r" and "r \<le> chunk_size s" and "r < 2 ^ 24" and "int (length row) - left = r"
  shows "chunk_needed s row left = 2"
proof -
  have "to_u64 r = r" using assms(1,3) by (simp add: to_u64_id)
  then have num: "int (f32_round (nat (to_u64 (int (length row) - left)))) = r"
    using assms by (simp add: f32_exact)
  have "r \<le> int (f32_round (nat (chunk_size s)))"
  proof (cases "nat (chunk_size s) < 2 ^ 24")
    case True
    then show ?thesis using assms by (simp add: f32_exact)
  next
    case False
    then have "2 ^ 24 \<le> f32_round (nat (chunk_size s))" by (intro f32_round_big) simp
    then have "int (2 ^ 24) \<le> int (f32_round (nat (chunk_size s)))" by (simp only: of_nat_le_iff)
    then show ?thesis using assms(3) by simp
  qed
  then have "(- r) div int (f32_round (nat (chunk_size s))) = - 1"
    using assms(1) by (intro int_div_pos_eq [where r = "int (f32_round (nat (chunk_size s))) - r"]) simp_all
  then show ?thesis by (simp add: chunk_needed_def num ceil_div_def)
qed

section \<open>A row over the end of a chunk\<close>

lemma update_metadata_ok:
  assumes type: "type \<in> {''virtual memory'', ''checkpointing''}" and "oget (chunk_info s) type = Some [c, b]"
    and "in_i32 (b + n)"
  shows "update_metadata type user str n s =
    Ok (with_meta type (oupd user (oget_def [] (meta_of type s) user @ [[c, b, n]]) (meta_of type s)) s
      \<lparr>disk := write_file (chunk_path type c) str (disk s),
       chunk_info := oupd type [c, b + n] (chunk_info s)\<rparr>)"
  using assms by (auto simp: update_metadata_def info_at_def oget_def_def add_info_def set_info_def
      with_meta_def meta_of_def)

text \<open>
  The counters are not reset for the next chunk: the record of the second part points behind its
  end, and what is read back are zero bytes.
\<close>

text \<open>The files, the counters and the positions after such a row has been written.\<close>

lemma row_spans_chunks:
  assumes ok: "chunks_ok type s" and info: "oget (chunk_info s) type = Some [c, b]"
    and left: "left = chunk_size s - b" "0 \<le> left" "left < int (length row)"
    and rest: "r = int (length row) - left" "r \<le> chunk_size s" "r < 2 ^ 24" "chunk_size s + r < 2 ^ 31" "in_i32 (c + 1)"
    and empty: "can_create (disk s) (chunk_path type (c + 1))" "file_content (disk s) (chunk_path type (c + 1)) = None"
  shows "\<exists>s2. write_to_chunk u row type s = Ok s2 \<and> oget (chunk_info s2) type = Some [c + 1, chunk_size s + r] \<and>
    oget_def [] (meta_of type s2) u = [[c, b, left], [c + 1, chunk_size s, r]] \<and>
    file_content (disk s2) (chunk_path type c) = Some (chunk_file type c s @ take (nat left) row) \<and>
    file_content (disk s2) (chunk_path type (c + 1)) = Some (drop (nat left) row)"
proof -
  let ?n = "int (length row)"
  have type: "type \<in> {''virtual memory'', ''checkpointing''}" and b: "0 \<le> b" "b = int (length (chunk_file type c s))"
    and cc: "can_create (disk s) (chunk_path type c)"
    using ok info by (auto simp: chunks_ok_def)
  have n: "to_u64 left = left" "to_i32 left = left" "to_i32 r = r" "0 < r" "in_i32 (b + left)" "in_i32 (chunk_size s + r)"
    "to_u64 (?n - left) = r" "in_i32 (c + 1)"
    using left rest b by (auto simp: to_u64_id to_i32_id in_i32_def)
  define s0 where "s0 = clear_metadata type u s"
  have s0: "oget (chunk_info s0) type = Some [c, b]" "chunk_size s0 = chunk_size s" "disk s0 = disk s"
    "oget_def [] (meta_of type s0) u = []"
    using type info by (auto simp: s0_def clear_metadata_def meta_of_def)
  define s1 where "s1 = with_meta type (oupd u [[c, b, left]] (meta_of type s0)) s0
      \<lparr>disk := write_file (chunk_path type c) (take (nat left) row) (disk s0),
       chunk_info := oupd type [c, b + left] (chunk_info s0)\<rparr>"
  have 1: "update_metadata type u (take (nat left) row) left s0 = Ok s1"
    using update_metadata_ok [OF type s0(1) n(5)] s0(4) by (simp add: s1_def)
  define t where "t = set_info type 0 (c + 1) s1"
  have t: "add_info type 0 1 s1 = Ok t" "oget (chunk_info t) type = Some [c + 1, chunk_size s]"
    using n(8) left(1) by (simp_all add: add_info_def info_at_def s1_def t_def set_info_def oget_def_def)
  have t2: "oget_def [] (meta_of type t) u = [[c, b, left]]" "disk t = disk s1"
    by (simp_all add: t_def set_info_def s1_def meta_of_def with_meta_def)
  define s2 where "s2 = with_meta type (oupd u [[c, b, left], [c + 1, chunk_size s, r]] (meta_of type t)) t
      \<lparr>disk := write_file (chunk_path type (c + 1)) (drop (nat left) row) (disk t),
       chunk_info := oupd type [c + 1, chunk_size s + r] (chunk_info t)\<rparr>"
  have 2: "update_metadata type u (drop (nat left) row) r t = Ok s2"
    using update_metadata_ok [OF type t(2) n(6)] t2 by (simp add: s2_def)
  have need: "chunk_needed s0 row left = 2"
    using rest left by (intro two_chunks [OF n(4)]) (simp_all add: s0)
  have p: "write_piece u row type left 2 0 (0, s0) = Ok (left, s1)"
    using 1 n(1) by (simp add: write_piece_def substr_def to_u64_def)
  have q: "write_piece u row type left 2 (Suc 0) (left, s1) = Ok (left, s2)"
  proof -
    have "?n - left = r" "to_u64 r = r" "\<not> length row < nat left" "length row - nat left \<le> nat r"
      using left(2,3) n(7) rest(1) by simp_all
    then show ?thesis using 2 t(1) n(1,3) by (simp add: write_piece_def substr_def Let_def)
  qed
  have run: "write_to_chunk u row type s = Ok s2"
    using s0 n left need p q
    by (simp add: write_to_chunk_def s0_def [symmetric] info_at_def oget_def_def upt_rec numeral_2_eq_2 Let_def)
  have d1: "file_content (disk s1) (chunk_path type c) = Some (chunk_file type c s @ take (nat left) row)"
    using content_write_file [OF cc, of "take (nat left) row" "chunk_path type c"] by (simp add: s1_def s0 chunk_file_def)
  have "can_create (disk t) (chunk_path type (c + 1))" "file_content (disk t) (chunk_path type (c + 1)) = None"
    using empty by (simp_all add: t2 s1_def s0 file_content_def write_file_other)
  then have d2: "file_content (disk s2) q = (if q = chunk_path type (c + 1) then Some (drop (nat left) row)
      else file_content (disk s1) q)" for q
    by (simp add: s2_def content_write_file t2)
  have m: "oget_def [] (meta_of type s2) u = [[c, b, left], [c + 1, chunk_size s, r]]"
    by (simp add: s2_def meta_of_def with_meta_def)
  show ?thesis using run d1 d2 m by (intro exI [of _ s2]) (simp add: s2_def)
qed

text \<open>C37: A row that does not fit into the current chunk is written completely, but the counters are
  not reset for the next chunk: the position recorded for its second part lies behind the end of
  that file, so that part is read back as zero bytes.\<close>

theorem row_over_chunk_end:
  assumes ok: "chunks_ok type s" and info: "oget (chunk_info s) type = Some [c, b]"
    and left: "left = chunk_size s - b" "0 \<le> left" "left < int (length row)"
    and rest: "r = int (length row) - left" "r \<le> chunk_size s" "r < 2 ^ 24" "chunk_size s + r < 2 ^ 31" "in_i32 (c + 1)"
    and empty: "can_create (disk s) (chunk_path type (c + 1))" "file_content (disk s) (chunk_path type (c + 1)) = None"
  shows "\<exists>s'. write_to_chunk u row type s = Ok s' \<and>
    stored_row type u s' = Ok (take (nat left) row @ replicate (nat r) NUL) \<and>
    file_content (disk s') (chunk_path type (c + 1)) = Some (drop (nat left) row) \<and>
    oget (chunk_info s') type = Some [c + 1, chunk_size s + r]"
proof -
  have b: "0 \<le> b" "b = int (length (chunk_file type c s))" and n: "to_i32 left = left" "0 < r"
    using ok info left rest by (auto simp: chunks_ok_def to_i32_id in_i32_def)
  obtain s2 where run: "write_to_chunk u row type s = Ok s2" "oget (chunk_info s2) type = Some [c + 1, chunk_size s + r]"
    "oget_def [] (meta_of type s2) u = [[c, b, left], [c + 1, chunk_size s, r]]"
    "file_content (disk s2) (chunk_path type c) = Some (chunk_file type c s @ take (nat left) row)"
    "file_content (disk s2) (chunk_path type (c + 1)) = Some (drop (nat left) row)"
    using row_spans_chunks [OF assms, of u] by blast
  have "read_at (chunk_file type c s @ take (nat left) row) b left = take (nat left) row"
    using b left by (simp add: read_at_def)
  moreover have "length row - nat left \<le> nat (chunk_size s)" using left rest by linarith
  then have "read_at (drop (nat left) row) (chunk_size s) r = replicate (nat r) NUL"
    using left b by (simp add: read_at_def)
  ultimately have "stored_row type u s2 = Ok (take (nat left) row @ replicate (nat r) NUL)"
    using left(2) n(2) by (simp add: stored_row_def run read_record_def)
  then show ?thesis using run by blast
qed

end
