(* ===== verification/Restart_Examples.thy ===== *)
theory Restart_Examples
  imports KV_Restart KV_Span KV_Examples
begin

text \<open>
  A node with two users takes a checkpoint, serves a request, stops, and is started again.
\<close>

definition dirs :: fsys where
  "dirs = [(CP, Dir), (META, Dir), (VM, Dir)]"

definition two_users :: kv where
  "two_users = pair_node\<lparr>disk := dirs, chunk_info := [(CP, [0, 0]), (VM, [0, 0])]\<rparr>"

lemma two_users_simps [simp]:
  "capacity two_users = 10" "memory_used two_users = 4" "virmem_meta two_users = []"
  "user_size two_users = [(''ann'', 2), (''bob'', 2)]" "disk two_users = dirs"
  "chunk_info two_users = [(CP, [0, 0]), (VM, [0, 0])]" "chunk_size two_users = 100" "seq_num_records two_users = []"
  by (simp_all add: two_users_def pair_node_def small_node_def init_kv_def)

lemma two_users_wf: "kv_wf two_users"
  using pair_node_wf by (simp add: two_users_def kv_wf_def nodes_ok_def)

lemma two_users_files:
  "files_of two_users = [''ann'' \<mapsto> [(''f'', ''aa'')], ''bob'' \<mapsto> [(''g'', ''bb'')]]"
  by (auto simp: two_users_def files_of_def pair_node_def contents_def tail_addr_def head_addr_def fun_eq_iff)

lemma two_users_dom: "dom (files_of two_users) = {''ann'', ''bob''}"
  by (auto simp: two_users_files)

lemma two_users_lists:
  "files_list two_users ''ann'' = [(''f'', ''aa'')]" "files_list two_users ''bob'' = [(''g'', ''bb'')]"
  by (simp_all add: files_list_def two_users_files)

lemma two_users_held: "held (view_of two_users) = 4"
  by (simp add: held_def two_users_dom two_users_lists)

lemma dirs_dirs_ok: "dirs_ok dirs"
  by (auto simp: dirs_ok_def dirs_def file_content_def)

lemma two_users_savable: "savable two_users"
proof -
  have "can_create dirs (chunk_path VM 0)" "file_content dirs (chunk_path VM 0) = None" by code_simp+
  then have "chunks_ok VM two_users" by (simp add: chunks_ok_def chunk_file_def oget_def_def meta_of_def)
  then show ?thesis
    using two_users_wf dirs_dirs_ok
    by (auto simp: savable_def meta_ok_def two_users_dom two_users_lists row_of_def name_ok_def in_i32_def
        comma_free_def oget_def_def two_users_files split: if_splits)
qed

lemma two_users_serving: "serving 1 two_users"
proof -
  have "can_create dirs log_path" by code_simp
  moreover have "{u. u \<noteq> ''bob'' \<longrightarrow> u = ''ann''} = {''ann'', ''bob''}" by auto
  then have "balanced 10 (view_of two_users)"
    by (auto simp: balanced_def files_list_def two_users_files oget_def_def osorted_Cons)
  ultimately show ?thesis using two_users_wf by (simp add: serving_def next_seq_def oget_def_def)
qed

theorem checkpoint_restart_witness:
  "\<exists>s r. checkpointing two_users = Ok s \<and> initialization 1 False (fresh 10 100 (disk s)) = Ok r \<and>
    files_of r ''ann'' = Some [(''f'', ''aa'')] \<and> memory_used r = 4"
proof -
  obtain s r where r: "checkpointing two_users = Ok s" "initialization (Suc 0) False (fresh 10 100 (disk s)) = Ok r"
    "view_of r = view_of two_users"
    using checkpoint_restart [OF two_users_savable, of 10 0 100] two_users_held by auto
  have "files_of r = files_of two_users" "memory_used r = memory_used two_users"
    using r(3) by (simp_all add: view_of_def)
  then show ?thesis using r by (auto simp: two_users_files)
qed

theorem crash_recovery_witness:
  "\<exists>s t r. checkpointing two_users = Ok s \<and> serve 1 [(5, Put ''cat'' ''h'' (''ab'' @ crlf))] s = Ok t \<and>
    initialization 1 False (fresh 10 100 (disk t)) = Ok r \<and> view_of r = view_of t"
proof -
  let ?rs = "[(5, Put ''cat'' ''h'' (''ab'' @ crlf))]"
  have "commands_within (capacity two_users) (map snd ?rs) (view_of two_users)"
    by (simp add: sane_def oget_def_def)
  moreover have "loggable c" if "c \<in> snd ` set ?rs" "writes c" for c
    using that by (auto simp: sane_def)
  ultimately show ?thesis
    using crash_recovery [OF two_users_savable, of ?rs 0 100] two_users_serving two_users_held by simp
qed

section \<open>A row that does not fit\<close>

theorem row_over_chunk_end_witness:
  "\<exists>s. write_to_chunk ''ann'' (replicate 103 CHR ''x'') VM small_node = Ok s \<and>
    stored_row VM ''ann'' s = Ok (replicate 100 CHR ''x'' @ replicate 3 NUL)"
proof -
  have "can_create [(VM, Dir)] (chunk_path VM 1)" "file_content [(VM, Dir)] (chunk_path VM 1) = None" by code_simp+
  moreover have "chunks_ok VM small_node"
    by (simp add: chunks_ok_def chunk_file_def oget_def_def meta_of_def disk_room)
  moreover have "chunk_size small_node = 100" by (simp add: small_node_def init_kv_def)
  ultimately show ?thesis
    using row_over_chunk_end [of VM small_node 0 0 100 "replicate 103 CHR ''x''" 3 "''ann''"]
    by (auto simp: in_i32_def)
qed

end
