(* ===== verification/KV_Safe.thy ===== *)
theory KV_Safe
  imports KV_Lru_Spec KV_Server Steps
begin

text \<open>
  The representation invariant as a property of every run: whatever bytes arrive, in whatever order,
  with or without eviction, an operation that returns leaves a well-formed node behind. No request
  has to be sane, nothing has to fit.

  \<^item> \<open>yields P r\<close> is partial correctness: a result, when there is one, satisfies \<open>P\<close>. The rules
    \<open>yields_intros\<close> take the steps of an operation apart as the code has them.
\<close>

section \<open>Partial correctness\<close>

definition yields :: "('a \<Rightarrow> bool) \<Rightarrow> 'a res \<Rightarrow> bool" where
  "yields P r \<longleftrightarrow> (\<forall>x. r = Ok x \<longrightarrow> P x)"

named_theorems yields_intros

lemma yields_simps [simp]: "yields P (Ok x) \<longleftrightarrow> P x" "yields P (Fail e)" "yields (\<lambda>_. True) r"
  by (simp_all add: yields_def)

lemma yieldsD: "yields P r \<Longrightarrow> r = Ok x \<Longrightarrow> P x"
  by (simp add: yields_def)

lemma yields_rbind: "yields P m \<Longrightarrow> (\<And>x. P x \<Longrightarrow> yields Q (f x)) \<Longrightarrow> yields Q (rbind m f)"
  by (cases m) simp_all

text \<open>A step that only reads.\<close>

lemma yields_rbind_read: "(\<And>x. m = Ok x \<Longrightarrow> yields Q (f x)) \<Longrightarrow> yields Q (rbind m f)"
  by (cases m) simp_all

lemma yields_foldr: "I s \<Longrightarrow> (\<And>x s. x \<in> set xs \<Longrightarrow> I s \<Longrightarrow> yields I (f x s)) \<Longrightarrow> yields I (foldr_res f xs s)"
proof (induction xs arbitrary: s)
  case (Cons x xs)
  have "yields I (f x s)" using Cons.prems by simp
  then show ?case by (auto intro!: yields_rbind Cons.IH Cons.prems(2))
qed simp

text \<open>Reads are told from steps by the type of what they return.\<close>

lemmas yields_reads =
  yields_rbind_read [of "m :: heap res" for m] yields_rbind_read [of "m :: node res" for m]
  yields_rbind_read [of "m :: nat res" for m] yields_rbind_read [of "m :: int res" for m]
  yields_rbind_read [of "m :: string res" for m] yields_rbind_read [of "m :: int list res" for m]

lemma yields_if: "(b \<Longrightarrow> yields P x) \<Longrightarrow> (\<not> b \<Longrightarrow> yields P y) \<Longrightarrow> yields P (if b then x else y)"
  by simp

lemma yields_option:
  "(r = None \<Longrightarrow> yields P x) \<Longrightarrow> (\<And>v. r = Some v \<Longrightarrow> yields P (f v)) \<Longrightarrow>
   yields P (case r of None \<Rightarrow> x | Some v \<Rightarrow> f v)"
  by (cases r) simp_all

lemma yields_pair: "yields P (f (fst p) (snd p)) \<Longrightarrow> yields P (case p of (x, y) \<Rightarrow> f x y)"
  by (cases p) simp

lemma yields_Ok: "P x \<Longrightarrow> yields P (Ok x)"
  by simp

abbreviation wf_snd :: "'a \<times> kv \<Rightarrow> bool" where
  "wf_snd p \<equiv> kv_wf (snd p)"

lemma yields_rbind_kv: "yields kv_wf m \<Longrightarrow> (\<And>x. kv_wf x \<Longrightarrow> yields Q (f x)) \<Longrightarrow> yields Q (rbind m f)"
  by (rule yields_rbind)

lemma yields_rbind_snd: "yields wf_snd m \<Longrightarrow> (\<And>x. wf_snd x \<Longrightarrow> yields Q (f x)) \<Longrightarrow> yields Q (rbind m f)"
  by (rule yields_rbind)

lemmas yields_steps = yields_if yields_option yields_pair yields_Ok yields_reads yields_rbind_kv yields_rbind_snd

text \<open>The fields the invariant does not read.\<close>

lemma kv_wf_fields [simp]:
  "kv_wf (s\<lparr>virmem_meta := vm\<rparr>) = kv_wf s" "kv_wf (s\<lparr>cp_meta := cm\<rparr>) = kv_wf s"
  "kv_wf (s\<lparr>chunk_info := ci\<rparr>) = kv_wf s" "kv_wf (s\<lparr>seq_num_records := sr\<rparr>) = kv_wf s"
  "kv_wf (s\<lparr>primary_holdback := ph\<rparr>) = kv_wf s" "kv_wf (s\<lparr>secondary_fd := fd\<rparr>) = kv_wf s"
  "kv_wf (s\<lparr>is_primary := b\<rparr>) = kv_wf s"
  by (simp_all add: kv_wf_def nodes_ok_def)

lemma kv_wf_set_info [simp]: "kv_wf (set_info type i n s) = kv_wf s"
  by (simp add: set_info_def)

lemma kv_wf_clear [simp]: "kv_wf (clear_metadata type u s) = kv_wf s"
  by (simp add: clear_metadata_def Let_def)

section \<open>Rows\<close>

text \<open>Writing a row changes no field of the memory.\<close>

definition same_heap :: "kv \<Rightarrow> kv \<Rightarrow> bool" where
  "same_heap s t \<longleftrightarrow> heap t = heap s \<and> tablets t = tablets s \<and> next_addr t = next_addr s \<and>
     user_size t = user_size s \<and> memory_used t = memory_used s"

lemma same_heap_wf: "same_heap s t \<Longrightarrow> kv_wf s \<Longrightarrow> kv_wf t"
  by (rule kv_wf_frame) (auto simp: same_heap_def kv_wf_def)

lemma add_info_same: "yields (same_heap s) (add_info type i d s)"
  by (auto simp: add_info_def set_info_def same_heap_def i32_add_def intro!: yields_rbind_read)

lemma same_heap_trans: "same_heap s t \<Longrightarrow> same_heap t w \<Longrightarrow> same_heap s w"
  by (simp add: same_heap_def)

lemma yields_same: "same_heap s t \<Longrightarrow> yields (same_heap t) r \<Longrightarrow> yields (same_heap s) r"
  by (auto simp: yields_def intro: same_heap_trans)

lemma update_metadata_same: "yields (same_heap s) (update_metadata type u str n s)"
  unfolding update_metadata_def Let_def
  by (intro yields_rbind_read yields_same [OF _ add_info_same]) (simp add: same_heap_def)

lemma write_piece_same:
  assumes "same_heap s (snd st)"
  shows "yields (\<lambda>p. same_heap s (snd p)) (write_piece u row type left needed i st)"
proof -
  have upd: "yields (\<lambda>p. same_heap s (snd p))
      (rbind (update_metadata type u r n t) (\<lambda>w. Ok (k w, w)))" if "same_heap s t" for r n t k
    using yields_same [OF that update_metadata_same] by (auto simp: yields_def rbind_eq_Ok)
  show ?thesis
    unfolding write_piece_def Let_def split_beta
    by (intro yields_if yields_reads upd [OF assms] yields_rbind [OF yields_same [OF assms add_info_same]])
      (rule upd; assumption)+
qed

lemma write_to_chunk_same: "yields (same_heap s) (write_to_chunk u row type s)"
proof -
  define t where "t = clear_metadata type u s"
  have t: "same_heap s t" by (simp add: t_def clear_metadata_def same_heap_def Let_def)
  have loop: "yields (same_heap s) (rbind (foldr_res (write_piece u row type left needed) xs (0, t)) (\<lambda>st. Ok (snd st)))"
    for left needed xs
  proof (rule yields_rbind)
    show "yields (\<lambda>p. same_heap s (snd p)) (foldr_res (write_piece u row type left needed) xs (0, t))"
      using t by (intro yields_foldr) (simp_all add: write_piece_same)
  qed simp
  show ?thesis
    unfolding write_to_chunk_def Let_def t_def [symmetric]
    using yields_same [OF t update_metadata_same] loop by (auto intro!: yields_rbind_read)
qed

lemma write_to_chunk_wf [yields_intros]: "kv_wf s \<Longrightarrow> yields kv_wf (write_to_chunk u row type s)"
  using write_to_chunk_same [of s u row type] by (auto simp: yields_def intro: same_heap_wf)

section \<open>The cache\<close>

lemma update_user_wf [yields_intros]:
  assumes wf: "kv_wf s" and f: "\<And>m. osorted m \<Longrightarrow> osorted (f m)"
  shows "yields kv_wf (update_user f user s)"
proof (cases "oget (tablets s) user")
  case None
  then show ?thesis by (simp add: update_user_def)
next
  case (Some a)
  obtain m where m: "files_of s user = Some m" "osorted m" by (rule kv_wf_node [OF wf Some]) blast
  from update_user_ok [of s user m f, OF wf m(1)] f [OF m(2)] show ?thesis by auto
qed

lemma insert_user_wf [yields_intros]:
  "kv_wf s \<Longrightarrow> oget (tablets s) user = None \<Longrightarrow> yields kv_wf (insert_user user fn v s)"
  using insert_user_ok [of s user fn v] by (auto simp: Let_def)

lemma set_user_files_wf [yields_intros]:
  assumes wf: "kv_wf s" and "osorted m"
  shows "yields kv_wf (set_user_files user m s)"
proof (cases "oget (tablets s) user")
  case None
  then show ?thesis by (simp add: set_user_files_def)
next
  case (Some a)
  then have "files_of s user \<noteq> None" by (rule kv_wf_node [OF wf]) blast
  from set_user_files_ok [OF wf this assms(2)] show ?thesis by auto
qed

lemma user_files_sorted: "kv_wf s \<Longrightarrow> yields osorted (user_files user s)"
proof (cases "oget (tablets s) user")
  case (Some a)
  assume wf: "kv_wf s"
  show ?thesis by (rule kv_wf_node [OF wf Some]) (simp add: user_files_def Some)
qed (simp add: user_files_def)

lemma touch_wf:
  assumes wf: "kv_wf s" and a: "oget (tablets s) user = Some a"
  shows "yields (\<lambda>h. kv_wf (s\<lparr>heap := h\<rparr>)) (rbind (unlink (Some a) (heap s)) (move_to_tail (Some a)))"
proof -
  obtain n where n: "heap s a = Some n" "a \<noteq> head_addr" "a \<noteq> tail_addr" by (rule kv_wf_node [OF wf a])
  then obtain h1 h where "unlink (Some a) (heap s) = Ok h1" "move_to_tail (Some a) h1 = Ok h" "links_ok h"
    "contents h = contents (heap s)"
    using links_touch [of "heap s" a] wf by (auto simp: kv_wf_def)
  then show ?thesis using kv_wf_heap [OF wf] by simp
qed

lemma touch_get_wf:
  assumes "kv_wf s"
  shows "yields wf_snd (rbind (of_option NullDeref (oget (tablets s) user)) (\<lambda>a.
        rbind (unlink (Some a) (heap s)) (\<lambda>h. rbind (move_to_tail (Some a) h) (\<lambda>h.
        rbind (load (heap (s\<lparr>heap := h\<rparr>)) (Some a)) (\<lambda>n.
        case oget (nvalue n) fn of
          None \<Rightarrow> Ok (None, send_msg fd msg_no_file (s\<lparr>heap := h\<rparr>)) | Some v \<Rightarrow> Ok (Some v, s\<lparr>heap := h\<rparr>))))))"
proof (cases "oget (tablets s) user")
  case (Some a)
  from touch_wf [OF assms Some] Some show ?thesis
    by (auto simp: yields_def rbind_eq_Ok split: option.splits)
qed simp

lemma get_helper_wf [yields_intros]:
  assumes "kv_wf s" and "\<And>s. kv_wf s \<Longrightarrow> yields kv_wf (fetch user s)"
  shows "yields wf_snd (get_helper fetch user fn fd s)"
  unfolding get_helper_def Let_def
  by (intro yields_if yields_Ok yields_rbind_kv touch_get_wf assms) (simp_all add: assms)

text \<open>Eviction takes the node after \<open>head\<close> out of the list, whichever it is.\<close>

lemma relink_head:
  assumes l: "links_ok h" and n1: "set_next (Some head_addr) p h = Ok h1"
    and n2: "set_prev p (Some head_addr) h1 = Ok h'"
  shows "links_ok h' \<and> contents h' = contents h"
proof -
  obtain hd where hd: "h head_addr = Some hd" "h1 = h(head_addr \<mapsto> hd\<lparr>nnext := p\<rparr>)"
    using n1 l by (auto simp: links_but_def set_next_def)
  obtain b nb where b: "p = Some b" "h1 b = Some nb" "h' = h1(b \<mapsto> nb\<lparr>nprev := Some head_addr\<rparr>)"
    using n2 by (cases p; cases "h1 (the p)") (auto simp: set_prev_def store_def of_option_def)
  have ex: "h b \<noteq> None" using b(2) hd by (auto split: if_splits)
  have "nx h' = (nx h)(head_addr := Some b)" "pv h' = (pv h)(b := Some head_addr)" "contents h' = contents h"
    using hd b by (auto simp: nx_def pv_def contents_def fun_eq_iff split: if_splits)
  moreover have "head_addr \<noteq> tail_addr" by (simp add: head_addr_def tail_addr_def)
  ultimately show ?thesis
    using l ex contents_dom [of h' h] unfolding links_but_def by auto
qed

lemma evict_relinked:
  assumes "kv_wf t" and h: "set_next (Some head_addr) p (heap t) = Ok h1" "set_prev p (Some head_addr) h1 = Ok h'"
  shows "kv_wf (t\<lparr>tablets := odel u (tablets t), heap := h'\<rparr>)"
proof -
  have "links_ok (heap t)" using assms(1) by (simp add: kv_wf_def)
  from relink_head [OF this h] have "kv_wf ((t\<lparr>tablets := odel u (tablets t)\<rparr>)\<lparr>heap := h'\<rparr>)"
    by (intro kv_wf_heap erase_user_ok(1) assms(1)) simp_all
  then show ?thesis by simp
qed

lemma use_virtual_memory_wf [yields_intros]: "kv_wf s \<Longrightarrow> yields kv_wf (use_virtual_memory s)"
  unfolding use_virtual_memory_def split_beta Let_def
  by (intro yields_reads yields_rbind_kv write_to_chunk_wf yields_Ok) (simp_all add: evict_relinked)

section \<open>The way back from disk, and put\<close>

lemma restore_tokens_wf:
  "kv_wf s \<Longrightarrow> (\<And>fn v s. kv_wf s \<Longrightarrow> yields kv_wf (put fn v s)) \<Longrightarrow> yields kv_wf (restore_tokens put ts s)"
proof (induction put ts s rule: restore_tokens.induct)
  case (1 put fn v ts s)
  have "yields kv_wf (rbind (put fn v s) (restore_tokens put ts))"
  proof (cases "put fn v s")
    case (Inr t)
    then have "kv_wf t" using yieldsD [OF 1(3) [OF 1(2)]] by blast
    with Inr 1 show ?thesis by simp
  qed simp
  then show ?case by simp
qed simp_all

lemma load_user_from_disk_wf [yields_intros]:
  assumes "kv_wf s" and "\<And>u fn v s. kv_wf s \<Longrightarrow> yields kv_wf (put u fn v s)"
  shows "yields kv_wf (load_user_from_disk put type user s)"
  unfolding load_user_from_disk_def restore_user_def Let_def
  by (intro yields_pair yields_reads restore_tokens_wf assms) (simp add: assms)

lemma put_reply_wf [simp]: "kv_wf (put_reply user fd isCPUT seq s) = kv_wf s"
  by (simp add: put_reply_def)

lemma put_helper_wf [yields_intros]:
  assumes wf: "kv_wf s" and fetch: "\<And>s. kv_wf s \<Longrightarrow> yields kv_wf (fetch user s)"
  shows "yields wf_snd (put_helper fetch user fn v fd external isCPUT seq s)"
proof -
  have upd: "yields kv_wf (update_user (append_value fn v) user t)"
    "yields kv_wf (update_user (oupd fn v) user t)" if "kv_wf t" for t
    by (rule update_user_wf [OF that]; simp add: append_value_def)+
  show ?thesis
    unfolding put_helper_def Let_def
    by (intro yields_if yields_Ok yields_rbind_kv upd insert_user_wf fetch) (auto simp: wf upd)
qed

lemma put_loop_wf [yields_intros]: "kv_wf s \<Longrightarrow> yields kv_wf (put_loop n user fn v fd external seq s)"
proof (induction n arbitrary: user fn v external seq s)
  case (Suc n)
  show ?case
    unfolding put_loop.simps put_entry_def
    by (intro yields_rbind_snd put_helper_wf load_user_from_disk_wf yields_if yields_pair yields_Ok Suc
        yields_rbind_kv use_virtual_memory_wf) simp_all
qed simp

lemma put_entry_wf [yields_intros]: "kv_wf s \<Longrightarrow> yields kv_wf (put_entry fd v (put_loop n u fn v fd external seq) s)"
  by (simp add: put_entry_def put_loop_wf)

lemma reload_wf [yields_intros]: "kv_wf s \<Longrightarrow> yields kv_wf (reload n fd user s)"
  unfolding reload_def by (intro load_user_from_disk_wf put_entry_wf)

section \<open>The other commands\<close>

lemma user_files_wf: "kv_wf s \<Longrightarrow> (\<And>m. osorted m \<Longrightarrow> yields P (f m)) \<Longrightarrow> yields P (rbind (user_files user s) f)"
  by (rule yields_rbind [OF user_files_sorted])

lemma lru_put_wf [yields_intros]: "kv_wf s \<Longrightarrow> yields kv_wf (lru_put n user fn v fd external seq s)"
  unfolding lru_put_def by (rule put_entry_wf)

lemma lru_get_wf [yields_intros]: "kv_wf s \<Longrightarrow> yields kv_wf (lru_get n user fn fd s)"
  unfolding lru_get_def
  by (intro yields_rbind_snd get_helper_wf reload_wf yields_pair yields_option yields_Ok) simp_all

lemma lru_cput_wf [yields_intros]: "kv_wf s \<Longrightarrow> yields kv_wf (lru_cput n user fn old new fd seq s)"
  unfolding lru_cput_def Let_def
  by (intro yields_rbind_snd get_helper_wf put_helper_wf reload_wf yields_pair yields_option yields_if yields_Ok)
    simp_all

lemma lru_dele_wf [yields_intros]: "kv_wf s \<Longrightarrow> yields kv_wf (lru_dele n user fn fd seq b s)"
  unfolding lru_dele_def Let_def
  by (intro yields_rbind_snd yields_rbind_kv get_helper_wf reload_wf yields_pair yields_option yields_Ok
      user_files_wf set_user_files_wf) (simp_all add: erase_user_ok)

lemma lru_rename_wf [yields_intros]: "kv_wf s \<Longrightarrow> yields kv_wf (lru_rename n user old new fd seq s)"
  unfolding lru_rename_def
  by (intro yields_rbind_snd yields_rbind_kv get_helper_wf reload_wf yields_pair yields_option yields_Ok
      user_files_wf set_user_files_wf) simp_all

lemma file_loop_wf:
  assumes "kv_wf s" and body: "\<And>fn c s. kv_wf s \<Longrightarrow> yields kv_wf (body fn c s)"
  shows "yields kv_wf (file_loop n body a k c s)"
  using assms(1)
proof (induction n arbitrary: k c s)
  case (Suc n)
  show ?case
    unfolding file_loop.simps
    by (intro yields_reads yields_option yields_pair yields_rbind_kv yields_Ok body Suc) simp_all
qed simp

lemma list_entry_wf [yields_intros]: "kv_wf s \<Longrightarrow> yields kv_wf (list_entry n user sel fmt fd fn c s)"
  unfolding list_entry_def Let_def
  by (intro yields_rbind_snd get_helper_wf reload_wf yields_pair yields_option yields_if yields_Ok) simp_all

lemma lru_getlist_wf [yields_intros]: "kv_wf s \<Longrightarrow> yields kv_wf (lru_getlist n user t fd s)"
  unfolding lru_getlist_def by (intro yields_option yields_Ok file_loop_wf list_entry_wf) simp_all

lemma lru_getfile_wf [yields_intros]: "kv_wf s \<Longrightarrow> yields kv_wf (lru_getfile n user fd s)"
  unfolding lru_getfile_def by (intro yields_option yields_Ok file_loop_wf list_entry_wf) simp_all

section \<open>The handlers\<close>

lemma kv_wf_log [simp]: "kv_wf (write_log r s) = kv_wf s"
  by (simp add: write_log_def)

lemma kv_wf_on_files [simp]: "kv_wf (on_files f s) = kv_wf s"
  by (simp add: on_files_def)

lemma kv_wf_error [simp]: "kv_wf (cs_error fd s) = kv_wf s"
  by (simp add: cs_error_def)

lemma log_and_send_wf [yields_intros]: "kv_wf s \<Longrightarrow> yields kv_wf (log_and_send line user external s)"
  unfolding log_and_send_def send_to_secondary_def Let_def
  by (intro yields_if yields_reads yields_Ok) simp_all

lemma yields_list3:
  "(\<And>a b c. xs = [a, b, c] \<Longrightarrow> yields P (f a b c)) \<Longrightarrow> yields P x \<Longrightarrow>
   yields P (case xs of [a, b, c] \<Rightarrow> f a b c | _ \<Rightarrow> x)"
  by (auto split: list.split)

lemma yields_list2:
  "(\<And>a b. xs = [a, b] \<Longrightarrow> yields P (f a b)) \<Longrightarrow> yields P x \<Longrightarrow>
   yields P (case xs of [a, b] \<Rightarrow> f a b | _ \<Rightarrow> x)"
  by (auto split: list.split)

lemma yields_list4:
  "(\<And>a b c d. xs = [a, b, c, d] \<Longrightarrow> yields P (f a b c d)) \<Longrightarrow> yields P x \<Longrightarrow>
   yields P (case xs of [a, b, c, d] \<Rightarrow> f a b c d | _ \<Rightarrow> x)"
  by (auto split: list.split)

lemmas handler_steps = yields_reads yields_list2 yields_list3 yields_list4 yields_Ok yields_rbind_kv

lemma cs_put_wf [yields_intros]: "kv_wf s \<Longrightarrow> yields kv_wf (cs_put n line external fd seq s)"
  unfolding cs_put_def by (intro handler_steps yields_intros) simp_all

lemma cs_get_wf [yields_intros]: "kv_wf s \<Longrightarrow> yields kv_wf (cs_get n line fd s)"
  unfolding cs_get_def by (intro handler_steps yields_intros) simp_all

lemma cs_cput_wf [yields_intros]: "kv_wf s \<Longrightarrow> yields kv_wf (cs_cput n line external fd seq s)"
  unfolding cs_cput_def by (intro handler_steps yields_intros) simp_all

lemma cs_dele_wf [yields_intros]: "kv_wf s \<Longrightarrow> yields kv_wf (cs_dele n line external m fd seq s)"
  unfolding cs_dele_def by (intro handler_steps yields_intros) simp_all

lemma cs_getlist_wf [yields_intros]: "kv_wf s \<Longrightarrow> yields kv_wf (cs_getlist n line fd s)"
  unfolding cs_getlist_def by (intro handler_steps yields_intros) simp_all

lemma cs_getfile_wf [yields_intros]: "kv_wf s \<Longrightarrow> yields kv_wf (cs_getfile n line fd s)"
  unfolding cs_getfile_def by (intro yields_if handler_steps yields_intros) simp_all

lemma cs_rename_wf [yields_intros]: "kv_wf s \<Longrightarrow> yields kv_wf (cs_rename n line external fd seq s)"
  unfolding cs_rename_def by (intro handler_steps yields_intros) simp_all

section \<open>The messages\<close>

lemma handle_secondary_report_wf [yields_intros]: "kv_wf s \<Longrightarrow> yields kv_wf (handle_secondary_report line s)"
  unfolding handle_secondary_report_def Let_def
  by (intro yields_reads yields_pair yields_Ok) simp_all

lemma check_primary_holdback_wf [simp]: "kv_wf (check_primary_holdback s) = kv_wf s"
proof -
  have "kv_wf (fold (\<lambda>p. send_msg fd (m p)) ps t) = kv_wf t" for fd m and ps :: "msg_pair list" and t
    by (induction ps arbitrary: t) simp_all
  then have "kv_wf (fold (\<lambda>(user, ps). fold (\<lambda>p. send_msg fd (m p)) ps) hs t) = kv_wf t"
    for fd m and hs :: "(string \<times> msg_pair list) list" and t
    by (induction hs arbitrary: t) auto
  then show ?thesis by (simp add: check_primary_holdback_def)
qed

lemma delete_entry_wf: "kv_wf s \<Longrightarrow> yields kv_wf (delete_entry n user a fd fn c s)"
  unfolding delete_entry_def
  by (intro yields_rbind_snd yields_rbind_kv yields_pair yields_option yields_reads yields_if yields_Ok
      yields_intros) simp_all

lemma migrate_entry_wf: "kv_wf s \<Longrightarrow> yields kv_wf (migrate_entry n user fd fn c s)"
  unfolding migrate_entry_def
  by (intro yields_rbind_snd yields_pair yields_option yields_Ok yields_intros) simp_all

lemma migrate_data_wf [yields_intros]: "kv_wf s \<Longrightarrow> yields kv_wf (migrate_data n user fd s)"
  unfolding migrate_data_def
  by (intro yields_reads yields_rbind_kv file_loop_wf migrate_entry_wf delete_entry_wf)

lemma data_migration_wf [yields_intros]: "kv_wf s \<Longrightarrow> yields kv_wf (data_migration n line fd s)"
  unfolding data_migration_def
  by (intro yields_reads yields_rbind_kv yields_foldr migrate_data_wf yields_Ok) simp_all

lemma answered_wf: "yields kv_wf r \<Longrightarrow> yields kv_wf (answered fd r)"
  unfolding answered_def by (intro yields_rbind_kv yields_Ok) simp_all

lemma ps_step_wf: "kv_wf s \<Longrightarrow> yields kv_wf (ps_step n fd buffer s)"
  unfolding ps_step_def Let_def
  by (intro yields_option yields_pair yields_reads yields_if yields_Ok yields_intros) simp_all

lemma migrate_step_wf: "kv_wf s \<Longrightarrow> yields wf_snd (migrate_step n fd line s)"
  unfolding migrate_step_def
  by (intro yields_reads yields_rbind_kv yields_if yields_Ok yields_intros) simp_all

lemma worker_step_wf: "wf_snd st \<Longrightarrow> yields wf_snd (worker_step n fd line st)"
  unfolding worker_step_def Let_def
  by (intro yields_pair yields_if yields_Ok yields_reads yields_rbind_kv answered_wf yields_intros) simp_all

section \<open>Checkpoints\<close>

lemma checkpoint_user_wf: "kv_wf s \<Longrightarrow> yields kv_wf (checkpoint_user k s)"
  unfolding checkpoint_user_def by (intro yields_reads write_to_chunk_wf)

lemma write_meta_wf:
  "kv_wf s \<Longrightarrow> yields kv_wf (write_cp_meta s)" "kv_wf s \<Longrightarrow> yields kv_wf (write_virmem_meta s)"
  "kv_wf s \<Longrightarrow> yields kv_wf (write_chunk_info s)" "kv_wf (write_user_size s) = kv_wf s"
  unfolding write_cp_meta_def write_virmem_meta_def write_chunk_info_def write_user_size_def
  by ((intro yields_reads yields_Ok)?, simp)+

lemma checkpointing_wf: "kv_wf s \<Longrightarrow> yields kv_wf (checkpointing s)"
  unfolding checkpointing_def Let_def
  by (intro yields_reads yields_rbind_kv yields_foldr checkpoint_user_wf write_meta_wf(1-3) yields_Ok)
    (simp_all add: write_meta_wf(4))

section \<open>Runs\<close>

text \<open>
  What a running node does: a message on a connection, from the primary or during a migration, a
  checkpoint, and the turn of the accept loop that may make it a primary.
\<close>

inductive node_step :: "kv \<Rightarrow> kv \<Rightarrow> bool" where
  request: "worker_step n fd line (q, s) = Ok (q', t) \<Longrightarrow> node_step s t"
| from_primary: "ps_step n fd buffer s = Ok t \<Longrightarrow> node_step s t"
| migrated: "migrate_step n fd line s = Ok (b, t) \<Longrightarrow> node_step s t"
| checkpoint: "checkpointing s = Ok t \<Longrightarrow> node_step s t"
| accepted: "accept_connection (k, s) = (k', t) \<Longrightarrow> node_step s t"

interpretation node: invariant_steps node_step kv_wf
proof unfold_locales
  fix s t assume wf: "kv_wf s" and "node_step s t"
  from this(2) show "kv_wf t"
  proof cases
    case (request n fd line q q')
    then show ?thesis using yieldsD [OF worker_step_wf [of "(q, s)"] request] wf by simp
  next
    case (from_primary n fd buffer)
    then show ?thesis using yieldsD [OF ps_step_wf [OF wf]] by blast
  next
    case (migrated n fd line b)
    then show ?thesis using yieldsD [OF migrate_step_wf [OF wf] migrated] by simp
  next
    case checkpoint
    then show ?thesis using yieldsD [OF checkpointing_wf [OF wf]] by blast
  next
    case (accepted k k')
    then show ?thesis using wf by (auto simp: accept_connection_def loop_top_def)
  qed
qed

section \<open>Start-up\<close>

lemma push_wf [simp]: "kv_wf (push_record type user r s) = kv_wf s" "kv_wf (push_info type i s) = kv_wf s"
  "kv_wf (initialize_chunk_info type s) = kv_wf s"
  by (simp_all add: push_record_def push_info_def initialize_chunk_info_def Let_def)

lemma parse_meta_wf: "kv_wf s \<Longrightarrow> yields kv_wf (parse_meta t type s)"
  unfolding parse_meta_def
  by (cases "fst (tokens (CHR '';'') t)") (auto intro!: yields_foldr yields_reads)

lemma load_cp_vm_meta_wf: "kv_wf s \<Longrightarrow> yields kv_wf (load_cp_vm_meta path type s)"
  unfolding load_cp_vm_meta_def Let_def
  by (intro yields_pair yields_rbind_kv yields_foldr parse_meta_wf)

lemma load_chunk_info_wf: "kv_wf s \<Longrightarrow> yields kv_wf (load_chunk_info s)"
  unfolding load_chunk_info_def load_chunk_info_step_def Let_def
  by (intro yields_foldr yields_pair yields_rbind_kv yields_if yields_reads yields_Ok) simp_all

lemma user_size_pairs_wf: "kv_wf s \<Longrightarrow> yields kv_wf (user_size_pairs ts s)"
proof (induction ts s rule: user_size_pairs.induct)
  case (1 user n ts s)
  have "kv_wf (s\<lparr>user_size := oupd user i (user_size s)\<rparr>)" for i
    using 1(2) by (simp add: kv_wf_def nodes_ok_def)
  then show ?case by (cases "stoi n") (simp_all add: 1(1))
qed simp_all

lemma load_checkpointing_wf: "kv_wf s \<Longrightarrow> yields kv_wf (load_checkpointing n s)"
  unfolding load_checkpointing_def load_user_size_def load_cp_user_def
  by (intro yields_rbind_kv load_cp_vm_meta_wf load_chunk_info_wf user_size_pairs_wf yields_foldr
      load_user_from_disk_wf put_entry_wf yields_Ok) simp_all

lemma replay_log_wf: "kv_wf s \<Longrightarrow> yields kv_wf (replay_log n s)"
  unfolding replay_log_def replay_line_def Let_def
  by (intro yields_option yields_foldr yields_if yields_Ok yields_intros)

lemma initialization_wf: "kv_wf s \<Longrightarrow> yields kv_wf (initialization n opt_n s)"
  unfolding initialization_def Let_def
  by (intro yields_if yields_Ok yields_rbind_kv load_checkpointing_wf replay_log_wf) simp_all

text \<open>C2: Whatever bytes a storage node receives after its start, from clients, from its primary or
  during a migration, and whenever it takes a checkpoint or takes over: as long as its operations
  return, its tables and its recency list stay well formed (every user of the table has a node of
  its own with its name and its files in key order, and no link of the list dangles), so that a get
  of a user who is not on disk never fails and answers what the abstract specification says.\<close>

theorem node_stays_well_formed:
  assumes start: "initialization k opt_n ((init_kv cap csize)\<lparr>is_primary := p, disk := d\<rparr>) = Ok s0"
    and run: "node_step\<^sup>*\<^sup>* s0 s"
  shows "kv_wf s \<and> (oget (virmem_meta s) user = None \<longrightarrow>
    refines fd s (lru_get n user filename fd s) (spec_get user filename))"
proof -
  have "kv_wf s0"
    by (rule yieldsD [OF initialization_wf start]) (simp add: kv_wf_init)
  then have "kv_wf s" by (rule node.steps_ok [OF run])
  then show ?thesis by (simp add: lru_get_refines)
qed

text \<open>A new node that receives a message it does not know and a \<open>put\<close>.\<close>

definition two_messages :: "kv res" where
  "two_messages =
     rbind (initialization 1 True ((init_kv 10 100)\<lparr>is_primary := True, disk := []\<rparr>)) (\<lambda>s.
     rbind (worker_step 1 5 ''%s'' (False, s)) (\<lambda>(_, s).
     rbind (worker_step 1 6 (''put a,f,hi'' @ crlf) (False, s)) (\<lambda>(_, s). Ok s)))"

lemma two_messages_sent:
  "(case two_messages of
      Ok s \<Rightarrow> (5, msg_not_supported) \<in> set (sent s) \<and> (6, msg_stored) \<in> set (sent s) \<and> virmem_meta s = []
    | Fail _ \<Rightarrow> False)"
  by code_simp

theorem node_stays_well_formed_witness:
  "\<exists>s0 s. initialization 1 True ((init_kv 10 100)\<lparr>is_primary := True, disk := []\<rparr>) = Ok s0 \<and> node_step\<^sup>*\<^sup>* s0 s \<and>
     (5, msg_not_supported) \<in> set (sent s) \<and> (6, msg_stored) \<in> set (sent s) \<and>
     kv_wf s \<and> refines 7 s (lru_get 1 ''a'' ''f'' 7 s) (spec_get ''a'' ''f'')"
proof -
  obtain s where s: "two_messages = Ok s" "(5, msg_not_supported) \<in> set (sent s)"
    "(6, msg_stored) \<in> set (sent s)" "virmem_meta s = []"
    using two_messages_sent by (auto split: sum.splits)
  from s(1) obtain s0 s1 p q where r: "initialization 1 True ((init_kv 10 100)\<lparr>is_primary := True, disk := []\<rparr>) = Ok s0"
    "worker_step 1 5 ''%s'' (False, s0) = Ok (p, s1)" "worker_step 1 6 (''put a,f,hi'' @ crlf) (False, s1) = Ok (q, s)"
    by (auto simp only: two_messages_def rbind_eq_Ok split_paired_Ex prod.case sum.inject)
  have "node_step\<^sup>*\<^sup>* s0 s"
    using node_step.request [OF r(2)] node_step.request [OF r(3)] by (meson rtranclp.simps)
  from node_stays_well_formed [OF r(1) this, of "''a''" 7 1 "''f''"] this r(1) s show ?thesis
    by (intro exI [of _ s0] exI [of _ s]) simp
qed

end
