(* ===== verification/KV_Migration.thy ===== *)
theory KV_Migration
  imports KV_Protocol KV_Store
begin

text \<open>
  The loops over the files of a user (\<open>getlist\<close>, \<open>getfile\<close> and \<open>migrate_data\<close>), and the migration of
  a user to a node that joins.

  \<^item> A loop visits the files in key order. \<open>get_helper\<close> in its body moves the node of the user to the
    end of the recency list, which the loop does not notice.
  \<^item> \<open>migrate_worker\<close> is the thread of the new node: the request and the messages it receives.
\<close>

section \<open>The loop over the files of a user\<close>

definition last_key :: "(string, string) omap \<Rightarrow> string option" where
  "last_key xs = (if xs = [] then None else Some (fst (last xs)))"

lemma next_entry_split:
  assumes "osorted (xs @ ys)"
  shows "next_entry (xs @ ys) (last_key xs) = (case ys of [] \<Rightarrow> None | y # _ \<Rightarrow> Some y)"
proof (cases xs rule: rev_cases)
  case Nil
  then show ?thesis by (cases ys) (auto simp: next_entry_def last_key_def)
next
  case (snoc zs z)
  have less: "fst y < fst z" if "y \<in> set zs" for y
    using assms that by (auto simp: snoc osorted_def sorted_wrt_append)
  have skip: "find P (us @ vs) = find P vs" if "\<And>x. x \<in> set us \<Longrightarrow> \<not> P x" for P and us vs :: "(string, string) omap"
    using that by (induction us) auto
  have "find (\<lambda>(fn, _). fst z < fn) ((zs @ [z]) @ ys) = find (\<lambda>(fn, _). fst z < fn) ys"
    by (rule skip) (auto dest: less)
  moreover have "fst z < fst y" if "y \<in> set ys" for y
    using assms that by (auto simp: snoc osorted_def sorted_wrt_append)
  ultimately show ?thesis
    by (cases ys) (force simp: next_entry_def last_key_def snoc)+
qed

text \<open>A user in memory, with the files \<open>m\<close>, at the address \<open>a\<close>.\<close>

definition resident :: "string \<Rightarrow> nat \<Rightarrow> (string, string) omap \<Rightarrow> kv \<Rightarrow> bool" where
  "resident user a m s \<longleftrightarrow> kv_wf s \<and> oget (tablets s) user = Some a \<and> files_of s user = Some m \<and>
     oget (virmem_meta s) user = None"

text \<open>
  The state after a step that moves nodes of the recency list and sends messages, and changes
  nothing else.
\<close>

definition moved :: "heap \<Rightarrow> (int \<times> string) list \<Rightarrow> kv \<Rightarrow> kv" where
  "moved h out s = s\<lparr>heap := h, sent := sent s @ out\<rparr>"

lemma moved_moved [simp]: "moved h' out' (moved h out s) = moved h' (out @ out') s"
  by (simp add: moved_def)

lemma moved_nothing [simp]: "moved (heap s) [] s = s"
  by (simp add: moved_def)

lemma moved_fields [simp]:
  "tablets (moved h out s) = tablets s" "virmem_meta (moved h out s) = virmem_meta s"
  "sent (moved h out s) = sent s @ out" "heap (moved h out s) = h"
  "is_primary (moved h out s) = is_primary s"
  by (simp_all add: moved_def)

lemma send_moved [simp]: "send_msg fd m (moved h out s) = moved h (out @ [(fd, m)]) s"
  by (simp add: moved_def send_msg_def)

lemma get_helper_file:
  assumes r: "resident user a m s" and f: "oget m f = Some v"
  shows "\<exists>h. get_helper fetch user f fd s = Ok (Some v, moved h [] s) \<and> files_of (moved h [] s) = files_of s \<and>
    resident user a m (moved h [] s)"
proof -
  have "moved h [] s = s\<lparr>heap := h\<rparr>" for h by (simp add: moved_def)
  then show ?thesis
    using get_helper_resident [of s user fetch f fd] r f by (auto simp: resident_def)
qed

lemma moved_out:
  "files_of (moved h out s) = files_of (moved h [] s)"
  "resident user a m (moved h out s) = resident user a m (moved h [] s)"
proof -
  have "kv_wf (moved h out s) = kv_wf (moved h [] s)"
    by (simp add: kv_wf_def nodes_ok_def moved_def)
  moreover show "files_of (moved h out s) = files_of (moved h [] s)"
    by (rule files_of_frame) simp_all
  ultimately show "resident user a m (moved h out s) = resident user a m (moved h [] s)"
    by (simp add: resident_def)
qed

lemma file_loop_entries:
  assumes "resident user a (xs @ ys) s" and "length ys < n"
    and body: "\<And>f v c s. resident user a (xs @ ys) s \<Longrightarrow> oget (xs @ ys) f = Some v \<Longrightarrow>
      \<exists>h. body f c s = Ok (moved h (out c f v) s) \<and> files_of (moved h [] s) = files_of s \<and>
        resident user a (xs @ ys) (moved h [] s)"
  shows "\<exists>h. file_loop n body a (last_key xs) (length xs) s =
      Ok (moved h (concat (map (\<lambda>(i, f, v). out i f v) (enumerate (length xs) ys))) s) \<and>
    files_of (moved h [] s) = files_of s \<and> resident user a (xs @ ys) (moved h [] s)"
  using assms
proof (induction ys arbitrary: xs n s)
  case Nil
  then obtain k where n: "n = Suc k" by (cases n) simp_all
  have r: "kv_wf s" "oget (tablets s) user = Some a" "files_of s user = Some xs"
    using Nil.prems(1) by (simp_all add: resident_def)
  obtain nd where nd: "heap s a = Some nd" "nvalue nd = xs"
    using kv_wf_node [OF r(1,2)] r(3) by (metis option.inject)
  have "next_entry xs (last_key xs) = None"
    using next_entry_split [of xs "[]"] kv_wf_files_sorted [OF r(1,3)] by simp
  then show ?case
    using nd Nil.prems(1) by (intro exI [of _ "heap s"]) (simp add: n)
next
  case (Cons y ys)
  obtain f v where y: "y = (f, v)" by force
  obtain k where n: "n = Suc k" "length ys < k" using Cons.prems(2) by (cases n) simp_all
  have r: "kv_wf s" "oget (tablets s) user = Some a" "files_of s user = Some (xs @ y # ys)"
    using Cons.prems(1) by (simp_all add: resident_def)
  have srt: "osorted (xs @ y # ys)" using kv_wf_files_sorted [OF r(1,3)] .
  obtain nd where nd: "heap s a = Some nd" "nvalue nd = xs @ y # ys"
    using kv_wf_node [OF r(1,2)] r(3) by (metis option.inject)
  have f: "oget (xs @ y # ys) f = Some v"
    using osorted_oget [OF srt, of f v] by (simp add: y)
  obtain h where h: "body f (length xs) s = Ok (moved h (out (length xs) f v) s)"
    "files_of (moved h [] s) = files_of s" "resident user a (xs @ y # ys) (moved h [] s)"
    using Cons.prems(3) [OF Cons.prems(1) f] by blast
  let ?t = "moved h (out (length xs) f v) s"
  have t: "resident user a ((xs @ [y]) @ ys) ?t"
    using h(3) unfolding moved_out(2) [of user a _ h "out (length xs) f v"] by simp
  have b: "\<exists>h. body f c s = Ok (moved h (out c f v) s) \<and> files_of (moved h [] s) = files_of s \<and>
        resident user a ((xs @ [y]) @ ys) (moved h [] s)"
    if "resident user a ((xs @ [y]) @ ys) s" "oget ((xs @ [y]) @ ys) f = Some v" for f v c s
    using Cons.prems(3) [of s f v c] that by simp
  obtain g where g: "file_loop k body a (last_key (xs @ [y])) (length (xs @ [y])) ?t =
      Ok (moved g (concat (map (\<lambda>(i, f, v). out i f v) (enumerate (length (xs @ [y])) ys))) ?t)"
    "files_of (moved g [] ?t) = files_of ?t" "resident user a ((xs @ [y]) @ ys) (moved g [] ?t)"
    using Cons.IH [OF t n(2) b] by blast
  have step: "file_loop n body a (last_key xs) (length xs) s =
      file_loop k body a (last_key (xs @ [y])) (length (xs @ [y])) ?t"
    using nd h(1) next_entry_split [OF srt] by (simp add: n y last_key_def)
  show ?case
    unfolding step
    using g h(2) moved_out(1) [of g "out (length xs) f v" s] moved_out(1) [of h "out (length xs) f v" s]
      moved_out(2) [of user a "xs @ y # ys" g "out (length xs) f v" s]
    by (intro exI [of _ g]) (simp add: y)
qed

section \<open>Lists\<close>

text \<open>
  The reply to \<open>getlist\<close> and \<open>getfile\<close>: the header goes out with the first file of the user, if that
  one is selected, and not with the first selected file.
\<close>

definition listing :: "(string \<Rightarrow> bool) \<Rightarrow> (string \<Rightarrow> string \<Rightarrow> string) \<Rightarrow> (string, string) omap \<Rightarrow> string list" where
  "listing sel fmt m =
     (case m of [] \<Rightarrow> [] | (f, _) # _ \<Rightarrow> if sel f then [msg_list] else []) @
     map (\<lambda>(f, v). fmt f v) (filter (\<lambda>(f, v). sel f) m)"

lemma list_entry_moved:
  assumes r: "resident user a m s" and f: "oget m f = Some v"
  shows "\<exists>h. list_entry n user sel fmt fd f c s = Ok (moved h (map (Pair fd)
      (if sel f then (if c = 0 then [msg_list] else []) @ [fmt f v] else [])) s) \<and>
    files_of (moved h [] s) = files_of s \<and> resident user a m (moved h [] s)"
proof (cases "sel f")
  case True
  obtain h where h: "get_helper (reload n fd) user f fd s = Ok (Some v, moved h [] s)"
    "files_of (moved h [] s) = files_of s" "resident user a m (moved h [] s)"
    using get_helper_file [OF r f] by blast
  with True show ?thesis by (intro exI [of _ h]) (simp add: list_entry_def Let_def)
next
  case False
  with r show ?thesis by (intro exI [of _ "heap s"]) (simp add: list_entry_def)
qed

lemma listing_entries:
  "concat (map (\<lambda>(i, f, v). map (Pair fd) (if sel f then (if i = 0 then [msg_list] else []) @ [fmt f v] else []))
     (enumerate 0 m)) = map (Pair fd) (listing sel fmt m)"
proof -
  have rest: "concat (map (\<lambda>(i, f, v). map (Pair fd) (if sel f then (if i = 0 then [msg_list] else []) @ [fmt f v] else []))
     (enumerate (Suc k) ys)) = map (Pair fd) (map (\<lambda>(f, v). fmt f v) (filter (\<lambda>(f, v). sel f) ys))" for k ys
    by (induction ys arbitrary: k) auto
  show ?thesis by (cases m) (auto simp: rest listing_def)
qed

lemma list_loop:
  assumes r: "resident user a m s" and n: "length m < n"
  shows "\<exists>h. file_loop n (list_entry k user sel fmt fd) a None 0 s =
      Ok (moved h (map (Pair fd) (listing sel fmt m)) s) \<and>
    files_of (moved h [] s) = files_of s \<and> resident user a m (moved h [] s)"
proof -
  let ?out = "\<lambda>i f v. map (Pair fd) (if sel f then (if i = 0 then [msg_list] else []) @ [fmt f v] else [])"
  have "\<exists>h. list_entry k user sel fmt fd f c s = Ok (moved h (?out c f v) s) \<and>
      files_of (moved h [] s) = files_of s \<and> resident user a ([] @ m) (moved h [] s)"
    if "resident user a ([] @ m) s" "oget ([] @ m) f = Some v" for f v c s
    using list_entry_moved [of user a m s f v k sel fmt fd c] that by simp
  then obtain h where "file_loop n (list_entry k user sel fmt fd) a (last_key []) (length ([] :: (string, string) omap)) s =
      Ok (moved h (concat (map (\<lambda>(i, f, v). ?out i f v) (enumerate (length ([] :: (string, string) omap)) m))) s)"
    "files_of (moved h [] s) = files_of s" "resident user a ([] @ m) (moved h [] s)"
    using file_loop_entries [of user a "[]" m s n "list_entry k user sel fmt fd" ?out] r n by auto
  then show ?thesis
    by (intro exI [of _ h]) (simp add: last_key_def listing_entries)
qed

lemma list_answers:
  assumes "kv_wf s" and "files_of s user = Some m" and "oget (virmem_meta s) user = None" and "length m < n"
  shows "\<exists>a t. oget (tablets s) user = Some a \<and> file_loop n (list_entry k user sel fmt fd) a None 0 s = Ok t \<and>
    kv_wf t \<and> view_of t = view_of s \<and> sent t = sent s @ map (Pair fd) (listing sel fmt m)"
proof -
  obtain a where a: "oget (tablets s) user = Some a"
    using assms(2) by (auto simp: files_of_def split: option.splits)
  with assms have "resident user a m s" by (simp add: resident_def)
  from list_loop [OF this assms(4)] obtain h where
    h: "file_loop n (list_entry k user sel fmt fd) a None 0 s = Ok (moved h (map (Pair fd) (listing sel fmt m)) s)"
    and f: "files_of (moved h [] s) = files_of s" and r: "resident user a m (moved h [] s)" by blast
  let ?t = "moved h (map (Pair fd) (listing sel fmt m)) s"
  have "files_of ?t = files_of s" using f by (rule trans [OF moved_out(1)])
  then have "view_of ?t = view_of s" by (rule view_of_frame) (simp_all add: moved_def)
  moreover have "kv_wf ?t"
    using r moved_out(2) [of user a m h "map (Pair fd) (listing sel fmt m)" s] by (simp add: resident_def)
  ultimately show ?thesis using a h by (intro exI [of _ a] exI [of _ ?t]) simp
qed

abbreviation wanted :: "string \<Rightarrow> string \<Rightarrow> bool" where
  "wanted type f \<equiv> type = ''email'' \<and> is_email f \<or> type = ''file'' \<and> \<not> is_email f"

text \<open>The answer to getlist for a user in memory is the files of the wanted type in name order, and
  changes no data; the line that announces the list is sent only if the first of all files of the
  user is of the wanted type.\<close>

theorem getlist_answers:
  assumes "kv_wf s" and "files_of s user = Some m" and "oget (virmem_meta s) user = None" and "length m < n"
  shows "\<exists>t. lru_getlist n user type fd s = Ok t \<and> kv_wf t \<and> view_of t = view_of s \<and>
    sent t = sent s @ map (Pair fd) (listing (wanted type) (\<lambda>f v. f @ '','' @ v @ '','') m)"
  using list_answers [OF assms, of n "wanted type" "\<lambda>f v. f @ '','' @ v @ '',''" fd]
  by (auto simp: lru_getlist_def)

section \<open>The thread of the new node\<close>

fun migrate_loop :: "nat \<Rightarrow> nat \<Rightarrow> int \<Rightarrow> string list \<Rightarrow> kv \<Rightarrow> kv res" where
  "migrate_loop 0 n fd ms s = Fail OutOfFuel"
| "migrate_loop (Suc k) n fd ms s =
     (case ms of
        [] \<Rightarrow> migrate_loop k n fd [] s
      | m # ms \<Rightarrow>
          if m = [] then migrate_loop k n fd ms s
          else rbind (migrate_step n fd m s) (\<lambda>(isDone, s). if isDone then Ok s else migrate_loop k n fd ms s))"

definition migrate_worker :: "nat \<Rightarrow> nat \<Rightarrow> int \<Rightarrow> string \<Rightarrow> string list \<Rightarrow> kv \<Rightarrow> kv res" where
  "migrate_worker k n fd migration_user_list ms s =
     migrate_loop k n fd ms (send_msg fd (''REQUEST '' @ migration_user_list) s)"

text \<open>The lines of a migration.\<close>

definition put_lines :: "string \<Rightarrow> (string, string) omap \<Rightarrow> string list" where
  "put_lines user m = map (\<lambda>(f, v). wire (Put user f v)) m"

lemma put_lines_simps [simp]:
  "put_lines user [] = []" "put_lines user ((f, v) # m) = wire (Put user f v) # put_lines user m"
  by (simp_all add: put_lines_def)

lemma migrate_entry_moved:
  assumes r: "resident user a m s" and f: "oget m f = Some v"
  shows "\<exists>h. migrate_entry n user fd f c s = Ok (moved h [(fd, wire (Put user f v))] s) \<and>
    files_of (moved h [] s) = files_of s \<and> resident user a m (moved h [] s)"
proof -
  obtain h where h: "get_helper (reload n fd) user f fd s = Ok (Some v, moved h [] s)"
    "files_of (moved h [] s) = files_of s" "resident user a m (moved h [] s)"
    using get_helper_file [OF r f] by blast
  then show ?thesis by (intro exI [of _ h]) (simp add: migrate_entry_def)
qed

lemma migrate_entries:
  assumes r: "resident user a m s" and n: "length m < n"
  shows "\<exists>h. file_loop n (migrate_entry k user fd) a None 0 s = Ok (moved h (map (Pair fd) (put_lines user m)) s) \<and>
    files_of (moved h [] s) = files_of s \<and> resident user a m (moved h [] s)"
proof -
  let ?out = "\<lambda>(i :: nat) f v. [(fd, wire (Put user f v))]"
  have out: "concat (map (\<lambda>(i, f, v). ?out i f v) (enumerate j m)) = map (Pair fd) (put_lines user m)" for j
    by (induction m arbitrary: j) (auto simp del: wire.simps)
  have "\<exists>h. migrate_entry k user fd f c s = Ok (moved h (?out c f v) s) \<and>
      files_of (moved h [] s) = files_of s \<and> resident user a ([] @ m) (moved h [] s)"
    if "resident user a ([] @ m) s" "oget ([] @ m) f = Some v" for f v c s
    using migrate_entry_moved [of user a m s f v k fd c] that by simp
  then obtain h where "file_loop n (migrate_entry k user fd) a (last_key []) (length ([] :: (string, string) omap)) s =
      Ok (moved h (concat (map (\<lambda>(i, f, v). ?out i f v) (enumerate (length ([] :: (string, string) omap)) m))) s)"
    "files_of (moved h [] s) = files_of s" "resident user a ([] @ m) (moved h [] s)"
    using file_loop_entries [of user a "[]" m s n "migrate_entry k user fd" ?out] r n by auto
  then show ?thesis
    unfolding out by (intro exI [of _ h]) (simp add: last_key_def)
qed

section \<open>What the new node makes of the lines\<close>

definition empty_here :: "kv \<Rightarrow> string \<Rightarrow> nat \<Rightarrow> bool" where
  "empty_here s u k \<longleftrightarrow> oget (virmem_meta s) u = None \<and> room s u k"

lemma put_migrated:
  assumes "kv_wf s" and "empty_here s u (length v)"
  shows "\<exists>s'. lru_put (Suc n) u f v fd True 0 s = Ok s' \<and> kv_wf s' \<and> same_node s s' \<and>
    memory_used s' = memory_used s + int (length v) \<and>
    files_of s' = (files_of s)(u \<mapsto> append_value f v (case files_of s u of None \<Rightarrow> [] | Some m \<Rightarrow> m)) \<and>
    (\<forall>k. empty_here s u (length v + k) \<longrightarrow> empty_here s' u k)"
proof -
  obtain s' where s': "lru_put (Suc n) u f v fd True 0 s = Ok s'" "kv_wf s'" "same_node s s'"
    "memory_used s' = memory_used s + int (length v)"
    "files_of s' = (files_of s)(u \<mapsto> append_value f v (files_list s u))"
    "oget_def 0 (user_size s') u = oget_def 0 (user_size s) u + int (length v)"
    using lru_put_resident [of s u v n f fd 0] assms by (auto simp: empty_here_def)
  moreover have "empty_here s u (length v + k) \<longrightarrow> empty_here s' u k" for k
    using s'(3,4,6) by (auto simp: empty_here_def room_def mem_room_def quota_room_def same_node_def)
  ultimately show ?thesis by (auto simp: files_list_def)
qed

interpretation migrated: append_store kv_wf empty_here files_of memory_used same_node
    "\<lambda>u f v. lru_put (Suc n) u f v fd True 0" for n fd
proof unfold_locales
  show "same_node s t \<Longrightarrow> same_node t w \<Longrightarrow> same_node s w" for s t w
    by (rule same_node_trans)
qed (use kv_wf_files_sorted put_migrated in
    \<open>auto simp: empty_here_def room_def mem_room_def quota_room_def\<close>)

lemma migrate_step_put:
  assumes "sane (Put u f v)"
  shows "migrate_step n fd (wire (Put u f v)) s = rbind (lru_put n u f v fd True 0 s) (\<lambda>s. Ok (False, s))"
proof -
  have "after_write (Put u f v) False = Ok"
    by (rule ext) (simp add: after_write_put log_and_send_def)
  moreover have "wire (Put u f v) \<noteq> msg_migrated" by (simp add: msg_migrated_def)
  ultimately show ?thesis
    using assms parse_command_wire [OF assms]
    by (simp add: migrate_step_def handler_wire rbind_assoc del: wire.simps)
qed

lemma migrate_loop_lines:
  assumes "\<And>f v. (f, v) \<in> set m \<Longrightarrow> sane (Put user f v)"
  shows "migrate_loop (length m + k) n fd (put_lines user m @ ms) s =
    rbind (foldr_res (\<lambda>(f, v). lru_put n user f v fd True 0) m s) (migrate_loop k n fd ms)"
  using assms
proof (induction m arbitrary: s)
  case (Cons p m)
  obtain f v where p: "p = (f, v)" by force
  have f: "sane (Put user f v)" using Cons.prems by (simp add: p)
  have ih: "migrate_loop (length m + k) n fd (put_lines user m @ ms) t =
      rbind (foldr_res (\<lambda>(f, v). lru_put n user f v fd True 0) m t) (migrate_loop k n fd ms)" for t
    using Cons by simp
  have "wire (Put user f v) \<noteq> []" by simp
  then have "migrate_loop (length (p # m) + k) n fd (put_lines user (p # m) @ ms) s =
      rbind (migrate_step n fd (wire (Put user f v)) s)
        (\<lambda>(isDone, s). if isDone then Ok s else migrate_loop (length m + k) n fd (put_lines user m @ ms) s)"
    by (simp add: p del: wire.simps)
  also have "\<dots> = rbind (lru_put n user f v fd True 0 s)
      (\<lambda>s. migrate_loop (length m + k) n fd (put_lines user m @ ms) s)"
    by (simp add: migrate_step_put [OF f] rbind_assoc del: wire.simps)
  also have "\<dots> = rbind (foldr_res (\<lambda>(f, v). lru_put n user f v fd True 0) (p # m) s) (migrate_loop k n fd ms)"
    by (simp add: p ih rbind_assoc)
  finally show ?case .
qed simp

lemma migrate_loop_done: "migrate_loop (Suc k) n fd [msg_migrated] s = Ok s"
proof -
  have "parse_command msg_migrated = Ok ''migration''" by code_simp
  moreover have "c_str msg_migrated = msg_migrated" by code_simp
  ultimately show ?thesis by (simp add: migrate_step_def) (simp add: msg_migrated_def)
qed

text \<open>C27: The lines the old node sends for a user, one per file, make the node that joins hold exactly
  the files of the user, with its memory accounting raised by their bytes, when each read of the new
  node returns one line; the old node keeps its data until then.\<close>

theorem migration_copies_user:
  assumes src: "kv_wf s" "files_of s user = Some m" "oget (virmem_meta s) user = None" "length m < n"
    and lines: "m \<noteq> []" "\<And>f v. (f, v) \<in> set m \<Longrightarrow> sane (Put user f v)"
    and dst: "kv_wf t" "files_of t user = None" "oget (virmem_meta t) user = None" "room t user (bytes_of m)"
  shows "\<exists>a s' t'. oget (tablets s) user = Some a \<and>
    file_loop n (migrate_entry n user fd) a None 0 s = Ok s' \<and> view_of s' = view_of s \<and>
    sent s' = sent s @ map (Pair fd) (put_lines user m) \<and>
    migrate_worker (Suc (length m)) (Suc k) fd' (user @ '','') (put_lines user m @ [msg_migrated]) t = Ok t' \<and>
    kv_wf t' \<and> files_of t' = (files_of t)(user \<mapsto> m) \<and>
    memory_used t' = memory_used t + int (bytes_of m)"
proof -
  obtain a where a: "oget (tablets s) user = Some a"
    using src(2) by (auto simp: files_of_def split: option.splits)
  with src have "resident user a m s" by (simp add: resident_def)
  from migrate_entries [OF this src(4)] obtain h where
    h: "file_loop n (migrate_entry n user fd) a None 0 s = Ok (moved h (map (Pair fd) (put_lines user m)) s)"
    and f: "files_of (moved h [] s) = files_of s" by blast
  let ?s = "moved h (map (Pair fd) (put_lines user m)) s"
  have "files_of ?s = files_of s" using f by (rule trans [OF moved_out(1)])
  then have v: "view_of ?s = view_of s" by (rule view_of_frame) (simp_all add: moved_def)
  define t0 where "t0 = send_msg fd' (''REQUEST '' @ user @ '','') t"
  have t0: "kv_wf t0" "empty_here t0 user (bytes_of m)" "files_of t0 = files_of t" "memory_used t0 = memory_used t"
    using dst by (simp_all add: t0_def empty_here_def room_def mem_room_def quota_room_def)
  have "osorted m" using src(1,2) by (rule kv_wf_files_sorted)
  then have app: "fold (\<lambda>(f, v). append_value f v) m [] = m" using fold_append_value [of "[]" m] by simp
  obtain t' where t': "foldr_res (\<lambda>(f, v). lru_put (Suc k) user f v fd' True 0) m t0 = Ok t'" "kv_wf t'"
    "memory_used t' = memory_used t0 + int (bytes_of m)" "files_of t' = (files_of t0)(user \<mapsto> m)"
    using migrated.put_many [OF t0(1,2), of k fd'] lines(1) app dst(2) t0(3) by auto
  have "migrate_worker (Suc (length m)) (Suc k) fd' (user @ '','') (put_lines user m @ [msg_migrated]) t = Ok t'"
    using migrate_loop_lines [of m user 1 "Suc k" fd' "[msg_migrated]" t0] lines(2) t'(1)
    by (simp add: migrate_worker_def t0_def migrate_loop_done del: migrate_loop.simps)
  then show ?thesis using a h v t' t0 by (intro exI [of _ a] exI [of _ ?s] exI [of _ t']) simp
qed

text \<open>The messages of a migration have no end mark: whatever else the same read returns after a
  line, the next lines and the end of the migration included, becomes part of the value of that
  file, and the loop goes on.\<close>

theorem merged_migration_lines:
  assumes "kv_wf t" and "oget (virmem_meta t) user = None" and "sane (Put user f v)" and "NUL \<notin> set rest"
    and "room t user (length (v @ rest))"
  shows "\<exists>t'. migrate_step (Suc k) fd (wire (Put user f v) @ rest) t = Ok (False, t') \<and>
    files_of t' = (files_of t)(user \<mapsto> append_value f (v @ rest) (files_list t user))"
proof -
  have "sane (Put user f (v @ rest))" using assms(3,4) by (simp add: sane_def)
  then have "migrate_step (Suc k) fd (wire (Put user f v) @ rest) t =
      rbind (lru_put (Suc k) user f (v @ rest) fd True 0 t) (\<lambda>s. Ok (False, s))"
    using migrate_step_put [of user f "v @ rest"] by simp
  then show ?thesis
    using put_migrated [of t user "v @ rest" k f fd] assms(1,2,5) by (auto simp: empty_here_def files_list_def)
qed

section \<open>Deleting the user from the old node\<close>

lemma log_and_send_cases:
  "(\<exists>t. log_and_send line u b s = Ok t \<and> heap t = heap s) \<or> log_and_send line u b s = Fail Undefined"
  by (auto simp: log_and_send_def write_log_def send_to_secondary_def i32_add_def Let_def)

lemma dele_leaves_node:
  assumes r: "resident user a m s" and f: "oget m f = Some v"
  shows "\<exists>t nd. lru_dele n user f fd seq b s = Ok t \<and> heap t a = Some nd \<and> nvalue nd = odel f m"
proof -
  obtain h where h: "get_helper (reload n fd) user f fd s = Ok (Some v, moved h [] s)"
    "resident user a m (moved h [] s)"
    using get_helper_file [OF r f] by blast
  define t where "t = (add_user_size user (- int (length v)) (moved h [] s))\<lparr>memory_used :=
    to_i32 (memory_used (moved h [] s) - int (length v))\<rparr>"
  have w: "kv_wf (moved h [] s)" "oget (tablets s) user = Some a" "files_of (moved h [] s) user = Some m"
    using h(2) by (simp_all add: resident_def)
  obtain nd where nd: "h a = Some nd" "nvalue nd = m"
    using kv_wf_node [OF w(1), of user a] w(2,3) by auto
  have "set_user_files user (odel f m) t = Ok (t\<lparr>heap := h(a \<mapsto> nd\<lparr>nvalue := odel f m\<rparr>)\<rparr>)"
    using nd w(2) by (simp add: set_user_files_def set_value_def t_def)
  then show ?thesis
    using h(1) nd w(2) f
    by (simp add: lru_dele_def user_files_def Let_def t_def oget_def_def split del: if_split) (simp split: if_split)
qed

lemma request_step:
  assumes "CHR '','' \<notin> set user" and "NUL \<notin> set user"
  shows "worker_step n fd (''REQUEST '' @ user @ '','') (q, s) =
    rbind (migrate_data n user fd s) (\<lambda>t. Ok (q \<or> fd \<noteq> secondary_fd s, send_msg fd msg_migrated t))"
proof -
  let ?l = "''REQUEST '' @ user @ '',''"
  have l: "c_str ?l = ?l" using assms(2) by (simp add: c_str_id)
  have "cut (CHR '' '') ?l = Some (''REQUEST'', user @ '','')"
    using cut_append [of "CHR '' ''" "''REQUEST''" "user @ '',''"] by simp
  moreover have "map lower ''REQUEST'' = ''request''" by code_simp
  ultimately have "parse_command ?l = Ok ''request''"
    unfolding parse_command_def l by simp
  moreover have "tokens (CHR '','') (user @ '','') = ([user], [])"
    using tokens_cons [of "CHR '',''" user "[]"] assms(1) by simp
  ultimately show ?thesis
    unfolding worker_step_def l data_migration_def
    by (simp add: Let_def rbind_assoc substr_from_def)
qed

text \<open>C28: A request to migrate a user in memory who has a file ends in undefined behaviour on the old
  node: after the lines have been sent, the loop that deletes the files erases the entry its
  iterator stands on.\<close>

theorem migration_deletes_undefined:
  assumes "kv_wf s" and "files_of s user = Some m" and "oget (virmem_meta s) user = None" and "length m < n"
    and "m \<noteq> []" and "\<And>f v. (f, v) \<in> set m \<Longrightarrow> sane (Dele user f)"
    and "CHR '','' \<notin> set user" and "NUL \<notin> set user"
  shows "worker_step n fd (''REQUEST '' @ user @ '','') (q, s) = Fail Undefined"
proof -
  obtain a where a: "oget (tablets s) user = Some a"
    using assms(2) by (auto simp: files_of_def split: option.splits)
  with assms have "resident user a m s" by (simp add: resident_def)
  from migrate_entries [OF this assms(4)] obtain s1 where
    s1: "file_loop n (migrate_entry n user fd) a None 0 s = Ok s1" "resident user a m s1" "tablets s1 = tablets s"
    using moved_out(2) by fastforce
  obtain f v r where m: "m = (f, v) # r" using assms(5) by (cases m) auto
  have f: "oget m f = Some v" by (simp add: m)
  obtain h where h: "get_helper (reload n fd) user f fd s1 = Ok (Some v, moved h [] s1)"
    "resident user a m (moved h [] s1)"
    using get_helper_file [OF s1(2) f] by blast
  obtain t nd where t: "lru_dele n user f fd 0 True (moved h [] s1) = Ok t" "heap t a = Some nd" "nvalue nd = odel f m"
    using dele_leaves_node [OF h(2) f] by blast
  have gone: "oget (odel f m) f = None"
    using kv_wf_files_sorted [OF assms(1,2)] by simp
  have "cs_dele n (''dele '' @ user @ '','' @ f @ crlf) True True fd 0 (moved h [] s1) =
      log_and_send (wire (Dele user f)) user True t"
    using assms(6) [of f v] t(1) chop_end_crlf [of f]
    by (simp add: cs_dele_def sane_def arguments_drop parse_line_args m del: chop_end_crlf)
  then have "delete_entry n user a fd f 0 s1 = Fail Undefined"
    using h(1) log_and_send_cases [of "wire (Dele user f)" user True t] t(2,3) gone
    by (auto simp: delete_entry_def)
  moreover obtain j where j: "n = Suc j" using assms(4) by (cases n) auto
  moreover have "\<exists>nd. heap s1 a = Some nd \<and> nvalue nd = m"
    using s1(2) kv_wf_node [of s1 user a] by (auto simp: resident_def)
  ultimately have "file_loop n (delete_entry n user a fd) a None 0 s1 = Fail Undefined"
    by (auto simp: next_entry_def m)
  then have "migrate_data n user fd s = Fail Undefined" using a s1 by (simp add: migrate_data_def)
  then show ?thesis unfolding request_step [OF assms(7,8)] by simp
qed

end
