(* ===== verification/Migration_Examples.thy ===== *)
theory Migration_Examples
  imports KV_Migration KV_Examples
begin

text \<open>
  The theorems on lists and migration at a concrete pair of nodes: \<open>pair_node\<close> holds the user \<open>ann\<close>
  with one file, \<open>small_node\<close> is empty.
\<close>

lemma pair_node_ann: "files_of pair_node ''ann'' = Some [(''f'', ''aa'')]"
  by (simp add: files_of_def pair_node_def contents_def head_addr_def tail_addr_def)

lemma sane_ann: "sane (Put ''ann'' ''f'' v)" if "NUL \<notin> set v"
  using that by (simp add: sane_def)

lemma small_node_room: "room small_node ''ann'' k" if "k < 10"
  using that by (simp add: room_def mem_room_def quota_room_def oget_def_def)

lemma small_node_files: "files_of small_node = (\<lambda>u. None)"
  by (simp add: files_of_def fun_eq_iff)

theorem getlist_answers_witness:
  "\<exists>t. lru_getlist 2 ''ann'' ''file'' 7 pair_node = Ok t \<and> kv_wf t \<and> view_of t = view_of pair_node \<and>
     sent t = sent pair_node @ [(7, msg_list), (7, ''f,aa,'')]"
  using getlist_answers [OF pair_node_wf pair_node_ann, of 2 "''file''" 7]
  by (simp add: listing_def is_email_def pair_node_def)

theorem migration_copies_user_witness:
  "\<exists>a s' t'. oget (tablets pair_node) ''ann'' = Some a \<and>
     file_loop 2 (migrate_entry 2 ''ann'' 7) a None 0 pair_node = Ok s' \<and>
     sent s' = sent pair_node @ [(7, ''put ann,f,aa'')] \<and>
     migrate_worker 2 1 4 ''ann,'' [''put ann,f,aa'', msg_migrated] small_node = Ok t' \<and>
     files_of t' = [''ann'' \<mapsto> [(''f'', ''aa'')]]"
  using migration_copies_user [OF pair_node_wf pair_node_ann, of 2 small_node 7 0 4] small_node_room [of 2]
  by (auto simp: sane_ann small_node_files numeral_2_eq_2 simp del: file_loop.simps)

text \<open>A line and the end of the migration in one read: the loop does not see the end.\<close>

theorem merged_migration_lines_witness:
  "\<exists>t'. migrate_step 1 4 (''put ann,f,ab'' @ msg_migrated) (small_node\<lparr>capacity := 100\<rparr>) = Ok (False, t') \<and>
     files_of t' ''ann'' = Some [(''f'', ''ab'' @ msg_migrated)]"
proof -
  let ?t = "small_node\<lparr>capacity := 100\<rparr>"
  have t: "kv_wf ?t" by (rule kv_wf_frame [of _ small_node]) simp_all
  have f: "files_of ?t = files_of small_node" by (rule files_of_frame) simp_all
  have l: "length msg_migrated = 16" "NUL \<notin> set msg_migrated" by code_simp+
  then have "room ?t ''ann'' (length (''ab'' @ msg_migrated))"
    by (simp add: room_def mem_room_def quota_room_def oget_def_def)
  from merged_migration_lines [where f = "''f''" and k = 0 and fd = 4, OF t _ _ l(2) this] show ?thesis
    by (auto simp: sane_ann f files_list_def small_node_files append_value_def oget_def_def)
qed

theorem migration_deletes_undefined_witness:
  "worker_step 2 7 ''REQUEST ann,'' (False, pair_node) = Fail Undefined"
  using migration_deletes_undefined [OF pair_node_wf pair_node_ann, of 2 7 False]
  by (simp add: sane_def)

end
