(* ===== verification/KV_Start.thy ===== *)
theory KV_Start
  imports KV_Restart Options
begin

text \<open>
  A storage node from its command line on: a brand new one (option \<open>-n\<close>), and one that is started
  again before it has taken a checkpoint.
\<close>

section \<open>What the start does to the files\<close>

lemma create_dir_other: "q \<noteq> d \<Longrightarrow> oget (create_dir d f) q = oget f q"
  by (simp add: create_dir_def)

lemma create_dir_root:
  "CHR ''/'' \<notin> set d \<Longrightarrow> oget f d = None \<or> oget f d = Some Dir \<Longrightarrow> oget (create_dir d f) d = Some Dir"
  by (auto simp: create_dir_def dirname_def dir_exists_def strip_slash_def)

lemma copy_dir_other: "\<not> in_dir b q \<Longrightarrow> oget (copy_dir a (b @ ''/'') f) q = oget f q"
proof -
  assume q: "\<not> in_dir b q"
  have "oget (fold (\<lambda>n g. snd (copy_file (a @ n) ((b @ ''/'') @ n) g)) ns f) q = oget f q"
    if "\<forall>n \<in> set ns. CHR ''/'' \<notin> set n" for ns f
    using that
  proof (induction ns arbitrary: f)
    case (Cons n ns)
    have "q \<noteq> (b @ ''/'') @ n" using q in_dirI [of n b] Cons.prems by auto
    then have "oget (snd (copy_file (a @ n) ((b @ ''/'') @ n) f)) q = oget f q"
      by (simp add: copy_file_def Let_def)
    then show ?case using Cons by simp
  qed simp
  moreover have "\<forall>n \<in> set (entries f a). CHR ''/'' \<notin> set n" by (auto simp: entries_def Let_def)
  ultimately show ?thesis by (simp add: copy_dir_def)
qed

text \<open>The directories of a node are no files, and there are no others.\<close>

definition startable :: "fsys \<Rightarrow> bool" where
  "startable f \<longleftrightarrow>
     (\<forall>d \<in> {META, CP, VM}. oget f d = None \<or> oget f d = Some Dir) \<and> oget f log_path \<noteq> Some Dir"

definition new_disk :: "fsys \<Rightarrow> fsys" where
  "new_disk f = clear_dir (META @ ''/'') (clear_dir (CP @ ''/'') (clear_dir (CVM @ ''/'') (clear_dir (VM @ ''/'')
     (create_dir META (create_dir CP (create_dir VM f))))))"

lemma new_disk:
  assumes "startable f"
  shows "oget (new_disk f) log_path = oget f log_path"
    and "d \<in> {META, CP, VM} \<Longrightarrow> oget (new_disk f) d = Some Dir"
    and "in_dir META p \<Longrightarrow> file_content (new_disk f) p = None"
proof -
  define g where "g = create_dir META (create_dir CP (create_dir VM f))"
  define h where "h = clear_dir (CP @ ''/'') (clear_dir (CVM @ ''/'') (clear_dir (VM @ ''/'') g))"
  have nd: "new_disk f = clear_dir (META @ ''/'') h" by (simp add: new_disk_def g_def h_def)
  have g: "oget g log_path = oget f log_path" "oget g META = Some Dir" "oget g CP = Some Dir" "oget g VM = Some Dir"
    using assms by (auto simp: g_def startable_def create_dir_other create_dir_root log_path_def)
  have root: "\<not> in_dir a q" if "q \<in> {META, CP, VM, log_path}" for a q
    using that by (auto simp: in_dir_dirname log_path_def)
  have h: "oget h q = oget g q" if "q \<in> {META, CP, VM, log_path}" for q
    using root [OF that] by (simp add: h_def clear_others)
  then show "oget (new_disk f) log_path = oget f log_path"
    "d \<in> {META, CP, VM} \<Longrightarrow> oget (new_disk f) d = Some Dir"
    using g root by (auto simp: nd clear_others)
  have "is_dir h META" using h g by (simp add: is_dir_def)
  from clear_dir_content [OF this, of p] show "in_dir META p \<Longrightarrow> file_content (new_disk f) p = None"
    by (simp add: nd)
qed

text \<open>The files of a node, apart from its log: rows, metadata and the last checkpoint.\<close>

definition data_file :: "string \<Rightarrow> bool" where
  "data_file p \<longleftrightarrow> in_dir META p \<or> in_dir CP p \<or> in_dir CVM p \<or> in_dir VM p"

lemma new_disk_files:
  assumes st: "startable f" and tree: "oget f CVM = Some Dir \<or> (\<forall>p. in_dir CVM p \<longrightarrow> file_content f p = None)"
  shows "data_file p \<Longrightarrow> file_content (new_disk f) p = None"
    and "\<not> data_file p \<Longrightarrow> p \<notin> {META, CP, VM} \<Longrightarrow> oget (new_disk f) p = oget f p"
proof -
  define g where "g = create_dir META (create_dir CP (create_dir VM f))"
  define a where "a = clear_dir (VM @ ''/'') g"
  define b where "b = clear_dir (CVM @ ''/'') a"
  define c where "c = clear_dir (CP @ ''/'') b"
  have nd: "new_disk f = clear_dir (META @ ''/'') c" by (simp add: new_disk_def g_def a_def b_def c_def)
  have g: "oget g META = Some Dir" "oget g CP = Some Dir" "oget g VM = Some Dir"
    using st by (auto simp: g_def startable_def create_dir_other create_dir_root)
  have gf: "oget g q = oget f q" if "q \<notin> {META, CP, VM}" for q
    using that by (simp add: g_def create_dir_other)
  have dirs: "oget b CP = Some Dir" "oget c META = Some Dir"
    using g by (simp_all add: a_def b_def c_def clear_others)
  have keep: "file_content (new_disk f) p = None" if "file_content b p = None" for p
    using that by (simp add: nd c_def clear_dir_keeps_none)
  have vm: "file_content a p = None" if "in_dir VM p" for p
    using that g(3) by (simp add: a_def clear_contents)
  have cvm: "file_content b p = None" if p: "in_dir CVM p" for p
  proof (cases "oget f CVM = Some Dir")
    case True
    then have "oget a CVM = Some Dir" by (simp add: a_def clear_others gf)
    then show ?thesis using p by (simp add: b_def clear_contents)
  next
    case False
    have "p \<notin> {META, CP, VM}" using p by auto
    then have "file_content g p = None" using False tree p gf [of p] by (simp add: file_content_def)
    then show ?thesis by (simp add: a_def b_def clear_dir_keeps_none)
  qed
  show "data_file p \<Longrightarrow> file_content (new_disk f) p = None"
    using dirs keep [of p] cvm [of p] vm [of p]
    by (auto simp: data_file_def nd c_def clear_contents b_def clear_dir_keeps_none)
  show "\<not> data_file p \<Longrightarrow> p \<notin> {META, CP, VM} \<Longrightarrow> oget (new_disk f) p = oget f p"
    by (simp add: data_file_def nd c_def b_def a_def clear_others gf)
qed

lemma initialization_new:
  "initialization n True s = Ok (initialize_chunk_info CP (initialize_chunk_info VM (s\<lparr>disk := new_disk (disk s)\<rparr>)))"
  by (simp add: initialization_def new_disk_def on_files_def Let_def)

section \<open>A brand new node\<close>

lemma empty_view_balanced: "files_of s = (\<lambda>u. None) \<Longrightarrow> memory_used s = 0 \<Longrightarrow> user_size s = [] \<Longrightarrow> 0 \<le> cap \<Longrightarrow>
   balanced cap (view_of s)"
  by (simp add: balanced_def files_in_def view_of_def oget_def_def)

lemma fresh_serving:
  assumes "oget f log_path \<noteq> Some Dir" and "0 \<le> cap" "cap < 2 ^ 31" and "int k < 2 ^ 31 - 1"
  shows "serving k ((init_kv cap csize)\<lparr>is_primary := p, disk := f, chunk_info := ci\<rparr>)"
proof -
  let ?s = "(init_kv cap csize)\<lparr>is_primary := p, disk := f, chunk_info := ci\<rparr>"
  have "kv_wf ?s" using kv_wf_init [of cap csize] by (intro kv_wf_frame [of ?s "init_kv cap csize"]) (simp_all add: kv_wf_def)
  moreover have "files_of ?s = (\<lambda>u. None)" by (simp add: files_of_def init_kv_def fun_eq_iff)
  then have "balanced cap (view_of ?s)" using assms(2) by (intro empty_view_balanced) (simp_all add: init_kv_def)
  ultimately show ?thesis
    using assms log_creatable by (simp add: serving_def next_seq_def init_kv_def oget_def_def)
qed

text \<open>C32: A storage node that is started as a new one (-n) with any accepted command line without -a,
  and whose registration the master answers, comes up with the identity the master gave, no data,
  the counters of its chunks at zero and its full memory, ready to serve requests. All files in its
  directories for rows, metadata and checkpoints are removed, and every other file, the log of an
  earlier run included, is as it was. The names of the directories must not be taken by files, nor
  that of the log by a directory.\<close>

theorem new_node_serves:
  assumes opts: "parse_arguments argv = Ok opts" "\<not> opt_a opts" "opt_n opts"
    and ident: "contact_master master (node_id opts) = Ok i" and d: "startable d" and k: "int k < 2 ^ 31 - 1"
    and tree: "oget d CVM = Some Dir \<or> (\<forall>p. in_dir CVM p \<longrightarrow> file_content d p = None)"
  shows "\<exists>s. start_node n master argv d = Ok (i, s) \<and> serving k s \<and> files_of s = (\<lambda>u. None) \<and>
    is_primary s = identity_primary i \<and> capacity s = MEMORY_CAPACITY \<and> memory_used s = 0 \<and>
    oget (chunk_info s) CP = Some [0, 0] \<and> oget (chunk_info s) VM = Some [0, 0] \<and>
    (\<forall>p. data_file p \<longrightarrow> file_content (disk s) p = None) \<and>
    (\<forall>p. \<not> data_file p \<longrightarrow> p \<notin> {META, CP, VM} \<longrightarrow> oget (disk s) p = oget d p) \<and>
    \<not> data_file log_path"
proof -
  let ?s = "(init_kv MEMORY_CAPACITY CHUNK_SIZE)\<lparr>is_primary := identity_primary i, disk := new_disk d,
    chunk_info := [(CP, [0, 0]), (VM, [0, 0])]\<rparr>"
  have "start_node n master argv d = Ok (i, ?s)"
    using opts ident
    by (simp add: start_node_def initialization_new initialize_chunk_info_def oget_def_def init_kv_def)
  moreover have "serving k ?s"
    using d new_disk(1) [OF d] k by (intro fresh_serving) (simp_all add: startable_def MEMORY_CAPACITY_def)
  moreover have "files_of ?s = (\<lambda>u. None)" by (simp add: files_of_def init_kv_def fun_eq_iff)
  moreover have "\<not> data_file log_path" by (simp add: data_file_def)
  ultimately show ?thesis using new_disk_files [OF d tree] by (intro exI [of _ ?s]) (simp add: init_kv_def)
qed

section \<open>Started again before the first checkpoint\<close>

lemma load_nothing:
  assumes "\<forall>p. in_dir META p \<longrightarrow> file_content (disk s) p = None" and "cp_meta s = []"
  shows "load_checkpointing n s = Ok (on_files (copy_dir ''checkpointing/virtual memory/'' ''virtual memory/'' \<circ>
           clear_dir ''virtual memory/'') s)"
proof -
  have "in_dir META (''metadata/'' @ x)" if "CHR ''/'' \<notin> set x" for x
    using in_dirI [OF that, of META] by simp
  from this [of "''cp_meta''"] this [of "''virmem_meta''"] this [of "''chunk_info''"] this [of "''user_size''"]
  have "file_content (disk s) ''metadata/cp_meta'' = None" "file_content (disk s) ''metadata/virmem_meta'' = None"
    "file_content (disk s) ''metadata/chunk_info'' = None" "file_content (disk s) ''metadata/user_size'' = None"
    using assms(1) by simp_all
  then show ?thesis
    using assms(2)
    by (simp add: load_checkpointing_def load_cp_vm_meta_def load_chunk_info_def load_user_size_def read_file_def
        parse_meta_def)
qed

text \<open>A node started as a new one that stops before its first checkpoint, and starts again.\<close>

lemma load_without_metadata:
  assumes meta: "\<forall>p. in_dir META p \<longrightarrow> file_content f p = None" and log: "oget f log_path \<noteq> Some Dir"
    and cap: "0 \<le> cap" "cap < 2 ^ 31"
  shows "\<exists>r. load_checkpointing n (fresh cap csize f) = Ok r \<and> serving 0 r \<and> capacity r = cap \<and> chunk_info r = [] \<and>
    view_of r = view_of (init_kv cap csize) \<and> log_of r = log_of (fresh cap csize f)"
proof -
  define r where "r = on_files (copy_dir ''checkpointing/virtual memory/'' ''virtual memory/'' \<circ>
           clear_dir ''virtual memory/'') (fresh cap csize f)"
  have load: "load_checkpointing n (fresh cap csize f) = Ok r"
    unfolding r_def using meta by (intro load_nothing) (simp_all add: fresh_def init_kv_def)
  have nolog: "\<not> in_dir VM log_path" by (simp add: in_dir_dirname log_path_def)
  have l: "oget (disk r) log_path = oget f log_path"
    using copy_dir_other [OF nolog] clear_dir_other [OF nolog] by (simp add: r_def on_files_def fresh_def)
  have e: "r = (init_kv cap csize)\<lparr>is_primary := False, disk := disk r, chunk_info := []\<rparr>"
    by (simp add: r_def on_files_def fresh_def init_kv_def)
  have "serving 0 r" by (subst e, rule fresh_serving) (use l log cap in simp_all)
  moreover have "view_of r = view_of (init_kv cap csize)"
    by (subst e, rule view_of_frame) (simp_all add: init_kv_def files_of_def fun_eq_iff)
  moreover have "capacity r = cap" "chunk_info r = []" by (subst e, simp add: init_kv_def)+
  moreover have "log_of r = log_of (fresh cap csize f)" using l by (simp add: log_of_def file_content_def fresh_def)
  ultimately show ?thesis using load by blast
qed

lemma new_node_stops:
  assumes d: "startable d" and start: "initialization k True (fresh cap csize d) = Ok s"
    and cap: "0 \<le> cap" "cap < 2 ^ 31" and len: "int (length rs) < 2 ^ 31 - 1"
    and w: "commands_within cap (map snd rs) (view_of s)"
  shows "view_of s = view_of (init_kv cap csize) \<and> log_of s = log_of (fresh cap csize d) \<and>
    (\<exists>t. serve (Suc n) rs s = Ok t \<and> serving 0 t \<and> view_of t = fold (view_step cap) (map snd rs) (view_of s) \<and>
      log_of t = log_of s @ concat (map wire (filter writes (map snd rs))) \<and>
      (\<forall>q \<in> {META, CP, VM}. oget (disk t) q = Some Dir) \<and> (\<forall>p. in_dir META p \<longrightarrow> file_content (disk t) p = None))"
proof -
  have s: "s = (init_kv cap csize)\<lparr>is_primary := False, disk := new_disk d, chunk_info := [(CP, [0, 0]), (VM, [0, 0])]\<rparr>"
    using start by (simp add: initialization_new fresh_def initialize_chunk_info_def oget_def_def init_kv_def)
  note nd = new_disk [OF d]
  have "serving (length rs) s"
    unfolding s using d nd(1) cap len by (intro fresh_serving) (simp_all add: startable_def)
  moreover have "capacity s = cap" by (simp add: s init_kv_def)
  ultimately obtain t where t: "serve (Suc n) rs s = Ok t" "serving 0 t" "only_log s t"
    "view_of t = fold (view_step cap) (map snd rs) (view_of s)"
    "log_of t = log_of s @ concat (map wire (filter writes (map snd rs)))"
    using serve_requests [of rs s n] w by auto
  have disk: "oget (disk t) p = oget (new_disk d) p" if "p \<noteq> log_path" for p
    using t(3) that by (simp add: only_log_def s)
  have "\<forall>q \<in> {META, CP, VM}. oget (disk t) q = Some Dir" using nd(2) disk by (auto simp: log_path_def)
  moreover have "file_content (disk t) p = None" if "in_dir META p" for p
    using nd(3) [OF that] disk [of p] that by (auto simp: file_content_def in_dir_def log_path_def)
  moreover have "view_of s = view_of (init_kv cap csize)"
    unfolding s by (rule view_of_frame) (simp_all add: init_kv_def files_of_def fun_eq_iff)
  moreover have "log_of s = log_of (fresh cap csize d)" using nd(1) by (simp add: s log_of_def fresh_def file_content_def)
  ultimately show ?thesis using t by blast
qed

text \<open>C34: The option -n does not remove the log of the run before it: a node that is started with -n,
  serves requests and is started again without a checkpoint in between executes the requests of the
  old run too, and its next checkpoint ends with an exception, because no chunk information was on
  disk.\<close>

theorem restart_before_checkpoint:
  assumes d: "startable d" and cap: "0 \<le> cap" "cap < 2 ^ 31" and len: "int (length rs) < 2 ^ 31 - 1"
    and start: "initialization k True (fresh cap csize d) = Ok s"
    and old: "log_of (fresh cap csize d) = concat (map wire old)"
    and w: "commands_within cap (map snd rs) (view_of s)"
    and w': "commands_within cap (old @ filter writes (map snd rs)) (view_of s)"
    and lines: "\<And>c. c \<in> set old \<Longrightarrow> loggable c" "\<And>c. c \<in> snd ` set rs \<Longrightarrow> writes c \<Longrightarrow> loggable c"
  shows "\<exists>t r. serve (Suc n) rs s = Ok t \<and> initialization (Suc n) False (fresh cap csize (disk t)) = Ok r \<and>
    view_of t = fold (view_step cap) (map snd rs) (view_of s) \<and>
    view_of r = fold (view_step cap) (old @ map snd rs) (view_of s) \<and>
    checkpointing r = Fail OutOfRange"
proof -
  let ?cs = "filter writes (map snd rs)"
  obtain t where v: "view_of s = view_of (init_kv cap csize)" and l: "log_of s = concat (map wire old)"
    and t: "serve (Suc n) rs s = Ok t" "serving 0 t" "view_of t = fold (view_step cap) (map snd rs) (view_of s)"
      "log_of t = log_of s @ concat (map wire ?cs)"
    and dirs: "\<forall>q \<in> {META, CP, VM}. oget (disk t) q = Some Dir"
    and meta: "\<forall>p. in_dir META p \<longrightarrow> file_content (disk t) p = None"
    using new_node_stops [OF d start cap len w, of n] old by metis
  have "oget (disk t) log_path \<noteq> Some Dir" using t(2) by (auto simp: serving_def can_create_def)
  then obtain r0 where r0: "load_checkpointing (Suc n) (fresh cap csize (disk t)) = Ok r0" "serving 0 r0" "capacity r0 = cap"
    "chunk_info r0 = []" "view_of r0 = view_of s" "log_of r0 = log_of (fresh cap csize (disk t))"
    using load_without_metadata [OF meta _ cap, of "Suc n" csize] v by auto
  have logs: "log_of r0 = concat (map wire (old @ ?cs))" using r0(6) t(4) l by (simp add: log_of_def fresh_def)
  have "commands_within (capacity r0) (old @ ?cs) (view_of r0)" using w' r0(3,5) by simp
  from restart_replays [OF dirs r0(1,2) this logs] lines
  obtain r where r: "initialization (Suc n) False (fresh cap csize (disk t)) = Ok r" "same_node r0 r"
    "view_of r = fold (view_step cap) (old @ ?cs) (view_of s)"
    unfolding r0(3,5) by auto
  have "checkpointing r = Fail OutOfRange"
    using r(2) r0(4) by (simp add: checkpointing_def Let_def info_at_def oget_def_def on_files_def same_node_def)
  then show ?thesis using t(1,3) r by (intro exI [of _ t] exI [of _ r]) (simp add: fold_writes)
qed

end
