(* ===== verification/Start_Examples.thy ===== *)
theory Start_Examples
  imports KV_Start
begin

text \<open>
  The start of a storage node with the command line of the \<open>README\<close>, and the restart of a node that
  was started as a new one on the disk of an old one.
\<close>

definition readme_args :: "string list" where
  "readme_args = [''-v'', ''-i'', ''20000'', ''-p'', ''2001'', ''-n'']"

definition readme_options :: kv_options where
  "readme_options = \<lparr>opt_a = False, opt_v = True, opt_n = True, node_id = 20000, port_number = 2001\<rparr>"

lemmas number_defs = atoi_def strtol_def read_digits_def is_space_def is_digit_def digit_value_def to_i32_def

lemma readme_numbers: "atoi ''20000'' = 20000" "atoi ''2001'' = 2001"
  by (simp_all add: number_defs Let_def)

lemma readme_parsed: "parse_arguments readme_args = Ok readme_options"
  by (simp add: parse_arguments_def readme_args_def readme_options_def kv_option_def default_options_def c_str_id
      readme_numbers)

theorem new_node_serves_witness:
  "\<exists>s. start_node 1 (\<lambda>_. ''P'') readme_args [] = Ok (Primary, s) \<and>
     serving 5 s \<and> is_primary s"
proof -
  have i: "contact_master (\<lambda>_. ''P'') (node_id readme_options) = Ok Primary"
    by (simp add: contact_master_def confirm_identity_def c_str_id)
  have o: "\<not> opt_a readme_options" "opt_n readme_options" by (simp_all add: readme_options_def)
  have d: "startable []" by code_simp
  have t: "oget ([] :: fsys) CVM = Some Dir \<or> (\<forall>p. in_dir CVM p \<longrightarrow> file_content [] p = None)"
    by (simp add: file_content_def)
  have k: "int 5 < 2 ^ 31 - 1" by simp
  obtain s where "start_node 1 (\<lambda>_. ''P'') readme_args [] = Ok (Primary, s)"
    "serving 5 s" "is_primary s = identity_primary Primary"
    using new_node_serves [OF readme_parsed o i d k t, of 1] by blast
  then show ?thesis by (intro exI [of _ s] conjI) (simp_all only: identity_primary_def identity.case)
qed

definition old_disk :: fsys where
  "old_disk = [(log_path, File (wire (Put ''ann'' ''f'' (''hi'' @ crlf))))]"

theorem restart_before_checkpoint_witness:
  "\<exists>s t r. initialization 1 True (fresh 100 100 old_disk) = Ok s \<and>
     serve 1 [(5, Put ''bob'' ''g'' (''yo'' @ crlf))] s = Ok t \<and>
     files_of t ''ann'' = None \<and>
     initialization 1 False (fresh 100 100 (disk t)) = Ok r \<and>
     files_of r ''ann'' = Some [(''f'', ''hi'' @ crlf)] \<and> checkpointing r = Fail OutOfRange"
proof -
  let ?a = "Put ''ann'' ''f'' (''hi'' @ crlf)" and ?b = "Put ''bob'' ''g'' (''yo'' @ crlf)"
  have d: "startable old_disk" by code_simp
  have old: "log_of (fresh 100 100 old_disk) = concat (map wire [?a])"
    by (simp add: log_of_def fresh_def old_disk_def file_content_def del: wire.simps)
  obtain s where s: "initialization 1 True (fresh 100 100 old_disk) = Ok s"
    by (simp add: initialization_new)
  have v: "view_of s = \<lparr>vfiles = (\<lambda>u. None), vused = 0, vquota = (\<lambda>u. 0)\<rparr>"
    using s by (auto simp: initialization_new initialize_chunk_info_def fresh_def init_kv_def view_of_def
        files_of_def fun_eq_iff oget_def_def)
  have l: "loggable ?a" "loggable ?b" "writes ?a" "writes ?b" by code_simp+
  have w: "commands_within 100 [?b] (view_of s)" "commands_within 100 ([?a] @ filter writes [?b]) (view_of s)"
    by (simp_all add: v sane_def view_step_def spec_put_def files_in_def put_files_def charge_def)
  from restart_before_checkpoint [OF d _ _ _ s old, of "[(5, ?b)]" 0] w l
  obtain t r where t: "serve 1 [(5, ?b)] s = Ok t" "initialization 1 False (fresh 100 100 (disk t)) = Ok r"
    "view_of t = fold (view_step 100) [?b] (view_of s)"
    "view_of r = fold (view_step 100) ([?a] @ [?b]) (view_of s)" "checkpointing r = Fail OutOfRange"
    by (auto simp del: wire.simps loggable.simps)
  have "vfiles (view_of t) ''ann'' = None" "vfiles (view_of r) ''ann'' = Some [(''f'', ''hi'' @ crlf)]"
    unfolding t(3,4)
    by (simp_all add: v view_step_def spec_put_def files_in_def put_files_def charge_def append_value_def oget_def_def)
  then have "files_of t ''ann'' = None" "files_of r ''ann'' = Some [(''f'', ''hi'' @ crlf)]"
    by (simp_all only: view_of_sel)
  then show ?thesis using s t(1,2,5) by (intro exI [of _ s] exI [of _ t] exI [of _ r] conjI)
qed

end
