(* ===== verification/Socket_IO.thy ===== *)
theory Socket_IO
  imports Cpp_String
begin

text \<open>
  The loops around \<open>read\<close> and \<open>write\<close> (\<open>do_read\<close> and \<open>do_write\<close> in \<open>frontend/utils.cc\<close>, \<open>dowrite\<close> in
  \<open>webmail/webmail_utils.cc\<close>). The other theories take a connection for the text that is still to be
  read from it, and a message for what was sent; here the system calls do as much as they like.

  \<^item> The coming results of \<open>read\<close> are a list of texts; the empty text is the end or an error. A call
    with less room than there are bytes leaves the rest.
  \<^item> The coming results of \<open>write\<close> are a list of integers, at most the length asked for, negative for
    an error. Zero is possible, and the loops then try again.
\<close>

section \<open>Reading\<close>

function do_read_loop :: "string list \<Rightarrow> nat \<Rightarrow> string \<times> string list" where
  "do_read_loop reads len =
     (if len = 0 then ([], reads)
      else case reads of
        [] \<Rightarrow> ([], [])
      | r # rs \<Rightarrow>
          if r = [] then ([], rs)
          else let n = take len r; rs = (if len < length r then drop len r # rs else rs);
                   (got, rs) = do_read_loop rs (len - length n)
               in (n @ got, rs))"
  by auto
termination
  by (relation "measure snd") auto

declare do_read_loop.simps [simp del]

lemma do_read_loop_end [simp]:
  "do_read_loop reads 0 = ([], reads)" "do_read_loop [] len = ([], [])"
  "0 < len \<Longrightarrow> do_read_loop ([] # rs) len = ([], rs)"
  by (simp_all add: do_read_loop.simps)

definition do_read_bytes :: "string list \<Rightarrow> nat \<Rightarrow> string \<times> string list" where
  "do_read_bytes reads len = do_read_loop reads len"

text \<open>The bytes up to the end of the connection.\<close>

definition stream_of :: "string list \<Rightarrow> string" where
  "stream_of reads = concat (takeWhile (\<lambda>r. r \<noteq> []) reads)"

lemma stream_simps [simp]:
  "stream_of [] = []" "stream_of ([] # rs) = []" "r \<noteq> [] \<Longrightarrow> stream_of (r # rs) = r @ stream_of rs"
  by (simp_all add: stream_of_def)

lemma do_read_loop_stream:
  "fst (do_read_loop reads len) = take len (stream_of reads) \<and>
   (len \<le> length (stream_of reads) \<longrightarrow> stream_of (snd (do_read_loop reads len)) = drop len (stream_of reads))"
proof (induction reads len rule: do_read_loop.induct)
  case (1 reads len)
  show ?case
  proof (cases "len = 0 \<or> reads = [] \<or> hd reads = []")
    case True
    then show ?thesis by (cases reads; cases len) auto
  next
    case False
    then obtain r rs where r: "reads = r # rs" "r \<noteq> []" "len \<noteq> 0" by (cases reads) auto
    define qs where "qs = (if len < length r then drop len r # rs else rs)"
    have ih: "fst (do_read_loop qs (len - length (take len r))) = take (len - length (take len r)) (stream_of qs) \<and>
       (len - length (take len r) \<le> length (stream_of qs) \<longrightarrow>
        stream_of (snd (do_read_loop qs (len - length (take len r)))) = drop (len - length (take len r)) (stream_of qs))"
      using 1 r by (simp add: qs_def)
    have e: "do_read_loop reads len = (take len r @ fst (do_read_loop qs (len - length (take len r))),
        snd (do_read_loop qs (len - length (take len r))))"
      using r by (subst do_read_loop.simps) (simp add: qs_def Let_def split_beta)
    show ?thesis
      using ih r unfolding e by (cases "len < length r") (auto simp: qs_def)
  qed
qed

text \<open>do_read.\<close>

theorem do_read_takes:
  "\<exists>rest. do_read_bytes reads len = (take len (stream_of reads), rest) \<and>
     (len \<le> length (stream_of reads) \<longrightarrow> stream_of rest = drop len (stream_of reads))"
  using do_read_loop_stream [of reads len]
  by (intro exI [of _ "snd (do_read_loop reads len)"]) (auto simp: do_read_bytes_def prod_eq_iff)

section \<open>Writing\<close>

text \<open>The result of the loop and the bytes that went out.\<close>

fun write_loop :: "int list \<Rightarrow> string \<Rightarrow> (bool \<times> string) res" where
  "write_loop writes data =
     (if data = [] then Ok (True, [])
      else case writes of
        [] \<Rightarrow> Fail OutOfFuel
      | n # ws \<Rightarrow>
          if n < 0 then Ok (False, [])
          else rbind (write_loop ws (drop (nat n) data)) (\<lambda>(ok, out). Ok (ok, take (nat n) data @ out)))"

declare write_loop.simps [simp del]

definition do_write :: "int list \<Rightarrow> string \<Rightarrow> (int \<times> string) res" where
  "do_write writes buf = rbind (write_loop writes buf) (\<lambda>(ok, out). Ok (if ok then 1 else 0, out))"

definition dowrite :: "int list \<Rightarrow> string \<Rightarrow> (bool \<times> string) res" where
  "dowrite writes buf = write_loop writes buf"

lemma write_loop_prefix: "write_loop writes data = Ok (ok, out) \<Longrightarrow> prefix out data \<and> (ok \<longleftrightarrow> out = data)"
proof (induction writes data arbitrary: ok out rule: write_loop.induct)
  case (1 writes data)
  show ?case
  proof (cases "data = [] \<or> writes = []")
    case True
    then show ?thesis using 1(2) write_loop.simps [of "[]" data] write_loop.simps [of writes "[]"] by (auto split: if_splits)
  next
    case False
    then obtain n ws where w: "writes = n # ws" by (cases writes) auto
    show ?thesis
    proof (cases "n < 0")
      case True
      then show ?thesis using 1(2) False w write_loop.simps [of "n # ws" data] by auto
    next
      case pos: False
      then obtain out' where o: "write_loop ws (drop (nat n) data) = Ok (ok, out')" "out = take (nat n) data @ out'"
        using 1(2) False w pos write_loop.simps [of "n # ws" data] by (auto simp: rbind_eq_Ok)
      have "prefix out' (drop (nat n) data) \<and> (ok \<longleftrightarrow> out' = drop (nat n) data)"
        using 1(1) [OF _ w pos o(1)] False by blast
      then show ?thesis unfolding o(2) by (metis append_take_drop_id same_append_eq same_prefix_prefix)
    qed
  qed
qed

lemma write_loop_all:
  "\<forall>n \<in> set writes. 0 < n \<Longrightarrow> length data \<le> length writes \<Longrightarrow> write_loop writes data = Ok (True, data)"
proof (induction writes data rule: write_loop.induct)
  case (1 writes data)
  show ?case
  proof (cases "data = []")
    case True
    then show ?thesis by (simp add: write_loop.simps)
  next
    case False
    then obtain n ws where w: "writes = n # ws" using 1(3) by (cases writes) auto
    then have n: "0 < n" using 1(2) by simp
    have "write_loop ws (drop (nat n) data) = Ok (True, drop (nat n) data)"
      using 1(1) [OF False w] n 1(2,3) w by (auto simp: Suc_le_eq)
    then show ?thesis using False w n by (subst write_loop.simps) simp
  qed
qed

text \<open>do_write.\<close>

theorem do_write_sends:
  "(do_write writes buf = Ok (r, out) \<longrightarrow> prefix out buf \<and> (r = 1 \<longleftrightarrow> out = buf)) \<and>
   ((\<forall>n \<in> set writes. 0 < n) \<and> length buf \<le> length writes \<longrightarrow>
    do_write writes buf = Ok (1, buf) \<and> dowrite writes buf = Ok (True, buf))"
  using write_loop_prefix [of writes buf] write_loop_all [of writes buf]
  by (auto simp: do_write_def dowrite_def rbind_eq_Ok split: if_splits)

text \<open>Seven bytes to be read, in three reads of which the last has more; five to be written, in two calls.\<close>

theorem do_write_sends_witness:
  "do_write [2, 9, 1, 1, 1] ''hello'' = Ok (1, ''hello'') \<and> do_write [2, - 1] ''hello'' = Ok (0, ''he'') \<and>
   prefix ''he'' ''hello''"
proof -
  have "do_write [2, - 1] ''hello'' = Ok (0, ''he'')" by code_simp
  with do_write_sends [of "[2, - 1]" "''hello''" 0 "''he''"] do_write_sends [of "[2, 9, 1, 1, 1]" "''hello''" 0 "[]"]
  show ?thesis by simp
qed

theorem do_read_takes_witness:
  "\<exists>rest. do_read_bytes [''ab'', ''cde'', ''fghi''] 7 = (''abcdefg'', rest) \<and> stream_of rest = ''hi''"
  using do_read_takes [of "[''ab'', ''cde'', ''fghi'']" 7] by auto

end
