(* ===== verification/KV_Threads.thy ===== *)
theory KV_Threads
  imports KV_Server Steps
begin

text \<open>
  The connections of the storage server (\<open>kvstore/kvstore.cc\<close>): the table \<open>active_threads\<close> of their
  descriptors with the number of worker threads, the accept loop that fills it, the end of a worker
  and the end of the process at Ctrl+C, which read it.

  \<^item> The table is a \<open>vector<int>\<close>: an access behind its end is undefined behaviour. Both loops over it
    stop at a descriptor zero.
  \<^item> The threads change it without a lock; the model has them one after the other, in any order.
  \<^item> The accept loop starts the thread of a connection first and records its descriptor afterwards:
    \<open>workers\<close> are the descriptors of the running threads, \<open>unrecorded\<close> the one the loop has still to
    record.
\<close>

section \<open>The table\<close>

record conns =
  active_threads :: "int list"
  thread_counter :: int
  workers :: "int list"
  unrecorded :: "int option"

definition no_conns :: conns where
  "no_conns = \<lparr>active_threads = [], thread_counter = 0, workers = [], unrecorded = None\<rparr>"

definition thread_at :: "int list \<Rightarrow> nat \<Rightarrow> int res" where
  "thread_at ts i = (if i < length ts then Ok (ts ! i) else Fail Undefined)"

definition start_worker :: "int \<Rightarrow> conns \<Rightarrow> conns" where
  "start_worker fd c = c\<lparr>workers := fd # workers c, unrecorded := Some fd\<rparr>"

definition record_thread :: "int \<Rightarrow> conns \<Rightarrow> conns" where
  "record_thread fd c =
     c\<lparr>active_threads := active_threads c @ [fd], thread_counter := thread_counter c + 1, unrecorded := None\<rparr>"

function active_thread_manager :: "int \<Rightarrow> nat \<Rightarrow> int list \<Rightarrow> int list res" where
  "active_thread_manager comm_fd i ts =
     rbind (thread_at ts i) (\<lambda>t.
     if t = 0 then Ok ts
     else if t = comm_fd then Ok (take i ts @ drop (Suc i) ts)
     else active_thread_manager comm_fd (Suc i) ts)"
  by auto
termination
  by (relation "measure (\<lambda>(fd, i, ts). length ts - i)") (auto simp: thread_at_def split: if_splits)

declare active_thread_manager.simps [simp del]

text \<open>The end of a worker thread.\<close>

definition end_worker :: "int \<Rightarrow> conns \<Rightarrow> conns res" where
  "end_worker comm_fd c =
     rbind (active_thread_manager comm_fd 0 (active_threads c)) (\<lambda>ts.
     Ok (c\<lparr>active_threads := ts, thread_counter := thread_counter c - 1, workers := remove1 comm_fd (workers c)\<rparr>))"

text \<open>Ctrl+C: what each connection is sent before the process ends.\<close>

definition exitmsg :: string where "exitmsg = ''-ERR Server shutting down'' @ crlf"

function sig_loop :: "nat \<Rightarrow> int list \<Rightarrow> (int \<times> string) list res" where
  "sig_loop i ts =
     rbind (thread_at ts i) (\<lambda>t.
     if t = 0 then Ok [] else rbind (sig_loop (Suc i) ts) (\<lambda>out. Ok ((t, exitmsg) # out)))"
  by auto
termination
  by (relation "measure (\<lambda>(i, ts). length ts - i)") (auto simp: thread_at_def split: if_splits)

declare sig_loop.simps [simp del]

definition sig_thread :: "conns \<Rightarrow> (int \<times> string) list res" where
  "sig_thread c = sig_loop 0 (active_threads c)"

section \<open>Looking for a descriptor\<close>

lemma thread_at_next: "thread_at (p @ t # ts) (length p) = Ok t" "thread_at p (length p) = Fail Undefined"
  by (simp_all add: thread_at_def)

lemma manager_from:
  "0 \<notin> set ts \<Longrightarrow> active_thread_manager fd (length p) (p @ ts) =
    (if fd \<in> set ts then Ok (p @ remove1 fd ts) else Fail Undefined)"
proof (induction ts arbitrary: p)
  case Nil
  then show ?case by (subst active_thread_manager.simps) (simp add: thread_at_next)
next
  case (Cons t ts)
  then show ?case
    using Cons.IH [of "p @ [t]"] by (subst active_thread_manager.simps) (auto simp: thread_at_next)
qed

lemmas manager_erases = manager_from [where p = "[]", simplified]

lemma sig_loop_undefined: "0 \<notin> set ts \<Longrightarrow> sig_loop (length p) (p @ ts) = Fail Undefined"
proof (induction ts arbitrary: p)
  case Nil
  then show ?case by (subst sig_loop.simps) (simp add: thread_at_next)
next
  case (Cons t ts)
  then show ?case
    using Cons.IH [of "p @ [t]"] by (subst sig_loop.simps) (auto simp: thread_at_next)
qed

section \<open>Runs\<close>

text \<open>
  A descriptor that \<open>accept\<close> returns is positive and is none of those that are open. A worker may end
  before its descriptor is recorded; when \<open>end_worker\<close> fails there is no further step.
\<close>

inductive conn_step :: "conns \<Rightarrow> conns \<Rightarrow> bool" where
  connect: "unrecorded c = None \<Longrightarrow> 0 < fd \<Longrightarrow> fd \<notin> set (workers c) \<Longrightarrow> conn_step c (start_worker fd c)"
| recorded: "unrecorded c = Some fd \<Longrightarrow> conn_step c (record_thread fd c)"
| quit: "fd \<in> set (workers c) \<Longrightarrow> end_worker fd c = Ok d \<Longrightarrow> conn_step c d"

inductive_cases conn_stepE [consumes 1, case_names connect recorded quit]: "conn_step c d"

definition conns_ok :: "conns \<Rightarrow> bool" where
  "conns_ok c \<longleftrightarrow> distinct (active_threads c) \<and> (\<forall>t \<in> set (workers c). 0 < t) \<and> distinct (workers c) \<and>
     set (workers c) = set (active_threads c) \<union> set_option (unrecorded c) \<and>
     set (active_threads c) \<inter> set_option (unrecorded c) = {} \<and>
     thread_counter c = int (length (active_threads c))"

lemma conns_okD: "conns_ok c \<Longrightarrow> 0 \<notin> set (active_threads c)"
  by (auto simp: conns_ok_def)

lemma end_worker_cases:
  assumes "conns_ok c"
  shows "end_worker fd c =
    (if fd \<in> set (active_threads c)
     then Ok (c\<lparr>active_threads := remove1 fd (active_threads c), thread_counter := thread_counter c - 1,
                workers := remove1 fd (workers c)\<rparr>)
     else Fail Undefined)"
  using manager_erases [of "active_threads c" fd] conns_okD [OF assms] by (simp add: end_worker_def)

lemma remove1_counter: "x \<in> set xs \<Longrightarrow> int (length (remove1 x xs)) = int (length xs) - 1"
  by (induction xs) auto

interpretation conn: invariant_steps conn_step conns_ok
proof unfold_locales
  fix c d assume ok: "conns_ok c" and "conn_step c d"
  from this(2) show "conns_ok d"
  proof (cases rule: conn_stepE)
    case (connect fd)
    then show ?thesis using ok by (auto simp: conns_ok_def start_worker_def)
  next
    case (recorded fd)
    then show ?thesis using ok by (auto simp: conns_ok_def record_thread_def)
  next
    case (quit fd)
    then show ?thesis
      using ok unfolding end_worker_cases [OF ok]
      by (auto simp: conns_ok_def remove1_counter split: if_splits)
  qed
qed

lemma no_conns_ok: "conns_ok no_conns"
  by (simp add: no_conns_def conns_ok_def)

text \<open>C33: In whatever order connections open, are recorded by the accept loop and end, the counter of
  the threads is the length of the table of the descriptors, and the table holds the descriptors of
  all running threads but the one the loop has not recorded yet. The end of a worker that is
  recorded removes its descriptor and no other, and lowers the counter by one; the end of a worker
  that is not recorded yet reads behind the end of the table.\<close>

theorem threads_tracked:
  assumes "conn_step\<^sup>*\<^sup>* no_conns c" and "fd \<in> set (workers c)"
  shows "thread_counter c = int (length (active_threads c)) \<and>
    set (workers c) = set (active_threads c) \<union> set_option (unrecorded c) \<and>
    (unrecorded c \<noteq> Some fd \<longrightarrow>
      (\<exists>d. end_worker fd c = Ok d \<and> active_threads d = remove1 fd (active_threads c) \<and>
         thread_counter d = int (length (active_threads d)) \<and> workers d = remove1 fd (workers c))) \<and>
    (unrecorded c = Some fd \<longrightarrow> end_worker fd c = Fail Undefined)"
proof -
  have ok: "conns_ok c" by (rule conn.steps_ok [OF assms(1) no_conns_ok])
  then have "unrecorded c \<noteq> Some fd \<longleftrightarrow> fd \<in> set (active_threads c)"
    using assms(2) by (auto simp: conns_ok_def)
  then show ?thesis
    using end_worker_cases [OF ok, of fd] ok by (auto simp: conns_ok_def remove1_counter)
qed

text \<open>Reading behind the table.\<close>

text \<open>Both loops over the table of the descriptors stop only at a zero, which the table never
  holds: Ctrl+C, and the end of a worker whose descriptor is not recorded yet, read behind its end.\<close>

theorem threads_read_past_end:
  assumes "conn_step\<^sup>*\<^sup>* no_conns c"
  shows "sig_thread c = Fail Undefined \<and> (fd \<notin> set (active_threads c) \<longrightarrow> end_worker fd c = Fail Undefined)"
proof -
  have "0 \<notin> set (active_threads c)" using conns_okD [OF conn.steps_ok [OF assms no_conns_ok]] .
  then show ?thesis
    using sig_loop_undefined [of "active_threads c" "[]"] manager_erases [of "active_threads c" fd]
    by (simp add: sig_thread_def end_worker_def)
qed

definition two_conns :: conns where
  "two_conns = \<lparr>active_threads = [4], thread_counter = 1, workers = [5, 4], unrecorded = Some 5\<rparr>"

lemma two_connections: "conn_step\<^sup>*\<^sup>* no_conns two_conns"
proof -
  let ?a = "start_worker 4 no_conns"
  let ?b = "record_thread 4 ?a"
  have "conn_step no_conns ?a" by (rule connect) (simp_all add: no_conns_def)
  moreover have "conn_step ?a ?b" by (rule recorded) (simp add: start_worker_def)
  moreover have "conn_step ?b (start_worker 5 ?b)"
    by (rule connect) (simp_all add: start_worker_def record_thread_def no_conns_def)
  moreover have "start_worker 5 ?b = two_conns"
    by (simp add: start_worker_def record_thread_def no_conns_def two_conns_def)
  ultimately show ?thesis by (metis converse_rtranclp_into_rtranclp rtranclp.rtrancl_refl)
qed

theorem threads_tracked_witness:
  "(\<exists>d. end_worker 4 two_conns = Ok d \<and> active_threads d = [] \<and> thread_counter d = 0) \<and>
    end_worker 5 two_conns = Fail Undefined"
  using threads_tracked [OF two_connections, of 4] threads_tracked [OF two_connections, of 5]
  by (auto simp: two_conns_def)

theorem threads_read_past_end_witness:
  "sig_thread two_conns = Fail Undefined \<and> end_worker 6 two_conns = Fail Undefined"
  using threads_read_past_end [OF two_connections, of 6] by (simp add: two_conns_def)

end
