(* ===== verification/Mail_Queue.thy ===== *)
theory Mail_Queue
  imports Mail_Delivery
begin

text \<open>
  The program that empties the mail queue (\<open>webmail/webmail_deliver.cc\<close>), and the test client of the
  mail server (\<open>webmail/webmail_client.cc\<close>).

  \<^item> \<open>remote\<close> is the parameter of the mail server: it finds a mail host in the DNS, connects, and
    gives what the host sends; a failure there ends the process. \<open>Mail_Dns\<close> spells it out.
  \<^item> The fields of \<open>MsgQueue\<close> are never read; the model keeps the accesses that leave the array.
\<close>

section \<open>The queue\<close>

definition MAX_QUEUE :: nat where "MAX_QUEUE = 1000"

definition starts_mail :: "string \<Rightarrow> bool" where
  "starts_mail line \<longleftrightarrow> take 5 line = ''From:''"

text \<open>The first loop, with the number of mails so far; the last mail goes into its place behind the loop.\<close>

fun count_mails :: "nat \<Rightarrow> string list \<Rightarrow> nat res" where
  "count_mails i [] = (if i = 0 \<or> i > MAX_QUEUE then Fail Undefined else Ok i)"
| "count_mails i (line # ls) =
     (if starts_mail line then
        (if i > MAX_QUEUE then Fail Undefined else count_mails (Suc i) ls)
      else count_mails i ls)"

section \<open>One mail to one host\<close>

text \<open>The dialogue is fixed: sender, recipient and text are those of the program.\<close>

definition sample_lines :: "string list" where
  "sample_lines =
     [''From: Benjamin Franklin <atrueworld@localhost.com>'' @ crlf, ''To: Mengjin <mengjin@seas.upenn.edu>'' @ crlf,
      ''Date: Wed Dec 28 06:47:03 2016 EST'' @ crlf, ''Subject: Testing my new email account'' @ crlf, crlf,
      ''Linh,'' @ crlf, crlf, ''I just wanted to see whether my new email account works.'' @ crlf, crlf,
      ''        - Ben'' @ crlf]"

text \<open>The commands before the text, with the answers expected.\<close>

definition sample_commands :: "(string \<times> string) list" where
  "sample_commands =
     [(''HELO tester'' @ crlf, ''250 localhost''), (''MAIL FROM:<atrueworld@localhost.com>'' @ crlf, ''250 OK''),
      (''RCPT TO:<mengjin@seas.upenn.edu>'' @ crlf, ''250 OK''), (''DATA'' @ crlf, ''354 *'')]"

definition sample_dialogue :: "connection \<Rightarrow> connection res" where
  "sample_dialogue c =
     rbind (expect_to_read ''220 localhost *'' c) (\<lambda>(_, c).
     rbind (foldr_res (\<lambda>(t, expected). say_line t expected) sample_commands (expect_no_more_data c)) (\<lambda>c.
     rbind (say_line (''.'' @ crlf) ''250 OK'' (expect_no_more_data (fold write_string sample_lines c))) (\<lambda>c.
     rbind (expect_to_read ''221 *'' (write_string (''QUIT'' @ crlf) c)) (\<lambda>(_, c).
     Ok (expect_remote_close c)))))"

section \<open>The deliveries\<close>

definition host_of :: "string \<Rightarrow> string" where
  "host_of rcvr = (case cut (CHR ''@'') rcvr of None \<Rightarrow> rcvr | Some (_, h) \<Rightarrow> h)"

text \<open>The result of a delivery is the host and the bytes sent to it.\<close>

definition deliver_to :: "(string \<Rightarrow> string list res) \<Rightarrow> string \<Rightarrow> (string \<times> string) list \<Rightarrow> (string \<times> string) list res" where
  "deliver_to remote rcvr sent =
     rbind (remote (c_str (host_of rcvr))) (\<lambda>input.
     rbind (sample_dialogue (initialize_buffers BUFFER_SIZE input)) (\<lambda>c.
     Ok (sent @ [(host_of rcvr, written c)])))"

text \<open>A line between the first and the thirteenth: its recipients, in two nested loops over the set.\<close>

definition deliver_line :: "(string \<Rightarrow> string list res) \<Rightarrow> string \<Rightarrow> (string \<times> string) list \<Rightarrow> (string \<times> string) list res" where
  "deliver_line remote line sent =
     (if take 3 line = ''To:'' then
        rbind (rcvrs_of line) (\<lambda>rs.
        let rcvr_list = oset_list (fold oset_add rs []) in
        foldr_res (\<lambda>j. foldr_res (deliver_to remote) rcvr_list) [0 ..< length rcvr_list] sent)
      else Ok sent)"

definition deliver_queue :: "(string \<Rightarrow> string list res) \<Rightarrow> string list \<Rightarrow> nat \<Rightarrow> (string \<times> string) list res" where
  "deliver_queue remote lines max_msg =
     foldr_res (\<lambda>i. foldr_res (deliver_line remote) (take 11 (drop 1 lines))) [0 ..< max_msg] []"

definition webmail_deliver :: "(string \<Rightarrow> string list res) \<Rightarrow> fsys \<Rightarrow> (string \<times> string) list res" where
  "webmail_deliver remote f =
     (let lines = getlines LF (get_file_content_as_string ''mqueue'' f) in
      rbind (count_mails 0 lines) (deliver_queue remote lines))"

section \<open>The test client\<close>

definition client_mail :: string where
  "client_mail =
     ''Send'' @ crlf @ ''From: Benjamin Franklin <benjamin.franklin@localhost.com>'' @ crlf @
     ''To: Mengjin <mengjin@seas.upenn.edu>'' @ crlf @ ''Date: Fri, 21 Oct 2016 18:29:11 -0400'' @ crlf @
     ''Subject: Testing my new email account'' @ crlf @ ''Mengjin,'' @ crlf @
     ''I just wanted to see whether my new email account works.'' @ crlf @ ''            - Ben'' @ crlf @ ''.'' @ crlf"

definition webmail_client :: "string list \<Rightarrow> connection res" where
  "webmail_client input =
     rbind (do_read (initialize_buffers 5000 input)) (\<lambda>c.
     rbind (do_read (write_string client_mail (expect_no_more_data c))) (\<lambda>c.
     rbind (do_read (write_string (''QUIT'' @ crlf) (expect_no_more_data c))) (\<lambda>c.
     Ok (expect_remote_close c))))"

section \<open>A host that answers\<close>

text \<open>A reply that arrives in one read, after which nothing comes until the next command.\<close>

definition reply_reads :: "string \<Rightarrow> string list" where
  "reply_reads l = [l @ crlf, []]"

definition reply_ok :: "string \<Rightarrow> bool" where
  "reply_ok l \<longleftrightarrow> LF \<notin> set l \<and> length l < 1000"

definition waiting :: "connection \<Rightarrow> bool" where
  "waiting c \<longleftrightarrow> buf c = [] \<and> buffer_size c = BUFFER_SIZE"

lemma waiting_write [simp]: "waiting (write_string t c) = waiting c" "pending (write_string t c) = pending c"
  by (simp_all add: waiting_def write_string_def)

lemma written_write: "NUL \<notin> set t \<Longrightarrow> written (write_string t c) = written c @ t"
  by (simp add: write_string_def c_str_id)

lemma fill_reply:
  assumes "waiting c" and "pending c = (l @ crlf) # ps" and "reply_ok l"
  shows "fill c = Ok (c\<lparr>buf := l @ crlf, pending := ps\<rparr>)"
proof -
  have "read_some BUFFER_SIZE c = (l @ crlf, c\<lparr>pending := ps\<rparr>)"
    using assms by (auto simp: read_some_def reply_ok_def BUFFER_SIZE_def)
  then show ?thesis
    using assms by (subst fill.simps) (simp add: waiting_def fill.simps [of "_\<lparr>buf := _\<rparr>"] BUFFER_SIZE_def)
qed

lemma expect_reply:
  assumes "waiting c" and "pending c = (l @ crlf) # ps" and "reply_ok l"
  shows "\<exists>b d. expect_to_read data c = Ok (b, d) \<and> waiting d \<and> pending d = ps \<and> written d = written c"
proof -
  have "cut LF (l @ crlf) = Some (l @ [CR], [])"
    using assms(3) cut_append [of LF "l @ [CR]" "[]"] by (simp add: reply_ok_def)
  then have "first_line (l @ crlf) = (l, True, [])" by (simp add: first_line_def)
  then show ?thesis
    using assms(1) by (simp add: expect_to_read_def fill_reply [OF assms] Let_def waiting_def)
qed

lemma nothing_more:
  assumes "waiting c" and "pending c = [] # ps"
  shows "waiting (expect_no_more_data c) \<and> pending (expect_no_more_data c) = ps \<and>
    written (expect_no_more_data c) = written c \<and> written (expect_remote_close c) = written c"
  using assms by (simp add: waiting_def expect_no_more_data_def expect_remote_close_def read_some_def)

lemma say_reply:
  assumes "waiting c" and "pending c = reply_reads l @ ps" and "reply_ok l" and "NUL \<notin> set t"
  shows "\<exists>d. say_line t data c = Ok d \<and> waiting d \<and> pending d = ps \<and> written d = written c @ t"
proof -
  obtain b d where "expect_to_read data (write_string t c) = Ok (b, d)" "waiting d" "pending d = [] # ps"
    "written d = written c @ t"
    using expect_reply [of "write_string t c" l "[] # ps" data] assms by (auto simp: reply_reads_def written_write)
  then show ?thesis using nothing_more [of d ps] by (simp add: say_line_def)
qed

lemma commands_reply:
  "waiting c \<Longrightarrow> pending c = concat (map reply_reads ls) @ ps \<Longrightarrow> \<forall>l \<in> set ls. reply_ok l \<Longrightarrow>
    length ls = length ts \<Longrightarrow> \<forall>t \<in> set ts. NUL \<notin> set (fst t) \<Longrightarrow>
    \<exists>d. foldr_res (\<lambda>(t, expected). say_line t expected) ts c = Ok d \<and> waiting d \<and> pending d = ps \<and>
      written d = written c @ concat (map fst ts)"
proof (induction ts arbitrary: c ls)
  case (Cons t ts)
  then obtain l ls' where ls: "ls = l # ls'" by (cases ls) auto
  obtain d where d: "say_line (fst t) (snd t) c = Ok d" "waiting d" "pending d = concat (map reply_reads ls') @ ps"
    "written d = written c @ fst t"
    using say_reply [of c l "concat (map reply_reads ls') @ ps" "fst t" "snd t"] Cons.prems ls by auto
  then show ?case using Cons.IH [of d ls'] Cons.prems ls by (auto simp: split_beta)
qed simp

lemma written_lines:
  "\<forall>t \<in> set ts. NUL \<notin> set t \<Longrightarrow> written (fold write_string ts c) = written c @ concat ts"
  "waiting (fold write_string ts c) = waiting c" "pending (fold write_string ts c) = pending c"
  by (induction ts arbitrary: c) (simp_all add: written_write)

lemma dialogue_reply:
  assumes "waiting c" and "pending c = reply_reads l @ concat (map reply_reads ls) @ [] # reply_reads m @ reply_reads n"
    and "\<forall>x \<in> set (l # m # n # ls). reply_ok x" and "length ls = length ts"
    and "\<forall>t \<in> set ts. NUL \<notin> set (fst t)" "\<forall>t \<in> set (dot # quit # xs). NUL \<notin> set t"
  shows "\<exists>d. rbind (expect_to_read e c) (\<lambda>(_, c).
     rbind (foldr_res (\<lambda>(t, expected). say_line t expected) ts (expect_no_more_data c)) (\<lambda>c.
     rbind (say_line dot e' (expect_no_more_data (fold write_string xs c))) (\<lambda>c.
     rbind (expect_to_read e'' (write_string quit c)) (\<lambda>(_, c). Ok (expect_remote_close c))))) = Ok d \<and>
    written d = written c @ concat (map fst ts) @ concat xs @ dot @ quit"
proof -
  have ok: "reply_ok l" "reply_ok m" "reply_ok n" "\<forall>x \<in> set ls. reply_ok x" using assms(3) by simp_all
  have p: "pending c = (l @ crlf) # [] # concat (map reply_reads ls) @ [] # reply_reads m @ reply_reads n"
    using assms(2) by (simp add: reply_reads_def)
  obtain b c1 where c1: "expect_to_read e c = Ok (b, c1)" "waiting c1" "written c1 = written c"
    "pending c1 = [] # concat (map reply_reads ls) @ [] # reply_reads m @ reply_reads n"
    using expect_reply [OF assms(1) p ok(1), of e] by blast
  note n1 = nothing_more [OF c1(2,4)]
  obtain c2 where c2: "foldr_res (\<lambda>(t, expected). say_line t expected) ts (expect_no_more_data c1) = Ok c2" "waiting c2"
    "pending c2 = [] # reply_reads m @ reply_reads n" "written c2 = written c @ concat (map fst ts)"
    using commands_reply [of "expect_no_more_data c1" ls "[] # reply_reads m @ reply_reads n" ts] n1 assms(4,5) ok(4) c1(3) by auto
  let ?d = "fold write_string xs c2"
  have d: "waiting ?d" "pending ?d = [] # reply_reads m @ reply_reads n" "written ?d = written c2 @ concat xs"
    using c2 assms(6) by (simp_all add: written_lines)
  note n2 = nothing_more [OF d(1,2)]
  obtain c3 where c3: "say_line dot e' (expect_no_more_data ?d) = Ok c3" "waiting c3"
    "written c3 = written ?d @ dot" "pending c3 = reply_reads n"
    using say_reply [of "expect_no_more_data ?d" m "reply_reads n" dot e'] n2 assms(6) ok(2) by auto
  obtain b' c4 where c4: "expect_to_read e'' (write_string quit c3) = Ok (b', c4)" "waiting c4"
    "written c4 = written c3 @ quit" "pending c4 = [[]]"
    using expect_reply [of "write_string quit c3" n "[[]]" e''] c3(2,4) assms(6) ok(3)
    by (auto simp: reply_reads_def written_write)
  show ?thesis
    using nothing_more [OF c4(2,4)] c1(1) c2(1,4) c3(1,3) c4(1,3) d(3) by simp
qed

text \<open>What a whole dialogue sends, and what a host answers to it.\<close>

definition sample_sent :: string where
  "sample_sent = concat (map fst sample_commands) @ concat sample_lines @ (''.'' @ crlf) @ (''QUIT'' @ crlf)"

definition answers :: "string \<Rightarrow> string list \<Rightarrow> string \<Rightarrow> string \<Rightarrow> string list" where
  "answers l ls m n = reply_reads l @ concat (map reply_reads ls) @ [] # reply_reads m @ reply_reads n"

definition host_answers :: "string list \<Rightarrow> bool" where
  "host_answers input \<longleftrightarrow>
     (\<exists>l ls m n. length ls = 4 \<and> (\<forall>x \<in> set (l # m # n # ls). reply_ok x) \<and> input = answers l ls m n)"

lemma sample_dialogue_sends:
  assumes "host_answers input"
  shows "\<exists>c. sample_dialogue (initialize_buffers BUFFER_SIZE input) = Ok c \<and> written c = sample_sent"
proof -
  obtain l ls m n where ls: "length ls = 4" "\<forall>x \<in> set (l # m # n # ls). reply_ok x" and input: "input = answers l ls m n"
    using assms unfolding host_answers_def by blast
  let ?c = "initialize_buffers BUFFER_SIZE input"
  have c: "waiting ?c" "pending ?c = reply_reads l @ concat (map reply_reads ls) @ [] # reply_reads m @ reply_reads n"
    "written ?c = []" by (simp_all add: waiting_def initialize_buffers_def input answers_def)
  have t: "length ls = length sample_commands" "\<forall>t \<in> set sample_commands. NUL \<notin> set (fst t)"
    "\<forall>t \<in> set ((''.'' @ crlf) # (''QUIT'' @ crlf) # sample_lines). NUL \<notin> set t"
    using ls(1) by (simp_all add: sample_commands_def sample_lines_def)
  show ?thesis
    unfolding sample_dialogue_def sample_sent_def
    by (rule dialogue_reply [OF c(1,2) ls(2) t, unfolded c(3) append_Nil])
qed

section \<open>The whole queue\<close>

lemma foldr_res_appends:
  "(\<And>x s. x \<in> set xs \<Longrightarrow> f x s = Ok (s @ g x)) \<Longrightarrow> foldr_res f xs s = Ok (s @ concat (map g xs))"
  by (induction xs arbitrary: s) simp_all

lemma count_mails_ok:
  "0 < i + length (filter starts_mail ls) \<Longrightarrow> i + length (filter starts_mail ls) \<le> MAX_QUEUE \<Longrightarrow>
    count_mails i ls = Ok (i + length (filter starts_mail ls))"
  by (induction i ls rule: count_mails.induct) auto

lemma count_mails_outside:
  "i + length (filter starts_mail ls) = 0 \<or> MAX_QUEUE < i + length (filter starts_mail ls) \<Longrightarrow>
    count_mails i ls = Fail Undefined"
  by (induction i ls rule: count_mails.induct) (auto simp: MAX_QUEUE_def)

lemma oset_of_list:
  fixes rs :: "'a::linorder list"
  shows "oset_list (fold oset_add rs []) = sorted_list_of_set (set rs)"
proof -
  have "osorted (fold oset_add rs m) \<and> set (oset_list (fold oset_add rs m)) = set rs \<union> set (oset_list m)"
    if "osorted m" for m
    using that by (induction rs arbitrary: m) simp_all
  from this [of "[]"] have "sorted_wrt (<) (oset_list (fold oset_add rs []))" "set (oset_list (fold oset_add rs [])) = set rs"
    by (simp_all add: osorted_def okeys_def)
  then show ?thesis by (metis strict_sorted_equal sorted_list_of_set.set_sorted_key_list_of_set List.finite_set
      sorted_list_of_set.strict_sorted_key_list_of_set)
qed

text \<open>What one line of the queue should send: the sample, to each of its recipients, once for each of them.\<close>

definition mails_of_line :: "(string \<Rightarrow> string list) \<Rightarrow> string \<Rightarrow> (string \<times> string) list" where
  "mails_of_line rs line =
     (if take 3 line = ''To:'' then
        concat (replicate (card (set (rs line)))
          (map (\<lambda>r. (host_of r, sample_sent)) (sorted_list_of_set (set (rs line)))))
      else [])"

lemma deliver_to_sends:
  assumes "\<And>h. \<exists>input. remote h = Ok input \<and> host_answers input"
  shows "deliver_to remote r sent = Ok (sent @ [(host_of r, sample_sent)])"
proof -
  obtain input where "remote (c_str (host_of r)) = Ok input" "host_answers input" using assms by blast
  then show ?thesis using sample_dialogue_sends [of input] by (auto simp: deliver_to_def)
qed

lemma deliver_line_sends:
  assumes "\<And>h. \<exists>input. remote h = Ok input \<and> host_answers input"
    and "take 3 line = ''To:'' \<longrightarrow> rcvrs_of line = Ok (rs line)"
  shows "deliver_line remote line sent = Ok (sent @ mails_of_line rs line)"
proof (cases "take 3 line = ''To:''")
  case True
  let ?l = "sorted_list_of_set (set (rs line))"
  have each: "foldr_res (deliver_to remote) ?l s = Ok (s @ concat (map (\<lambda>r. [(host_of r, sample_sent)]) ?l))" for s
    by (rule foldr_res_appends) (rule deliver_to_sends [OF assms(1)])
  have "foldr_res (\<lambda>j. foldr_res (deliver_to remote) ?l) [0 ..< length ?l] sent =
      Ok (sent @ concat (map (\<lambda>j. concat (map (\<lambda>r. [(host_of r, sample_sent)]) ?l)) [0 ..< length ?l]))"
    by (rule foldr_res_appends) (rule each)
  then show ?thesis
    using True assms(2) by (simp add: deliver_line_def mails_of_line_def oset_of_list Let_def map_replicate_const)
qed (simp add: deliver_line_def mails_of_line_def)

text \<open>What the program sends.\<close>

text \<open>C38: The program that empties the mail queue sends none of its mails: with hosts that answer each
  command, it sends one fixed text, with a fixed recipient, to the host of every recipient in the
  second to the twelfth line of the file, once for each recipient of the same line and once for each
  mail of the queue.\<close>

theorem queue_sends_samples:
  assumes "\<And>h. \<exists>input. remote h = Ok input \<and> host_answers input"
    and "lines = getlines LF (get_file_content_as_string ''mqueue'' f)"
    and "n = length (filter starts_mail lines)" and "0 < n" "n \<le> MAX_QUEUE"
    and "\<forall>l \<in> set lines. take 3 l = ''To:'' \<longrightarrow> rcvrs_of l = Ok (rs l)"
  shows "webmail_deliver remote f = Ok (concat (replicate n (concat (map (mails_of_line rs) (take 11 (drop 1 lines))))))"
proof -
  let ?ls = "take 11 (drop 1 lines)"
  have "set ?ls \<subseteq> set lines" by (meson in_set_dropD in_set_takeD subsetI)
  then have "deliver_line remote l s = Ok (s @ mails_of_line rs l)" if "l \<in> set ?ls" for l s
    using that assms(6) by (intro deliver_line_sends [OF assms(1)]) blast
  then have each: "foldr_res (deliver_line remote) ?ls s = Ok (s @ concat (map (mails_of_line rs) ?ls))" for s
    by (rule foldr_res_appends)
  have "deliver_queue remote lines n =
      Ok ([] @ concat (map (\<lambda>i. concat (map (mails_of_line rs) ?ls)) [0 ..< n]))"
    unfolding deliver_queue_def by (rule foldr_res_appends) (rule each)
  then show ?thesis
    using count_mails_ok [of 0 lines] assms(3-5)
    by (simp add: webmail_deliver_def assms(2) [symmetric] Let_def map_replicate_const)
qed

definition a_queue :: string where
  "a_queue = ''220'' @ [LF] @ ''From: Bob <bob@localhost.com>'' @ [LF] @ ''To: Ann <ann@x.org>, Eve <eve@y.org>'' @ [LF]"

definition queue_lines :: "string list" where
  "queue_lines = [''220'', ''From: Bob <bob@localhost.com>'', ''To: Ann <ann@x.org>, Eve <eve@y.org>'']"

lemma a_queue_lines: "getlines LF a_queue = queue_lines"
proof -
  have "a_queue = concat (map (\<lambda>t. t @ [LF]) queue_lines)" by (simp add: a_queue_def queue_lines_def)
  moreover have "\<forall>t \<in> set queue_lines. LF \<notin> set t" by (simp add: queue_lines_def)
  ultimately show ?thesis by (metis getlines_lines)
qed

lemma a_queue_rcvrs: "rcvrs_of ''To: Ann <ann@x.org>, Eve <eve@y.org>'' = Ok [''ann@x.org'', ''eve@y.org'']"
  by code_simp

theorem queue_sends_samples_witness:
  "webmail_deliver (\<lambda>h. Ok (answers ''220'' (replicate 4 ''250 OK'') ''250'' ''221'')) [(''mqueue'', File a_queue)] =
    Ok (concat (replicate 2 [(''x.org'', sample_sent), (''y.org'', sample_sent)]))"
proof -
  let ?f = "[(''mqueue'', File a_queue)]" and ?rs = "\<lambda>l. [''ann@x.org'', ''eve@y.org'']"
  have "host_answers (answers ''220'' (replicate 4 ''250 OK'') ''250'' ''221'')"
    unfolding host_answers_def
    by (rule exI [of _ "''220''"], rule exI [of _ "replicate 4 ''250 OK''"], rule exI [of _ "''250''"], rule exI [of _ "''221''"])
      (simp add: reply_ok_def)
  then have remote: "\<exists>input. Ok (answers ''220'' (replicate 4 ''250 OK'') ''250'' ''221'') = (Ok input :: string list res) \<and> host_answers input" for h :: string
    by (intro exI conjI) (rule refl)
  have lines: "getlines LF (get_file_content_as_string ''mqueue'' ?f) = queue_lines"
    by (simp add: get_file_content_as_string_def file_content_def a_queue_lines)
  have one: "(1 :: nat) = length (filter starts_mail (getlines LF (get_file_content_as_string ''mqueue'' ?f)))"
    by (simp add: lines queue_lines_def starts_mail_def)
  have rs: "\<forall>l \<in> set (getlines LF (get_file_content_as_string ''mqueue'' ?f)). take 3 l = ''To:'' \<longrightarrow> rcvrs_of l = Ok (?rs l)"
    by (simp add: lines queue_lines_def a_queue_rcvrs)
  have s: "sorted_list_of_set (set [''ann@x.org'', ''eve@y.org'']) = [''ann@x.org'', ''eve@y.org'']"
    by (intro sorted_list_of_set.idem_if_sorted_distinct) simp_all
  have "mails_of_line ?rs ''To: Ann <ann@x.org>, Eve <eve@y.org>'' =
      concat (replicate 2 [(''x.org'', sample_sent), (''y.org'', sample_sent)])"
    unfolding mails_of_line_def s by (simp add: host_of_def cut_def eval_nat_numeral)
  then show ?thesis
    using queue_sends_samples [OF remote refl one _ _ rs] unfolding lines
    by (simp add: mails_of_line_def MAX_QUEUE_def queue_lines_def)
qed

end
