(* ===== verification/Mail_Dns.thy ===== *)
theory Mail_Dns
  imports Mail_Queue
begin

text \<open>
  How the mail programs find the host of a recipient (\<open>parse_record\<close> and the query in \<open>handle_send\<close>
  of \<open>webmail/webmail_utils.cc\<close>, the same with three more loops in \<open>webmail/webmail_deliver.cc\<close>).
  \<open>remote_of\<close> and \<open>queue_remote\<close> are the functions behind the parameter \<open>remote\<close> of \<open>Mail_Server\<close> and
  \<open>Mail_Queue\<close>.

  \<^item> The resolver library is the parameter \<open>query\<close>: the reply to the question for the mail exchangers
    of a host, or \<open>None\<close> when \<open>res_query\<close> fails. A reply has the counts of its header and the records
    that \<open>ns_parserr\<close> finds in its sections; \<open>None\<close> for a record is the result \<open>-1\<close>.
  \<^item> The network is the parameter \<open>peer\<close>: what the machine at an address sends, or \<open>None\<close> when the
    connection is refused.
\<close>

section \<open>A reply\<close>

datatype dns_section = Answers | Nameservers | Addrrecords

record rr =
  rr_type :: nat
  rr_data :: "nat list"

record dns_reply =
  ancount :: nat
  nscount :: nat
  arcount :: nat
  records :: "dns_section \<Rightarrow> nat \<Rightarrow> rr option"

definition T_A :: nat where "T_A = 1"
definition T_NS :: nat where "T_NS = 2"
definition T_MX :: nat where "T_MX = 15"

text \<open>\<open>inet_ntoa\<close> of the first four bytes\<close>

definition dotted :: "nat list \<Rightarrow> string res" where
  "dotted d =
     (if length d < 4 then Fail Undefined
      else Ok (show_nat (d ! 0) @ ''.'' @ show_nat (d ! 1) @ ''.'' @
               show_nat (d ! 2) @ ''.'' @ show_nat (d ! 3)))"

text \<open>The result is a pointer to the text of an address, or null. For a record of another type the
  function runs off its end.\<close>

definition parse_record :: "dns_reply \<Rightarrow> dns_section \<Rightarrow> nat \<Rightarrow> string option res" where
  "parse_record m s idx =
     (case records m s idx of
        None \<Rightarrow> Ok None
      | Some r \<Rightarrow>
          if rr_type r = T_MX then Ok None
          else if rr_type r = T_A then rbind (dotted (rr_data r)) (\<lambda>a. Ok (Some a))
          else if rr_type r = T_NS then Ok None
          else Fail Undefined)"

section \<open>The host\<close>

text \<open>The socket, and the connection to port 25; \<open>inet_pton\<close> reads through the pointer.\<close>

definition connect_host :: "int \<Rightarrow> (string \<Rightarrow> string list option) \<Rightarrow> string option \<Rightarrow> string list res" where
  "connect_host sock peer IP_address =
     (if sock < 0 then panic
      else case IP_address of
        None \<Rightarrow> Fail NullDeref
      | Some a \<Rightarrow> (case peer a of None \<Rightarrow> panic | Some input \<Rightarrow> Ok input))"

text \<open>After a query that failed the header is read from an array that was never written.\<close>

definition remote_of ::
    "(string \<Rightarrow> dns_reply option) \<Rightarrow> int \<Rightarrow> (string \<Rightarrow> string list option) \<Rightarrow> string \<Rightarrow> string list res" where
  "remote_of query sock peer host =
     rbind (of_option Undefined (query host)) (\<lambda>m.
     rbind (parse_record m Addrrecords 2) (connect_host sock peer))"

definition parse_section :: "dns_reply \<Rightarrow> dns_section \<Rightarrow> nat \<Rightarrow> unit res" where
  "parse_section m s n = foldr_res (\<lambda>i _. rbind (parse_record m s i) (\<lambda>_. Ok ())) [0 ..< n] ()"

definition queue_remote ::
    "(string \<Rightarrow> dns_reply option) \<Rightarrow> int \<Rightarrow> (string \<Rightarrow> string list option) \<Rightarrow> string \<Rightarrow> string list res" where
  "queue_remote query sock peer host =
     rbind (of_option Undefined (query host)) (\<lambda>m.
     rbind (parse_section m Answers (ancount m)) (\<lambda>_.
     rbind (parse_section m Nameservers (nscount m)) (\<lambda>_.
     rbind (parse_section m Addrrecords (arcount m)) (\<lambda>_.
     rbind (parse_record m Addrrecords 2) (connect_host sock peer)))))"

section \<open>Which host is found\<close>

definition third_address :: "dns_reply \<Rightarrow> string option" where
  "third_address m =
     (case records m Addrrecords 2 of
        None \<Rightarrow> None
      | Some r \<Rightarrow> (if rr_type r = T_A then (case dotted (rr_data r) of Inr a \<Rightarrow> Some a | Inl _ \<Rightarrow> None) else None))"

text \<open>The mail exchangers of the answer and their preferences play no role.\<close>

lemma remote_of_third:
  "query host = Some m \<Longrightarrow> third_address m = Some a \<Longrightarrow> 0 \<le> sock \<Longrightarrow> peer a = Some input \<Longrightarrow>
   remote_of query sock peer host = Ok input"
  by (auto simp: remote_of_def third_address_def parse_record_def connect_host_def T_A_def T_MX_def
      split: option.splits if_splits sum.splits)

lemma remote_of_fails:
  "query host = Some m \<Longrightarrow> third_address m = None \<Longrightarrow> \<exists>e. remote_of query sock peer host = Fail e"
  by (auto simp: remote_of_def third_address_def parse_record_def connect_host_def panic_def dotted_def
      split: option.splits if_splits sum.splits)

text \<open>A record of any other type, such as an IPv6 address, in any section ends the queue program.\<close>

lemma queue_remote_other_type:
  assumes "query host = Some m" and "i < ancount m" and "records m Answers i = Some r"
    and "rr_type r \<notin> {T_A, T_NS, T_MX}"
  shows "\<exists>e. queue_remote query sock peer host = Fail e"
proof -
  obtain k where "ancount m = i + Suc k" using less_imp_Suc_add [OF assms(2)] by auto
  then have "[0 ..< ancount m] = [0 ..< i] @ i # [Suc i ..< ancount m]"
    using upt_add_eq_append [of 0 i "Suc k"] by (simp add: upt_conv_Cons)
  then have "\<exists>e. parse_section m Answers (ancount m) = Fail e"
    using assms(3,4)
    by (cases "foldr_res (\<lambda>i _. rbind (parse_record m Answers i) (\<lambda>_. Ok ())) [0 ..< i] ()")
      (simp_all add: parse_section_def foldr_res_append parse_record_def)
  then show ?thesis using assms(1) by (auto simp: queue_remote_def)
qed

lemma deliver_remote_fails:
  assumes "take 13 (host_of rcvr) \<noteq> ''localhost.com''" and "remote (c_str (host_of rcvr)) = Fail e"
  shows "deliver send md5 remote sender content (rcvr # queue) s = Fail e"
  using assms by (cases "cut (CHR ''@'') rcvr") (auto simp: host_of_def)

text \<open>A mail whose first recipient is at another host ends the mail server, unless the third
  additional record of the reply is an address; no recipient behind it gets the mail.\<close>

text \<open>C39: A mail whose first recipient is at another host ends the mail server, unless the third
  additional record of the reply to the query for the mail exchanger is an address; no recipient
  behind it gets the mail.\<close>

theorem mail_needs_third_record:
  assumes "\<forall>l \<in> set ls. mail_line l" and "ls \<noteq> []"
    and "foldr_res scan_line (map (\<lambda>l. l @ crlf) ls) ([], []) = Ok (sender, rcvr # queue)"
    and "take 13 (host_of rcvr) \<noteq> ''localhost.com''"
    and "query (c_str (host_of rcvr)) = Some m" and "third_address m = None"
  shows "\<exists>e. handle_send send md5 (remote_of query sock peer) (text_of ls @ ''.'' @ CR # LF # rest) s = Fail e"
proof -
  obtain b where b: "mail_lines 0 (replicate BUFFER_SIZE NUL) (text_of ls @ ''.'' @ CR # LF # rest) =
      Ok (map (\<lambda>l. l @ crlf) ls, b, rest)"
    using mail_lines_text [OF assms(1)] assms(2) by blast
  obtain e where "remote_of query sock peer (c_str (host_of rcvr)) = Fail e"
    using remote_of_fails [of query "c_str (host_of rcvr)" m sock peer] assms(5,6) by blast
  then have "deliver send md5 (remote_of query sock peer) sender (concat (map (\<lambda>l. l @ crlf) ls) @ ''.'' @ crlf) (rcvr # queue) s = Fail e"
    using assms(4) by (intro deliver_remote_fails)
  then show ?thesis unfolding handle_send_def b using assms(3) by simp
qed

definition gmail_reply :: dns_reply where
  "gmail_reply =
     \<lparr>ancount = 1, nscount = 0, arcount = 1,
      records = (\<lambda>s i. if s = Answers \<and> i = 0 then Some \<lparr>rr_type = 15, rr_data = [0, 10]\<rparr>
                       else if s = Addrrecords \<and> i = 0 then Some \<lparr>rr_type = 1, rr_data = [10, 0, 0, 7]\<rparr> else None)\<rparr>"

theorem mail_needs_third_record_witness:
  "\<exists>e. handle_send (\<lambda>m u b. Ok ([], b)) (\<lambda>t. t) (remote_of (\<lambda>h. Some gmail_reply) 3 (\<lambda>a. Some []))
     (text_of [''To: <bob@upenn.edu>, <ann@localhost.com>'', ''hello''] @ ''.'' @ CR # LF # ''QUIT'') (new_session [] ()) = Fail e"
proof (rule mail_needs_third_record)
  show "foldr_res scan_line (map (\<lambda>l. l @ crlf) [''To: <bob@upenn.edu>, <ann@localhost.com>'', ''hello'']) ([], []) =
      Ok ([], [''bob@upenn.edu'', ''ann@localhost.com''])"
    by code_simp
  show "take 13 (host_of ''bob@upenn.edu'') \<noteq> ''localhost.com''" by code_simp
  show "(Some gmail_reply :: dns_reply option) = Some gmail_reply" by simp
  show "third_address gmail_reply = None" by (simp add: third_address_def gmail_reply_def)
qed (simp_all add: mail_line_def line_ok_def BUFFER_SIZE_def done_marker_def)

end
