(* ===== verification/Mail_Process.thy ===== *)
theory Mail_Process
  imports Mail_Server Options
begin

text \<open>
  The process of the mail server (\<open>main\<close>, \<open>worker\<close>, \<open>aflaghandler\<close> and \<open>INThandler\<close> of
  \<open>webmail/webmail_server.cc\<close>): the options, the connections it accepts, and what the option \<open>-a\<close>
  makes of the first of them.

  \<^item> A connection is the descriptor that \<open>accept\<close> gives and the text of the client. The workers run one
    after the other; the state they share is the files and the storage.
  \<^item> \<open>fds\<close> is the set of descriptors both handlers go over. The code that fills it is commented out, so
    it is empty in \<open>mail_program\<close>; the handlers are modelled for any set. \<open>INThandler\<close> is never
    installed.
  \<^item> The result has the texts written to the descriptors beside the result of the process, since a
    process that calls \<open>exit\<close> may have written before. Of a session that fails the texts are left out.
\<close>

section \<open>The handlers\<close>

definition write_and_close :: "string \<Rightarrow> int oset \<Rightarrow> (int \<times> string) list" where
  "write_and_close t fds = map (\<lambda>fd. (fd, t)) (oset_list fds)"

definition aflaghandler :: "int oset \<Rightarrow> (int \<times> string) list \<times> 'a res" where
  "aflaghandler fds = (write_and_close (''Mengjin Dong / mengjin '' @ crlf) fds, Fail (Exit 0))"

definition INThandler :: "int oset \<Rightarrow> (int \<times> string) list \<times> 'a res" where
  "INThandler fds = (write_and_close (''-ERR Server shutting down'' @ crlf) fds, Fail (Exit 0))"

section \<open>The connections\<close>

type_synonym 'b mail_state = "fsys \<times> 'b"

definition mail_worker :: "nat \<Rightarrow> 'b send \<Rightarrow> (string \<Rightarrow> string) \<Rightarrow> (string \<Rightarrow> string list res) \<Rightarrow> string \<Rightarrow>
    mail_options \<Rightarrow> int oset \<Rightarrow> int \<Rightarrow> string \<Rightarrow> 'b mail_state \<Rightarrow> (int \<times> string) list \<times> 'b mail_state res" where
  "mail_worker n send md5 remote over o' fds comm_fd input st =
     (if aflag o' then aflaghandler fds
      else case mail_session n send md5 remote over input (new_session (fst st) (snd st)) of
             Inl e \<Rightarrow> ([], Fail e)
           | Inr s \<Rightarrow> ([(comm_fd, mreply s)], Ok (mfiles s, mback s)))"

fun mail_server :: "nat \<Rightarrow> 'b send \<Rightarrow> (string \<Rightarrow> string) \<Rightarrow> (string \<Rightarrow> string list res) \<Rightarrow> string \<Rightarrow>
    mail_options \<Rightarrow> (int \<times> string) list \<Rightarrow> 'b mail_state \<Rightarrow> (int \<times> string) list \<times> 'b mail_state res" where
  "mail_server n send md5 remote over o' [] st = ([], Ok st)"
| "mail_server n send md5 remote over o' ((fd, input) # cs) st =
     (case mail_worker n send md5 remote over o' [] fd input st of
        (out, Inl e) \<Rightarrow> (out, Fail e)
      | (out, Inr st') \<Rightarrow> (case mail_server n send md5 remote over o' cs st' of (out', r) \<Rightarrow> (out @ out', r)))"

definition mail_program :: "nat \<Rightarrow> 'b send \<Rightarrow> (string \<Rightarrow> string) \<Rightarrow> (string \<Rightarrow> string list res) \<Rightarrow> string \<Rightarrow>
    string list \<Rightarrow> (int \<times> string) list \<Rightarrow> 'b mail_state \<Rightarrow> (int \<times> string) list \<times> 'b mail_state res" where
  "mail_program n send md5 remote over argv cs st =
     (case mail_options_of argv of
        Inl e \<Rightarrow> ([], Fail e)
      | Inr o' \<Rightarrow> mail_server n send md5 remote over o' cs st)"

lemma handlers_write:
  "map fst (fst (aflaghandler fds)) = oset_list fds" "map fst (fst (INThandler fds)) = oset_list fds"
  by (simp_all add: aflaghandler_def INThandler_def write_and_close_def comp_def)

text \<open>With \<open>-a\<close> the first connection ends the process, and its client gets nothing.\<close>

lemma a_option_ends_server:
  "mail_options_of argv = Ok o' \<Longrightarrow> aflag o' \<Longrightarrow>
   mail_program n send md5 remote over argv ((fd, input) # cs) st = ([], Fail (Exit 0))"
  by (simp add: mail_program_def mail_worker_def aflaghandler_def write_and_close_def okeys_def)

text \<open>A failure of one session ends the process: no connection behind it is served.\<close>

lemma failing_session_ends_server:
  assumes "\<not> aflag o'" and "mail_session n send md5 remote over input (new_session (fst st) (snd st)) = Fail e"
  shows "mail_server n send md5 remote over o' ((fd, input) # cs) st = ([], Fail e)"
  using assms by (simp add: mail_worker_def)

text \<open>Sessions that end are served in the order of the connections, each by its own descriptor.\<close>

lemma served_in_order:
  "mail_server n send md5 remote over o' cs st = (out, Ok st') \<Longrightarrow> \<not> aflag o' \<Longrightarrow> map fst out = map fst cs"
  by (induction n send md5 remote over o' cs st arbitrary: out rule: mail_server.induct)
    (auto simp: mail_worker_def split: sum.splits prod.splits)

end
