(* ===== verification/Refinement.thy ===== *)
theory Refinement
  imports Prelude
begin

text \<open>
  Sequences of calls of an implementation and of its specification: when every call commutes with
  the abstraction function, so does every sequence of calls, the failing ones included.
\<close>

locale data_refinement =
  fixes abs :: "'s \<Rightarrow> 't" and ok :: "'s \<Rightarrow> bool" and fits :: "'c \<Rightarrow> 's \<Rightarrow> bool"
    and call :: "'c \<Rightarrow> 's \<Rightarrow> 's res" and spec :: "'c \<Rightarrow> 't \<Rightarrow> 't res"
  assumes call_spec: "ok s \<Longrightarrow> fits c s \<Longrightarrow> rbind (call c s) (\<lambda>t. Ok (abs t)) = spec c (abs s)"
    and call_ok: "ok s \<Longrightarrow> fits c s \<Longrightarrow> call c s = Ok t \<Longrightarrow> ok t"
    and call_fits: "ok s \<Longrightarrow> fits c s \<Longrightarrow> call c s = Ok t \<Longrightarrow> fits d s \<Longrightarrow> fits d t"
begin

lemma calls_spec:
  "ok s \<Longrightarrow> (\<And>c. c \<in> set cs \<Longrightarrow> fits c s) \<Longrightarrow>
   rbind (foldr_res call cs s) (\<lambda>t. Ok (abs t)) = foldr_res spec cs (abs s)"
proof (induction cs arbitrary: s)
  case (Cons c cs)
  have fits: "fits c s" using Cons.prems by simp
  show ?case
  proof (cases "call c s")
    case (Inr t)
    have "rbind (foldr_res call cs t) (\<lambda>t. Ok (abs t)) = foldr_res spec cs (abs t)"
      using Cons.prems call_ok [OF Cons.prems(1) fits Inr] call_fits [OF Cons.prems(1) fits Inr]
      by (intro Cons.IH) auto
    moreover have "spec c (abs s) = Ok (abs t)" using call_spec [OF Cons.prems(1) fits] by (simp add: Inr)
    ultimately show ?thesis by (simp add: Inr)
  next
    case (Inl e)
    then show ?thesis using call_spec [OF Cons.prems(1) fits] by (cases "spec c (abs s)") auto
  qed
qed simp

end

end
