(* ===== verification/Client_Conn.thy ===== *)
theory Client_Conn
  imports Mail_Conn Refinement
begin

text \<open>
  The buffered connection once more, as \<open>webmail/client_def.cc\<close> and \<open>webmail/client_header.h\<close> have it
  and at the level of their code: a block of bytes from \<open>malloc\<close>, the number of bytes in use, loops
  over positions. \<open>conn_of\<close> is the abstraction to the connection of \<open>Mail_Conn\<close>, and every operation
  is shown to commute with it.

  \<^item> \<open>block\<close> is the memory behind \<open>buf\<close>; it is \<open>None\<close> after \<open>free\<close>. Reading or writing outside of it
    is undefined. What \<open>malloc\<close> returns is a parameter, with any content.
  \<^item> \<open>net\<close> holds the results of the coming calls of \<open>read\<close>: \<open>None\<close> is an error, the empty text is the
    end of the connection, or \<open>EAGAIN\<close> when the read does not block. \<open>rooms\<close> holds the results of the
    coming calls of \<open>write\<close>; with no entry left, everything is accepted.
\<close>

section \<open>The connection and its memory\<close>

record client_conn =
  fd :: int
  block :: "string option"
  bytes_in_buffer :: nat
  size_bytes :: nat
  net :: "string option list"
  rooms :: "int list"
  sent :: string
  shown :: string

definition load_byte :: "client_conn \<Rightarrow> nat \<Rightarrow> char res" where
  "load_byte c i =
     (case block c of None \<Rightarrow> Fail Undefined
      | Some b \<Rightarrow> if i < length b then Ok (b ! i) else Fail Undefined)"

definition store_byte :: "nat \<Rightarrow> char \<Rightarrow> client_conn \<Rightarrow> client_conn res" where
  "store_byte i x c =
     (case block c of None \<Rightarrow> Fail Undefined
      | Some b \<Rightarrow> if i < length b then Ok (c\<lparr>block := Some (b[i := x])\<rparr>) else Fail Undefined)"

text \<open>\<open>initializeBuffers\<close>, \<open>connectToPort\<close>, \<open>closeConnection\<close>, \<open>freeBuffers\<close>.\<close>

definition initialize_client :: "nat \<Rightarrow> string option \<Rightarrow> client_conn res" where
  "initialize_client sz mem =
     (if mem = None then panic
      else Ok \<lparr>fd = -1, block = mem, bytes_in_buffer = 0, size_bytes = sz, net = [], rooms = [],
               sent = [], shown = []\<rparr>)"

definition connect_to_port ::
    "int \<Rightarrow> bool \<Rightarrow> string option list \<Rightarrow> int list \<Rightarrow> client_conn \<Rightarrow> client_conn res" where
  "connect_to_port sock accepted reads writes c =
     (if sock < 0 then panic
      else if \<not> accepted then panic
      else Ok (c\<lparr>fd := sock, net := reads, rooms := writes, bytes_in_buffer := 0\<rparr>))"

definition close_connection :: "client_conn \<Rightarrow> client_conn" where
  "close_connection c = c\<lparr>net := [], rooms := [-1]\<rparr>"

definition free_buffers :: "client_conn \<Rightarrow> client_conn" where
  "free_buffers c = c\<lparr>block := None\<rparr>"

section \<open>Printing and writing\<close>

definition client_log :: "string \<Rightarrow> string \<Rightarrow> string \<Rightarrow> client_conn \<Rightarrow> client_conn" where
  "client_log pre data post c = c\<lparr>shown := shown c @ pre @ concat (map log_char data) @ post\<rparr>"

text \<open>The first \<open>n\<close> bytes of the buffer, one after the other.\<close>

fun load_bytes :: "client_conn \<Rightarrow> nat \<Rightarrow> nat \<Rightarrow> string res" where
  "load_bytes c i 0 = Ok []"
| "load_bytes c i (Suc n) =
     rbind (load_byte c i) (\<lambda>x. rbind (load_bytes c (Suc i) n) (\<lambda>xs. Ok (x # xs)))"

definition log_buffer :: "string \<Rightarrow> nat \<Rightarrow> string \<Rightarrow> client_conn \<Rightarrow> client_conn res" where
  "log_buffer pre n post c = rbind (load_bytes c 0 n) (\<lambda>xs. Ok (client_log pre xs post c))"

function client_write_loop :: "string \<Rightarrow> nat \<Rightarrow> client_conn \<Rightarrow> client_conn res" where
  "client_write_loop data wptr c =
     (if wptr < length data then
        case rooms c of
          [] \<Rightarrow> Ok (c\<lparr>sent := sent c @ drop wptr data\<rparr>)
        | w # ws \<Rightarrow>
            if w < 0 then panic
            else if w = 0 then panic
            else let k = min (nat w) (length data - wptr)
                 in client_write_loop data (wptr + k)
                      (c\<lparr>rooms := ws, sent := sent c @ take k (drop wptr data)\<rparr>)
      else Ok c)"
  by auto
termination by (relation "measure (\<lambda>(data, wptr, c). length data - wptr)") auto

definition client_write_string :: "string \<Rightarrow> client_conn \<Rightarrow> client_conn res" where
  "client_write_string data c =
     client_write_loop (c_str data) 0 (client_log ''C: '' (c_str data) [LF] c)"

section \<open>Reading\<close>

text \<open>One call of \<open>read\<close> behind the bytes in use, with the room that is left: the number of bytes,
  negative for an error.\<close>

definition read_into :: "client_conn \<Rightarrow> (int \<times> client_conn) res" where
  "read_into c =
     (case net c of
        [] \<Rightarrow> Ok (0, c)
      | None # ps \<Rightarrow> Ok (-1, c\<lparr>net := ps\<rparr>)
      | Some p # ps \<Rightarrow>
          let n = size_bytes c - bytes_in_buffer c; s = take n p;
              ps = (if n < length p then Some (drop n p) # ps else ps)
          in case block c of None \<Rightarrow> Fail Undefined
             | Some b \<Rightarrow>
                 if bytes_in_buffer c + length s \<le> length b
                 then Ok (int (length s), c\<lparr>net := ps,
                        block := Some (take (bytes_in_buffer c) b @ s @
                                       drop (bytes_in_buffer c + length s) b)\<rparr>)
                 else Fail Undefined)"

text \<open>The position of the first line feed.\<close>

function find_lf :: "client_conn \<Rightarrow> nat \<Rightarrow> nat option res" where
  "find_lf c i =
     (if i < bytes_in_buffer c
      then rbind (load_byte c i) (\<lambda>x. if x = LF then Ok (Some i) else find_lf c (Suc i))
      else Ok None)"
  by auto
termination by (relation "measure (\<lambda>(c, i). bytes_in_buffer c - i)") auto

lemma read_into_keeps:
  "read_into c = Ok (n, d) \<Longrightarrow> size_bytes d = size_bytes c \<and> bytes_in_buffer d = bytes_in_buffer c \<and>
     rooms d = rooms c \<and> sent d = sent c \<and> shown d = shown c"
  by (auto simp: read_into_def Let_def split: list.splits option.splits if_splits)

function wait_for_lf :: "client_conn \<Rightarrow> (nat \<times> client_conn) res" where
  "wait_for_lf c =
     rbind (find_lf c 0) (\<lambda>lfpos.
     case lfpos of
       Some i \<Rightarrow> Ok (i, c)
     | None \<Rightarrow>
         if size_bytes c \<le> bytes_in_buffer c then panic
         else rbind (read_into c) (\<lambda>(r, d).
           if r < 0 then panic
           else if r = 0 then panic
           else wait_for_lf (d\<lparr>bytes_in_buffer := bytes_in_buffer d + nat r\<rparr>)))"
  by auto
termination
  by (relation "measure (\<lambda>c. size_bytes c - bytes_in_buffer c)") (auto dest: read_into_keeps)

declare client_write_loop.simps [simp del] find_lf.simps [simp del] wait_for_lf.simps [simp del]

text \<open>The zero over the line feed, or over the CR in front of it: whether the CR is missing.\<close>

definition cut_line :: "nat \<Rightarrow> client_conn \<Rightarrow> (bool \<times> client_conn) res" where
  "cut_line lfpos c =
     rbind (if lfpos = 0 then Ok True else rbind (load_byte c (lfpos - 1)) (\<lambda>x. Ok (x \<noteq> CR))) (\<lambda>missing.
     rbind (store_byte (if missing then lfpos else lfpos - 1) NUL c) (\<lambda>c. Ok (missing, c)))"

function copy_up :: "nat \<Rightarrow> nat \<Rightarrow> client_conn \<Rightarrow> client_conn res" where
  "copy_up lfpos i c =
     (if i < bytes_in_buffer c
      then rbind (load_byte c i) (\<lambda>x. rbind (store_byte (i - (lfpos + 1)) x c) (\<lambda>d. copy_up lfpos (i + 1) d))
      else Ok c)"
  by auto
termination
  by (relation "measure (\<lambda>(l, i, c). bytes_in_buffer c - i)")
    (auto simp: store_byte_def split: option.splits if_splits)

declare copy_up.simps [simp del]

definition eat_line :: "nat \<Rightarrow> client_conn \<Rightarrow> client_conn res" where
  "eat_line lfpos c =
     rbind (copy_up lfpos (lfpos + 1) c) (\<lambda>d.
     Ok (d\<lparr>bytes_in_buffer := bytes_in_buffer d - (lfpos + 1)\<rparr>))"

definition client_do_read :: "client_conn \<Rightarrow> client_conn res" where
  "client_do_read c =
     rbind (wait_for_lf c) (\<lambda>(lfpos, c).
     rbind (log_buffer ''S: '' (lfpos + 1) [] c) (\<lambda>c.
     rbind (cut_line lfpos c) (\<lambda>(missing, c).
     eat_line lfpos c)))"

text \<open>The loop over the expected text: whether it matched so far, what is left of the text, and the
  position in the buffer.\<close>

fun compare_loop :: "client_conn \<Rightarrow> string \<Rightarrow> nat \<Rightarrow> (bool \<times> string \<times> nat) res" where
  "compare_loop c [] bufptr = Ok (True, [], bufptr)"
| "compare_loop c (d # ds) bufptr =
     (if d = CHR ''*'' then Ok (True, d # ds, bufptr)
      else rbind (load_byte c bufptr) (\<lambda>x.
        if d \<noteq> x then Ok (False, ds, bufptr + 1) else compare_loop c ds (bufptr + 1)))"

definition compare_line :: "client_conn \<Rightarrow> string \<Rightarrow> nat \<Rightarrow> bool res" where
  "compare_line c data bufptr =
     rbind (compare_loop c data bufptr) (\<lambda>(matched, ds, bufptr).
     if ds = [] then rbind (load_byte c bufptr) (\<lambda>x. Ok (if x \<noteq> NUL then False else matched))
     else Ok matched)"

definition client_expect_to_read :: "string \<Rightarrow> client_conn \<Rightarrow> client_conn res" where
  "client_expect_to_read data c =
     rbind (wait_for_lf c) (\<lambda>(lfpos, c).
     rbind (log_buffer ''S: '' (lfpos + 1) [] c) (\<lambda>c.
     rbind (cut_line lfpos c) (\<lambda>(missing, c).
     rbind (compare_line c (c_str data) 0) (\<lambda>matched.
     let c = (if matched then
                client_log (if missing then '' [Terminated by LF, not by CRLF]'' @ [LF]
                            else '' [OK]'' @ [LF]) [] [] c
              else client_log ('' [Expected: '' @ [CHR 0x27]) (c_str data) (CHR 0x27 # '']'' @ [LF]) c)
     in eat_line lfpos c))))"

definition client_no_more_data :: "client_conn \<Rightarrow> client_conn res" where
  "client_no_more_data c =
     rbind (read_into c) (\<lambda>(r, c).
     if r < 0 then panic
     else
       let c = c\<lparr>bytes_in_buffer := bytes_in_buffer c + nat r\<rparr>
       in if 0 < bytes_in_buffer c
          then rbind (log_buffer ''S: '' (bytes_in_buffer c)
                       ('' [unexpected; server should not have sent anything!]'' @ [LF]) c) (\<lambda>c.
               Ok (c\<lparr>bytes_in_buffer := 0\<rparr>))
          else Ok c)"

definition client_remote_close :: "client_conn \<Rightarrow> client_conn res" where
  "client_remote_close c =
     rbind (read_into c) (\<lambda>(r, c).
     if r < 0 then panic
     else if 0 < r
          then rbind (log_buffer ''S: '' (nat r + bytes_in_buffer c)
                       ('' [unexpected; server should have closed the connection]'' @ [LF]) c) (\<lambda>c.
               Ok (c\<lparr>bytes_in_buffer := 0\<rparr>))
          else Ok c)"

section \<open>The abstraction\<close>

definition conn_of :: "client_conn \<Rightarrow> connection" where
  "conn_of c =
     \<lparr>buf = take (bytes_in_buffer c) (the (block c)), buffer_size = size_bytes c,
      pending = map the (net c), written = sent c, printed = shown c\<rparr>"

definition client_ok :: "client_conn \<Rightarrow> bool" where
  "client_ok c \<longleftrightarrow>
     (\<exists>b. block c = Some b \<and> length b = size_bytes c) \<and> bytes_in_buffer c \<le> size_bytes c \<and>
     None \<notin> set (net c) \<and> (\<forall>w \<in> set (rooms c). 0 < w)"

lemma conn_of_simps [simp]:
  "buffer_size (conn_of c) = size_bytes c" "pending (conn_of c) = map the (net c)"
  "written (conn_of c) = sent c" "printed (conn_of c) = shown c"
  "block c = Some b \<Longrightarrow> buf (conn_of c) = take (bytes_in_buffer c) b"
  by (simp_all add: conn_of_def)

lemma load_Some [simp]: "block c = Some b \<Longrightarrow> i < length b \<Longrightarrow> load_byte c i = Ok (b ! i)"
  by (simp add: load_byte_def)

lemma store_Some [simp]:
  "block c = Some b \<Longrightarrow> i < length b \<Longrightarrow> store_byte i x c = Ok (c\<lparr>block := Some (b[i := x])\<rparr>)"
  by (simp add: store_byte_def)

lemma client_log_simps [simp]:
  "block (client_log p t q c) = block c" "bytes_in_buffer (client_log p t q c) = bytes_in_buffer c"
  "size_bytes (client_log p t q c) = size_bytes c" "net (client_log p t q c) = net c"
  "rooms (client_log p t q c) = rooms c" "sent (client_log p t q c) = sent c"
  by (simp_all add: client_log_def)

lemma conn_of_log [simp]: "conn_of (client_log p t q c) = log_text p t q (conn_of c)"
  by (simp add: conn_of_def client_log_def log_text_def)

lemma client_ok_log [simp]: "client_ok (client_log p t q c) = client_ok c"
  by (simp add: client_ok_def)

lemma load_bytes_Some:
  "block c = Some b \<Longrightarrow> i + n \<le> length b \<Longrightarrow> load_bytes c i n = Ok (take n (drop i b))"
  by (induction n arbitrary: i) (simp_all add: Cons_nth_drop_Suc [symmetric])

lemma log_buffer_Some [simp]:
  "block c = Some b \<Longrightarrow> n \<le> length b \<Longrightarrow> log_buffer pre n post c = Ok (client_log pre (take n b) post c)"
  by (simp add: log_buffer_def load_bytes_Some)

lemma find_lf_Some:
  assumes "block c = Some b" and "bytes_in_buffer c \<le> length b"
  shows "find_lf c i =
    (let s = drop i (take (bytes_in_buffer c) b)
     in Ok (if LF \<in> set s then Some (i + length (takeWhile (\<lambda>x. x \<noteq> LF) s)) else None))"
  using assms
proof (induction c i rule: find_lf.induct)
  case (1 c i)
  show ?case
  proof (cases "i < bytes_in_buffer c")
    case True
    then have s: "drop i (take (bytes_in_buffer c) b) = b ! i # drop (Suc i) (take (bytes_in_buffer c) b)"
      using 1(3) by (subst Cons_nth_drop_Suc [symmetric]) simp_all
    show ?thesis using 1 True by (subst find_lf.simps) (simp add: s Let_def)
  qed (simp add: find_lf.simps)
qed

section \<open>Waiting for a line\<close>

text \<open>One \<open>read\<close> behind the bytes in use is one \<open>read_some\<close> of the abstract connection.\<close>

lemma read_into_conn:
  assumes "client_ok c" and "read_some (size_bytes c - bytes_in_buffer c) (conn_of c) = (s, d)"
  obtains e where "read_into c = Ok (int (length s), e)" "client_ok (e\<lparr>bytes_in_buffer := bytes_in_buffer c + length s\<rparr>)"
    "client_ok e" "conn_of e = d"
    "conn_of (e\<lparr>bytes_in_buffer := bytes_in_buffer c + length s\<rparr>) = d\<lparr>buf := buf (conn_of c) @ s\<rparr>"
proof -
  obtain b where b: "block c = Some b" "length b = size_bytes c" "bytes_in_buffer c \<le> size_bytes c"
    "None \<notin> set (net c)" "\<forall>w \<in> set (rooms c). 0 < w"
    using assms(1) by (auto simp: client_ok_def)
  show ?thesis
  proof (cases "net c")
    case Nil
    then show ?thesis using assms(2) b that [of c]
      by (simp add: read_some_def read_into_def client_ok_def conn_of_def)
  next
    case (Cons q ps)
    then obtain p where q: "q = Some p" using b(4) by (cases q) auto
    show ?thesis using assms(2) b Cons q
      by (intro that [of "c\<lparr>net := net (snd (projr (read_into c))), block := block (snd (projr (read_into c)))\<rparr>"])
        (auto simp: read_some_def read_into_def Let_def client_ok_def conn_of_def)
  qed
qed

lemma wait_for_lf_fill:
  assumes "client_ok c"
  shows "case fill (conn_of c) of
      Inl e \<Rightarrow> wait_for_lf c = Fail e
    | Inr d \<Rightarrow> LF \<in> set (buf d) \<and> (\<exists>e. wait_for_lf c = Ok (length (takeWhile (\<lambda>x. x \<noteq> LF) (buf d)), e) \<and>
        client_ok e \<and> conn_of e = d \<and> size_bytes e = size_bytes c)"
  using assms
proof (induction c rule: wait_for_lf.induct)
  case (1 c)
  obtain b where b: "block c = Some b" "length b = size_bytes c" "bytes_in_buffer c \<le> size_bytes c"
    using 1(2) by (auto simp: client_ok_def)
  have find: "find_lf c 0 = Ok (if LF \<in> set (buf (conn_of c))
      then Some (length (takeWhile (\<lambda>x. x \<noteq> LF) (buf (conn_of c)))) else None)"
    using b by (simp add: find_lf_Some)
  show ?case
  proof (cases "LF \<in> set (buf (conn_of c))")
    case True
    then show ?thesis using 1(2) find by (simp add: fill.simps [of "conn_of c"] wait_for_lf.simps [of c])
  next
    case False
    show ?thesis
    proof (cases "size_bytes c \<le> bytes_in_buffer c")
      case True
      then show ?thesis using False find b
        by (simp add: fill.simps [of "conn_of c"] wait_for_lf.simps [of c] panic_def)
    next
      case room: False
      obtain s d where r: "read_some (size_bytes c - bytes_in_buffer c) (conn_of c) = (s, d)" by fastforce
      obtain e where e: "read_into c = Ok (int (length s), e)"
        "client_ok (e\<lparr>bytes_in_buffer := bytes_in_buffer c + length s\<rparr>)"
        "conn_of (e\<lparr>bytes_in_buffer := bytes_in_buffer c + length s\<rparr>) = d\<lparr>buf := buf (conn_of c) @ s\<rparr>"
        using read_into_conn [OF 1(2) r] .
      have k: "bytes_in_buffer e = bytes_in_buffer c" "size_bytes e = size_bytes c"
        using read_into_keeps [OF e(1)] by simp_all
      have len: "length (buf (conn_of c)) = bytes_in_buffer c" using b by simp
      have f: "fill (conn_of c) = (if s = [] then panic else fill (d\<lparr>buf := buf (conn_of c) @ s\<rparr>))"
        using False room r len by (subst fill.simps) simp
      have w: "wait_for_lf c = (if s = [] then panic
          else wait_for_lf (e\<lparr>bytes_in_buffer := bytes_in_buffer c + length s\<rparr>))"
        using find False room e(1) k by (subst wait_for_lf.simps) simp
      show ?thesis
      proof (cases "s = []")
        case True
        then show ?thesis using f w by (simp add: panic_def)
      next
        case s: False
        note ih = 1(1) [of None "(int (length s), e)" "int (length s)" e]
        show ?thesis using ih s find False room e k f w by (simp split: sum.splits)
      qed
    qed
  qed
qed

section \<open>Eating a line\<close>

lemma copy_up_Some:
  assumes "block c = Some b" and "bytes_in_buffer c \<le> length b" and "lf < i" and "i \<le> bytes_in_buffer c"
  shows "\<exists>b'. copy_up lf i c = Ok (c\<lparr>block := Some b'\<rparr>) \<and> length b' = length b \<and>
    take (bytes_in_buffer c - Suc lf) b' = take (i - Suc lf) b @ drop i (take (bytes_in_buffer c) b)"
  using assms
proof (induction lf i c arbitrary: b rule: copy_up.induct)
  case (1 lf i c)
  show ?case
  proof (cases "i < bytes_in_buffer c")
    case True
    let ?j = "i - Suc lf" and ?b = "b[i - Suc lf := b ! i]"
    let ?d = "c\<lparr>block := Some ?b\<rparr>"
    have st: "store_byte (i - (lf + 1)) (b ! i) c = Ok ?d" "load_byte c i = Ok (b ! i)"
      using 1(2-5) True by simp_all
    obtain b' where b': "copy_up lf (i + 1) ?d = Ok (?d\<lparr>block := Some b'\<rparr>)" "length b' = length ?b"
      "take (bytes_in_buffer c - Suc lf) b' = take (i + 1 - Suc lf) ?b @ drop (i + 1) (take (bytes_in_buffer c) ?b)"
      using 1(1) [OF True st(2,1), of ?b] 1(2-5) True by auto
    have "i + 1 - Suc lf = Suc ?j" using 1(4) by simp
    then have "take (i + 1 - Suc lf) ?b = take ?j b @ [b ! i]"
      using 1(3,4) True by (simp only:) (simp add: take_Suc_conv_app_nth)
    moreover have "drop (i + 1) (take (bytes_in_buffer c) ?b) = drop (i + 1) (take (bytes_in_buffer c) b)"
      using 1(4) by (simp add: take_update_swap)
    moreover have "drop i (take (bytes_in_buffer c) b) = b ! i # drop (i + 1) (take (bytes_in_buffer c) b)"
      using 1(3) True by (simp add: Cons_nth_drop_Suc [symmetric])
    ultimately show ?thesis
      using b' st True by (subst copy_up.simps) (auto intro!: exI [of _ b'])
  next
    case False
    then show ?thesis using 1(2-5) by (intro exI [of _ b]) (simp add: copy_up.simps)
  qed
qed

lemma eat_line_conn:
  assumes "client_ok c" and "lf < bytes_in_buffer c"
  obtains e where "eat_line lf c = Ok e" "client_ok e" "size_bytes e = size_bytes c"
    "conn_of e = (conn_of c)\<lparr>buf := drop (Suc lf) (buf (conn_of c))\<rparr>"
proof -
  obtain b where b: "block c = Some b" "length b = size_bytes c" "bytes_in_buffer c \<le> size_bytes c"
    using assms(1) by (auto simp: client_ok_def)
  obtain b' where b': "copy_up lf (Suc lf) c = Ok (c\<lparr>block := Some b'\<rparr>)" "length b' = length b"
    "take (bytes_in_buffer c - Suc lf) b' = drop (Suc lf) (take (bytes_in_buffer c) b)"
    using copy_up_Some [of c b lf "Suc lf"] b assms(2) by auto
  show ?thesis
    using b b' assms(1)
    by (intro that [of "c\<lparr>block := Some b', bytes_in_buffer := bytes_in_buffer c - (lf + 1)\<rparr>"])
      (auto simp: eat_line_def client_ok_def conn_of_def)
qed

section \<open>Comparing\<close>

lemma c_str_Cons [simp]: "c_str (x # xs) = (if x = NUL then [] else x # c_str xs)"
  by (simp add: c_str_def)

lemma compare_line_Some:
  assumes "block c = Some b" and "NUL \<in> set (drop j b)" and "NUL \<notin> set ds" and "j + length ds < length b"
  shows "compare_line c ds j = Ok (matches ds (c_str (drop j b)))"
  using assms(2-)
proof (induction ds arbitrary: j)
  case Nil
  then show ?case
    using assms(1) by (auto simp: compare_line_def Cons_nth_drop_Suc [symmetric] )
next
  case (Cons d ds)
  have v: "drop j b = b ! j # drop (Suc j) b" using Cons.prems(3) by (simp add: Cons_nth_drop_Suc)
  have d: "d \<noteq> NUL" "NUL \<notin> set ds" using Cons.prems(2) by auto
  show ?case
  proof (cases "d = CHR ''*''")
    case True
    then show ?thesis by (simp add: compare_line_def)
  next
    case star: False
    show ?thesis
    proof (cases "d = b ! j")
      case True
      have "compare_line c (d # ds) j = compare_line c ds (Suc j)"
        using star True Cons.prems(3) assms(1) by (simp add: compare_line_def)
      also have "\<dots> = Ok (matches ds (c_str (drop (Suc j) b)))"
        using Cons.IH [of "Suc j"] Cons.prems d True v by simp
      finally show ?thesis using star True d by (simp add: v)
    next
      case False
      then show ?thesis
        using star Cons.prems(3) assms(1) d by (simp add: compare_line_def v)
    qed
  qed
qed

section \<open>The operations commute with the abstraction\<close>

lemma c_str_append_NUL [simp]: "c_str (s @ NUL # t) = c_str s"
  by (induction s) (auto simp: c_str_def)

text \<open>The zero ends the line that \<open>first_line\<close> finds, and the bytes behind the line feed stay.\<close>

lemma cut_line_conn:
  assumes "client_ok c" and "LF \<in> set (buf (conn_of c))"
    and "first_line (buf (conn_of c)) = (l, cr, r)" and "lf = length (takeWhile (\<lambda>x. x \<noteq> LF) (buf (conn_of c)))"
  obtains e b where "cut_line lf c = Ok (\<not> cr, e)" "client_ok e" "lf < bytes_in_buffer e"
    "size_bytes e = size_bytes c" "block e = Some b" "length b = size_bytes c" "NUL \<in> set b" "c_str b = c_str l"
    "(conn_of e)\<lparr>buf := drop (Suc lf) (buf (conn_of e))\<rparr> = (conn_of c)\<lparr>buf := r\<rparr>"
    "Suc lf = length (buf (conn_of c)) - length r"
proof -
  obtain b where b: "block c = Some b" "length b = size_bytes c" "bytes_in_buffer c \<le> size_bytes c"
    "None \<notin> set (net c)" "\<forall>w \<in> set (rooms c). 0 < w"
    using assms(1) by (auto simp: client_ok_def)
  let ?n = "bytes_in_buffer c"
  obtain l0 r0 where s: "take ?n b = l0 @ LF # r0" "LF \<notin> set l0"
    using assms(2) b(1) by (metis conn_of_simps(5) split_list_first)
  define t where "t = drop ?n b"
  have whole: "b = l0 @ LF # r0 @ t" using s(1) by (metis append.assoc append_Cons append_take_drop_id t_def)
  have n: "?n = length l0 + Suc (length r0)"
    using arg_cong [OF s(1), of length] b by simp
  have lf: "lf = length l0" using assms(4) b(1) s by simp
  have fl: "first_line (buf (conn_of c)) =
      (if l0 \<noteq> [] \<and> last l0 = CR then (butlast l0, True, r0) else (l0, False, r0))"
    using b(1) s by (simp add: first_line_def cut_append)
  show ?thesis
  proof (cases "l0 \<noteq> [] \<and> last l0 = CR")
    case True
    then obtain k where k: "l0 = k @ [CR]" by (metis append_butlast_last_id)
    have e: "l = k" "cr" "r = r0" using assms(3) fl True k by simp_all
    have "cut_line lf c = Ok (False, c\<lparr>block := Some (k @ NUL # LF # r0 @ t)\<rparr>)"
      using b(1) by (simp add: cut_line_def lf k whole nth_append list_update_append)
    then show ?thesis
      using b n lf by (intro that [of "c\<lparr>block := Some (k @ NUL # LF # r0 @ t)\<rparr>" "k @ NUL # LF # r0 @ t"])
        (auto simp: e client_ok_def conn_of_def whole k)
  next
    case False
    then have e: "l = l0" "\<not> cr" "r = r0" using assms(3) fl by (auto split: if_splits)
    have "cut_line lf c = Ok (True, c\<lparr>block := Some (l0 @ NUL # r0 @ t)\<rparr>)"
    proof (cases l0 rule: rev_cases)
      case Nil
      then show ?thesis using b(1) by (simp add: cut_line_def lf whole)
    next
      case (snoc k x)
      then show ?thesis using b(1) False
        by (simp add: cut_line_def lf whole nth_append list_update_append)
    qed
    then show ?thesis
      using b n lf by (intro that [of "c\<lparr>block := Some (l0 @ NUL # r0 @ t)\<rparr>" "l0 @ NUL # r0 @ t"])
        (auto simp: e client_ok_def conn_of_def whole)
  qed
qed

definition commutes :: "client_conn \<Rightarrow> client_conn res \<Rightarrow> connection res \<Rightarrow> bool" where
  "commutes c m n \<longleftrightarrow>
     (case m of Inl e \<Rightarrow> n = Fail e
      | Inr t \<Rightarrow> n = Ok (conn_of t) \<and> client_ok t \<and> size_bytes t = size_bytes c)"

lemma write_loop_accepts:
  "\<forall>w \<in> set (rooms c). 0 < w \<Longrightarrow> wptr \<le> length data \<Longrightarrow>
   \<exists>ws. client_write_loop data wptr c = Ok (c\<lparr>rooms := ws, sent := sent c @ drop wptr data\<rparr>) \<and> (\<forall>w \<in> set ws. 0 < w)"
proof (induction data wptr c rule: client_write_loop.induct)
  case (1 data wptr c)
  show ?case
  proof (cases "wptr < length data \<and> rooms c \<noteq> []")
    case False
    then show ?thesis using 1(2,3)
      by (intro exI [of _ "rooms c"]) (auto simp: client_write_loop.simps)
  next
    case True
    then obtain w ws where r: "rooms c = w # ws" "0 < w" using 1(2) by (cases "rooms c") auto
    define k where "k = min (nat w) (length data - wptr)"
    let ?d = "c\<lparr>rooms := ws, sent := sent c @ take k (drop wptr data)\<rparr>"
    have "\<exists>us. client_write_loop data (wptr + k) ?d =
        Ok (?d\<lparr>rooms := us, sent := sent ?d @ drop (wptr + k) data\<rparr>) \<and> (\<forall>w \<in> set us. 0 < w)"
      using 1(1) [of w ws k] True r 1(2) by (auto simp: k_def)
    moreover have "client_write_loop data wptr c = client_write_loop data (wptr + k) ?d"
      using True r by (subst client_write_loop.simps) (simp add: k_def Let_def)
    moreover have "take k (drop wptr data) @ drop (wptr + k) data = drop wptr data"
      by (metis add.commute append_take_drop_id drop_drop)
    ultimately show ?thesis by auto
  qed
qed

lemma write_commutes: "client_ok c \<Longrightarrow> commutes c (client_write_string s c) (Ok (write_string s (conn_of c)))"
  using write_loop_accepts [of "client_log ''C: '' (c_str s) [LF] c" 0 "c_str s"]
  by (auto simp: client_ok_def commutes_def client_write_string_def write_string_def Let_def conn_of_def
      client_log_def log_text_def)

lemma first_line_rest:
  "first_line s = (l, cr, r) \<Longrightarrow> LF \<in> set s \<Longrightarrow> drop (length s - length r) s = r"
  by (auto simp: first_line_def cut_Some cut_None split: option.splits if_splits)

lemma log_buffer_conn:
  assumes "client_ok c" and "n \<le> length (buf (conn_of c))"
  shows "log_buffer pre n post c = Ok (client_log pre (take n (buf (conn_of c))) post c)"
proof -
  obtain b where b: "block c = Some b" "length b = size_bytes c" "bytes_in_buffer c \<le> size_bytes c"
    using assms(1) by (auto simp: client_ok_def)
  then have n: "n \<le> bytes_in_buffer c" using assms(2) by simp
  then show ?thesis using b by (simp add: min_absorb1)
qed

text \<open>The common beginning of \<open>DoRead\<close> and \<open>expectToRead\<close>.\<close>

lemma line_read:
  assumes "client_ok c"
  obtains (fails) x where "fill (conn_of c) = Fail x" "wait_for_lf c = Fail x"
  | (line) d l cr r lf f e b where "fill (conn_of c) = Ok (conn_of d)" "first_line (buf (conn_of d)) = (l, cr, r)"
      "wait_for_lf c = Ok (lf, d)" "log_buffer ''S: '' (lf + 1) [] d = Ok f" "cut_line lf f = Ok (\<not> cr, e)"
      "client_ok e" "lf < bytes_in_buffer e" "size_bytes e = size_bytes c"
      "block e = Some b" "length b = size_bytes c" "NUL \<in> set b" "c_str b = c_str l"
      "(conn_of e)\<lparr>buf := drop (Suc lf) (buf (conn_of e))\<rparr> =
        (log_text ''S: '' (take (length (buf (conn_of d)) - length r) (buf (conn_of d))) [] (conn_of d))\<lparr>buf := r\<rparr>"
      "drop (length (buf (conn_of d)) - length r) (buf (conn_of d)) = r"
proof (cases "fill (conn_of c)")
  case (Inl x)
  then show ?thesis using wait_for_lf_fill [OF assms] fails by simp
next
  case (Inr y)
  then obtain d where d: "y = conn_of d" "LF \<in> set (buf (conn_of d))" "client_ok d" "size_bytes d = size_bytes c"
    and w: "wait_for_lf c = Ok (length (takeWhile (\<lambda>x. x \<noteq> LF) (buf (conn_of d))), d)"
    using wait_for_lf_fill [OF assms] by auto
  obtain l cr r where fl: "first_line (buf (conn_of d)) = (l, cr, r)" by (rule prod_cases3)
  define s where "s = buf (conn_of d)"
  define lf where "lf = length (takeWhile (\<lambda>x. x \<noteq> LF) s)"
  let ?f = "client_log ''S: '' (take (lf + 1) s) [] d"
  have f: "client_ok ?f" "LF \<in> set (buf (conn_of ?f))" "first_line (buf (conn_of ?f)) = (l, cr, r)"
    "lf = length (takeWhile (\<lambda>x. x \<noteq> LF) (buf (conn_of ?f)))"
    using d fl by (simp_all add: lf_def s_def)
  obtain e b where e: "cut_line lf ?f = Ok (\<not> cr, e)" "client_ok e" "lf < bytes_in_buffer e"
    "size_bytes e = size_bytes ?f" "block e = Some b" "length b = size_bytes ?f" "NUL \<in> set b" "c_str b = c_str l"
    "(conn_of e)\<lparr>buf := drop (Suc lf) (buf (conn_of e))\<rparr> = (conn_of ?f)\<lparr>buf := r\<rparr>"
    "Suc lf = length (buf (conn_of ?f)) - length r"
    using f by (rule cut_line_conn)
  have n: "lf + 1 = length s - length r" using e(10) by (simp add: s_def)
  have log: "log_buffer ''S: '' (lf + 1) [] d = Ok ?f"
    unfolding s_def by (rule log_buffer_conn [OF d(3)]) (use n in \<open>simp flip: s_def\<close>)
  show ?thesis
  proof (rule line)
    show "fill (conn_of c) = Ok (conn_of d)" using Inr d(1) by simp
    show "wait_for_lf c = Ok (lf, d)" using w by (simp add: lf_def s_def)
    show "(conn_of e)\<lparr>buf := drop (Suc lf) (buf (conn_of e))\<rparr> =
        (log_text ''S: '' (take (length (buf (conn_of d)) - length r) (buf (conn_of d))) [] (conn_of d))\<lparr>buf := r\<rparr>"
      using e(9) n by (simp add: s_def)
    show "drop (length (buf (conn_of d)) - length r) (buf (conn_of d)) = r"
      using first_line_rest [OF fl d(2)] .
  qed (fact fl log e(1-3) e(5) e(7-8) | simp only: e(4,6) d(4) client_log_simps)+
qed

lemma do_read_commutes:
  assumes "client_ok c"
  shows "commutes c (client_do_read c) (do_read (conn_of c))"
  using assms
proof (cases rule: line_read)
  case (fails x)
  then show ?thesis by (simp add: commutes_def client_do_read_def do_read_def)
next
  case (line d l cr r lf f e b)
  obtain g where g: "eat_line lf e = Ok g" "client_ok g" "size_bytes g = size_bytes e"
    "conn_of g = (conn_of e)\<lparr>buf := drop (Suc lf) (buf (conn_of e))\<rparr>"
    using eat_line_conn [OF line(6,7)] .
  have "client_do_read c = Ok g" using line(3-5) g(1) by (simp add: client_do_read_def)
  moreover have "do_read (conn_of c) = Ok (conn_of g)"
    using g(4) line(1,2,13,14) by (simp add: do_read_def Let_def)
  ultimately show ?thesis using g(2,3) line(8) by (simp add: commutes_def)
qed

lemma log_text_drop:
  "(log_text p t q c)\<lparr>buf := r\<rparr> = log_text p t q (c\<lparr>buf := r\<rparr>)"
  by (simp add: log_text_def)

lemma expect_commutes:
  assumes "client_ok c" and "length (c_str data) < size_bytes c"
  shows "commutes c (client_expect_to_read data c) (rbind (expect_to_read data (conn_of c)) (\<lambda>p. Ok (snd p)))"
  using assms(1)
proof (cases rule: line_read)
  case (fails x)
  then show ?thesis by (simp add: commutes_def client_expect_to_read_def expect_to_read_def)
next
  case (line d l cr r lf f e b)
  let ?ok = "matches (c_str data) (c_str l)"
  have cmp: "compare_line e (c_str data) 0 = Ok ?ok"
    using compare_line_Some [OF line(9), of 0 "c_str data"] line(10-12) assms(2) by simp
  define p where "p = (if ?ok then if cr then '' [OK]'' @ [LF] else '' [Terminated by LF, not by CRLF]'' @ [LF]
    else '' [Expected: '' @ [CHR 0x27])"
  define t where "t = (if ?ok then [] else c_str data)"
  define q where "q = (if ?ok then [] else CHR 0x27 # '']'' @ [LF])"
  have k: "client_ok (client_log p t q e)" "lf < bytes_in_buffer (client_log p t q e)" using line(6,7) by simp_all
  obtain g where g: "eat_line lf (client_log p t q e) = Ok g" "client_ok g" "size_bytes g = size_bytes e"
    "conn_of g = (log_text p t q (conn_of e))\<lparr>buf := drop (Suc lf) (buf (conn_of e))\<rparr>"
    using eat_line_conn [OF k] by (metis client_log_simps(3) conn_of_log log_text_simps(1))
  have "client_expect_to_read data c = eat_line lf (client_log p t q e)"
    using line(3-5) cmp by (simp add: client_expect_to_read_def Let_def p_def t_def q_def)
  moreover have "rbind (expect_to_read data (conn_of c)) (\<lambda>p. Ok (snd p)) = Ok (conn_of g)"
    using line(1,2) unfolding g(4) log_text_drop line(13)
    by (simp add: expect_to_read_def Let_def p_def t_def q_def flip: log_text_drop)
  ultimately show ?thesis using g(1-3) line(8) by (simp add: commutes_def)
qed

text \<open>A read behind the bytes in use, with the whole content afterwards.\<close>

lemma read_whole:
  assumes "client_ok c" and "read_some (size_bytes c - bytes_in_buffer c) (conn_of c) = (s, y)"
  obtains e b where "read_into c = Ok (int (length s), e)" "block e = Some b" "length b = size_bytes e"
    "bytes_in_buffer e = bytes_in_buffer c" "size_bytes e = size_bytes c" "bytes_in_buffer c + length s \<le> length b"
    "take (bytes_in_buffer c + length s) b = buf (conn_of c) @ s" "conn_of e = y"
    "client_ok e"
proof -
  obtain e where e: "read_into c = Ok (int (length s), e)"
    "client_ok (e\<lparr>bytes_in_buffer := bytes_in_buffer c + length s\<rparr>)" "client_ok e" "conn_of e = y"
    "conn_of (e\<lparr>bytes_in_buffer := bytes_in_buffer c + length s\<rparr>) = y\<lparr>buf := buf (conn_of c) @ s\<rparr>"
    using read_into_conn [OF assms] .
  obtain b where b: "block e = Some b" "length b = size_bytes e" "bytes_in_buffer c + length s \<le> size_bytes e"
    using e(2) by (auto simp: client_ok_def)
  have k: "bytes_in_buffer e = bytes_in_buffer c" "size_bytes e = size_bytes c" using read_into_keeps [OF e(1)] by simp_all
  have w: "take (bytes_in_buffer c + length s) b = buf (conn_of c) @ s"
    using arg_cong [OF e(5), of buf] b(1) by (simp add: conn_of_def)
  show ?thesis using e(1,3,4) b k w by (intro that [of e b]) simp_all
qed

lemma conn_of_empty [simp]: "conn_of (c\<lparr>bytes_in_buffer := 0\<rparr>) = (conn_of c)\<lparr>buf := []\<rparr>"
  by (simp add: conn_of_def)

lemma client_ok_empty [simp]: "client_ok c \<Longrightarrow> client_ok (c\<lparr>bytes_in_buffer := 0\<rparr>)"
  by (simp add: client_ok_def)

lemma log_text_bytes:
  "(log_text p t q (conn_of (c\<lparr>bytes_in_buffer := n\<rparr>)))\<lparr>buf := s\<rparr> = (log_text p t q (conn_of c))\<lparr>buf := s\<rparr>"
  by (simp add: conn_of_def log_text_def)

lemma no_more_data_commutes:
  assumes "client_ok c"
  shows "commutes c (client_no_more_data c) (Ok (expect_no_more_data (conn_of c)))"
proof -
  obtain s y where r: "read_some (size_bytes c - bytes_in_buffer c) (conn_of c) = (s, y)" by fastforce
  obtain e b where e: "read_into c = Ok (int (length s), e)" "block e = Some b" "length b = size_bytes e"
    "bytes_in_buffer e = bytes_in_buffer c" "size_bytes e = size_bytes c" "bytes_in_buffer c + length s \<le> length b"
    "take (bytes_in_buffer c + length s) b = buf (conn_of c) @ s" "conn_of e = y" "client_ok e"
    using read_whole [OF assms r] by metis
  let ?n = "bytes_in_buffer c + length s"
  have len: "length (buf (conn_of c)) = bytes_in_buffer c" using assms by (auto simp: client_ok_def)
  have z: "client_no_more_data c =
      (if 0 < ?n then Ok (client_log ''S: '' (buf (conn_of c) @ s)
          ('' [unexpected; server should not have sent anything!]'' @ [LF]) (e\<lparr>bytes_in_buffer := ?n\<rparr>)\<lparr>bytes_in_buffer := 0\<rparr>)
       else Ok (e\<lparr>bytes_in_buffer := ?n\<rparr>))"
    using e by (simp add: client_no_more_data_def Let_def)
  have ok: "client_ok (e\<lparr>bytes_in_buffer := ?n\<rparr>)" using e by (auto simp: client_ok_def)
  show ?thesis
  proof (cases "?n = 0")
    case True
    then have "e\<lparr>bytes_in_buffer := 0\<rparr> = e" using e(4) by simp
    then have "client_no_more_data c = Ok e" using True z by simp
    then show ?thesis using True len r e by (simp add: commutes_def expect_no_more_data_def)
  next
    case False
    then have "buf (conn_of c) @ s \<noteq> []" using len by (metis append_is_Nil_conv length_append length_0_conv)
    then show ?thesis
      using False z len r e ok by (simp add: commutes_def expect_no_more_data_def log_text_bytes) blast
  qed
qed

lemma remote_close_commutes:
  assumes "client_ok c"
  shows "commutes c (client_remote_close c) (Ok (expect_remote_close (conn_of c)))"
proof -
  obtain s y where r: "read_some (size_bytes c - bytes_in_buffer c) (conn_of c) = (s, y)" by fastforce
  obtain e b where e: "read_into c = Ok (int (length s), e)" "block e = Some b" "length b = size_bytes e"
    "bytes_in_buffer e = bytes_in_buffer c" "size_bytes e = size_bytes c" "bytes_in_buffer c + length s \<le> length b"
    "take (bytes_in_buffer c + length s) b = buf (conn_of c) @ s" "conn_of e = y" "client_ok e"
    using read_whole [OF assms r] by metis
  have len: "length (buf (conn_of c)) = bytes_in_buffer c" using assms by (auto simp: client_ok_def)
  show ?thesis
    using e len r by (cases "s = []")
      (simp_all add: commutes_def client_remote_close_def expect_remote_close_def add.commute)
qed

section \<open>Sequences of calls\<close>

datatype conn_op =
    Write_String string
  | Expect_To_Read string
  | Do_Read
  | Expect_No_More_Data
  | Expect_Remote_Close

fun client_call :: "conn_op \<Rightarrow> client_conn \<Rightarrow> client_conn res" where
  "client_call (Write_String s) c = client_write_string s c"
| "client_call (Expect_To_Read s) c = client_expect_to_read s c"
| "client_call Do_Read c = client_do_read c"
| "client_call Expect_No_More_Data c = client_no_more_data c"
| "client_call Expect_Remote_Close c = client_remote_close c"

fun conn_call :: "conn_op \<Rightarrow> connection \<Rightarrow> connection res" where
  "conn_call (Write_String s) c = Ok (write_string s c)"
| "conn_call (Expect_To_Read s) c = rbind (expect_to_read s c) (\<lambda>p. Ok (snd p))"
| "conn_call Do_Read c = do_read c"
| "conn_call Expect_No_More_Data c = Ok (expect_no_more_data c)"
| "conn_call Expect_Remote_Close c = Ok (expect_remote_close c)"

text \<open>The text that is expected is shorter than the buffer.\<close>

fun call_fits :: "nat \<Rightarrow> conn_op \<Rightarrow> bool" where
  "call_fits sz (Expect_To_Read s) \<longleftrightarrow> length (c_str s) < sz"
| "call_fits sz _ \<longleftrightarrow> True"

lemma client_call_commutes:
  "client_ok c \<Longrightarrow> call_fits (size_bytes c) k \<Longrightarrow> commutes c (client_call k c) (conn_call k (conn_of c))"
  by (cases k) (simp_all add: write_commutes do_read_commutes expect_commutes
      no_more_data_commutes remote_close_commutes)

interpretation client: data_refinement conn_of client_ok "\<lambda>k c. call_fits (size_bytes c) k" client_call conn_call
proof
  fix c k d and t :: client_conn
  assume c: "client_ok c" "call_fits (size_bytes c) k"
  note m = client_call_commutes [OF c]
  show "rbind (client_call k c) (\<lambda>t. Ok (conn_of t)) = conn_call k (conn_of c)"
    using m by (cases "client_call k c") (simp_all add: commutes_def)
  assume t: "client_call k c = Ok t"
  then show "client_ok t" using m by (simp add: commutes_def)
  assume "call_fits (size_bytes c) d"
  then show "call_fits (size_bytes t) d" using m t by (simp add: commutes_def)
qed

definition start_client :: "nat \<Rightarrow> string \<Rightarrow> int \<Rightarrow> string list \<Rightarrow> int list \<Rightarrow> client_conn res" where
  "start_client sz junk sock reads writes =
     rbind (initialize_client sz (Some junk)) (connect_to_port sock True (map Some reads) writes)"

text \<open>C18: Whatever the block from malloc contains and however reads and writes are split, every
  sequence of calls of the connection (writing, reading a line, comparing it, expecting no more data
  or the end) does on the block of memory exactly what the connection as a list of bytes says, its
  failures included, as long as each expected text is shorter than the block.\<close>

theorem client_conn_refines:
  assumes "length junk = sz" and "0 \<le> sock" and "\<forall>w \<in> set writes. 0 < w" and "\<forall>k \<in> set calls. call_fits sz k"
  shows "rbind (start_client sz junk sock reads writes) (\<lambda>c.
      rbind (foldr_res client_call calls c) (\<lambda>d. Ok (conn_of d))) =
    foldr_res conn_call calls (initialize_buffers sz reads)"
proof -
  obtain c where c: "start_client sz junk sock reads writes = Ok c" "client_ok c"
    "conn_of c = initialize_buffers sz reads" "size_bytes c = sz"
    using assms by (auto simp: start_client_def initialize_client_def connect_to_port_def client_ok_def
        conn_of_def initialize_buffers_def comp_def)
  have "rbind (foldr_res client_call calls c) (\<lambda>d. Ok (conn_of d)) = foldr_res conn_call calls (conn_of c)"
    using c(2,4) assms(4) by (intro client.calls_spec) simp_all
  then show ?thesis using c by simp
qed

text \<open>A text with one character more than the line, when the line feed is the last byte of the block.\<close>

lemma compare_past_block:
  "rbind (start_client 2 ''zz'' 3 [[CHR ''a'', LF]] []) (client_expect_to_read ''ab'') = Fail Undefined"
  by code_simp

theorem client_conn_refines_witness:
  "rbind (start_client 8 ''????????'' 3 [''ab'', [CR], [LF, CHR ''c''], [LF]] [1, 2]) (\<lambda>c.
      rbind (foldr_res client_call [Write_String ''hi'', Expect_To_Read ''a*'', Do_Read, Expect_Remote_Close] c)
        (\<lambda>d. Ok (conn_of d))) =
    foldr_res conn_call [Write_String ''hi'', Expect_To_Read ''a*'', Do_Read, Expect_Remote_Close]
      (initialize_buffers 8 [''ab'', [CR], [LF, CHR ''c''], [LF]])"
  by (rule client_conn_refines) (simp_all add: c_str_def)

end
