(* ===== verification/KV_Process.thy ===== *)
theory KV_Process
  imports KV_Safe KV_Start
begin

text \<open>
  What is left of \<open>kvstore/kvstore.cc\<close>: the buffer helpers at the level of their bytes, the socket the
  process listens on, and the thread that takes the checkpoints.

  \<^item> A \<open>char *\<close> is the text from the pointer to the end of its block, so an access behind the last byte
    is undefined. What \<open>new\<close> returns has any content, a parameter of the length asked for.
  \<^item> \<open>tolower\<close> is called by \<open>parse_command\<close>; \<open>merge_buffer\<close>, \<open>update_buffer\<close> and
    \<open>store_incomplete_line\<close> are called nowhere.
  \<^item> \<open>socket\<close>, \<open>bind\<close> and the clock are the system's: their results are parameters.
\<close>

section \<open>C strings in a block\<close>

definition strcpy :: "string \<Rightarrow> string \<Rightarrow> string res" where
  "strcpy dst src =
     (if NUL \<in> set src \<and> length (c_str src) < length dst
      then Ok (c_str src @ NUL # drop (Suc (length (c_str src))) dst) else Fail Undefined)"

definition strncpy :: "string \<Rightarrow> string \<Rightarrow> nat \<Rightarrow> string res" where
  "strncpy dst src n =
     (if (NUL \<in> set src \<or> n \<le> length src) \<and> n \<le> length dst
      then Ok (take n (c_str src @ replicate n NUL) @ drop n dst) else Fail Undefined)"

definition put_char :: "nat \<Rightarrow> char \<Rightarrow> string \<Rightarrow> string res" where
  "put_char i c b = (if i < length b then Ok (b[i := c]) else Fail Undefined)"

definition pointer_add :: "string \<Rightarrow> nat \<Rightarrow> string res" where
  "pointer_add b i = (if i \<le> length b then Ok (drop i b) else Fail Undefined)"

text \<open>The loop that lowers a string in place.\<close>

function tolower_loop :: "nat \<Rightarrow> string \<Rightarrow> string res" where
  "tolower_loop i buffer =
     (if i < length buffer then
        if buffer ! i = NUL then Ok buffer else tolower_loop (Suc i) (buffer[i := lower (buffer ! i)])
      else Fail Undefined)"
  by auto
termination by (relation "measure (\<lambda>(i, b). length b - i)") auto

definition tolower_buffer :: "string \<Rightarrow> string res" where
  "tolower_buffer buffer = tolower_loop 0 buffer"

text \<open>The loop that counts the bytes in front of the terminator.\<close>

function count_loop :: "nat \<Rightarrow> string \<Rightarrow> nat res" where
  "count_loop i buffer =
     (if i < length buffer then if buffer ! i = NUL then Ok i else count_loop (Suc i) buffer
      else Fail Undefined)"
  by auto
termination by (relation "measure (\<lambda>(i, b). length b - i)") auto

function merge_loop :: "nat \<Rightarrow> nat \<Rightarrow> string \<Rightarrow> string \<Rightarrow> string res" where
  "merge_loop temp_buf_size i buffer new_buffer =
     (if i < length buffer then
        if buffer ! i = NUL then Ok new_buffer
        else rbind (put_char (temp_buf_size + i) (buffer ! i) new_buffer) (merge_loop temp_buf_size (Suc i) buffer)
      else Fail Undefined)"
  by pat_completeness auto
termination by (relation "measure (\<lambda>(n, i, b, d). length b - i)") auto

declare tolower_loop.simps [simp del] count_loop.simps [simp del] merge_loop.simps [simp del]

text \<open>\<open>junk\<close> is the block of 1024 bytes from \<open>new\<close>; the result is the content of \<open>buffer\<close>.\<close>

definition merge_buffer :: "string \<Rightarrow> nat \<Rightarrow> string \<Rightarrow> string \<Rightarrow> string res" where
  "merge_buffer junk temp_buf_size buffer temp_buffer =
     (if temp_buf_size > 0 then
        rbind (strcpy junk temp_buffer) (\<lambda>new_buffer.
        rbind (merge_loop temp_buf_size 0 buffer new_buffer) (strcpy buffer))
      else Ok buffer)"

text \<open>The result is \<open>buffer\<close> and \<open>temp_buffer\<close>; the second copy reads behind the first one.\<close>

definition update_buffer :: "string \<Rightarrow> string \<Rightarrow> nat \<Rightarrow> nat \<Rightarrow> string \<Rightarrow> (string \<times> string) res" where
  "update_buffer junk1 junk2 temp_buf_size index buffer =
     rbind (rbind (pointer_add buffer (index + 2)) (\<lambda>p. strncpy junk1 p temp_buf_size)) (\<lambda>t.
     rbind (put_char temp_buf_size NUL t) (\<lambda>buffer.
     rbind (rbind (pointer_add buffer (index + 2)) (\<lambda>p. strncpy junk2 p temp_buf_size)) (\<lambda>t.
     rbind (put_char temp_buf_size NUL t) (\<lambda>temp_buffer.
     Ok (buffer, temp_buffer)))))"

definition store_incomplete_line :: "(nat \<Rightarrow> string) \<Rightarrow> string \<Rightarrow> string res" where
  "store_incomplete_line junk buffer =
     rbind (count_loop 0 buffer) (\<lambda>temp_buf_size.
     rbind (strncpy (junk (temp_buf_size + 1)) buffer temp_buf_size) (put_char temp_buf_size NUL))"

section \<open>Listening, and the checkpoints\<close>

definition open_listener :: "int \<Rightarrow> int \<Rightarrow> int res" where
  "open_listener listen_fd ret =
     (if listen_fd < 0 then Fail (Exit 1) else if ret < 0 then Fail (Exit (- 1)) else Ok listen_fd)"

text \<open>The thread that sleeps and takes a checkpoint, for a number of rounds.\<close>

fun cp_worker :: "nat \<Rightarrow> kv \<Rightarrow> kv res" where
  "cp_worker 0 s = Ok s"
| "cp_worker (Suc k) s = rbind (checkpointing s) (cp_worker k)"

section \<open>What the helpers do\<close>

lemma tolower_loop_text:
  "NUL \<notin> set s \<Longrightarrow> tolower_loop (length p) (p @ s @ NUL # r) = Ok (p @ map lower s @ NUL # r)"
proof (induction s arbitrary: p)
  case Nil
  then show ?case by (simp add: tolower_loop.simps [of "length p"] nth_append)
next
  case (Cons x s)
  have "tolower_loop (length p) (p @ (x # s) @ NUL # r) = tolower_loop (length (p @ [lower x])) ((p @ [lower x]) @ s @ NUL # r)"
    using Cons.prems by (subst tolower_loop.simps) (auto simp: nth_append list_update_append)
  also have "\<dots> = Ok ((p @ [lower x]) @ map lower s @ NUL # r)"
    using Cons.prems by (intro Cons.IH) simp
  finally show ?case by simp
qed

lemma count_loop_text: "NUL \<notin> set s \<Longrightarrow> count_loop (length p) (p @ s @ NUL # r) = Ok (length p + length s)"
proof (induction s arbitrary: p)
  case Nil
  then show ?case by (simp add: count_loop.simps [of "length p"] nth_append)
next
  case (Cons x s)
  have "count_loop (length p) (p @ (x # s) @ NUL # r) = count_loop (length (p @ [x])) ((p @ [x]) @ s @ NUL # r)"
    using Cons.prems by (subst count_loop.simps) (auto simp: nth_append)
  also have "\<dots> = Ok (length (p @ [x]) + length s)" using Cons.prems by (intro Cons.IH) simp
  finally show ?case by simp
qed

lemma c_str_append: "NUL \<notin> set w \<Longrightarrow> c_str (w @ r) = w @ c_str r"
  by (induction w) (auto simp: c_str_def)

lemma c_str_end: "c_str (w @ NUL # r) = c_str w"
  by (induction w) (auto simp: c_str_def)

lemma c_str_zeros: "c_str (replicate n NUL) = []"
  by (cases n) (simp_all add: c_str_def)

text \<open>A copy of \<open>n\<close> bytes with the terminator the code writes behind them.\<close>

lemma strncpy_terminated:
  assumes "n < length junk" and "NUL \<in> set src \<or> n \<le> length src"
  shows "rbind (strncpy junk src n) (put_char n NUL) =
    Ok (take n (c_str src @ replicate n NUL) @ NUL # drop (Suc n) junk)"
proof -
  have put: "put_char n NUL (w @ drop n junk) = Ok (w @ NUL # drop (Suc n) junk)" if "length w = n" for w
    using assms(1) that Cons_nth_drop_Suc [of n junk, symmetric] by (simp add: put_char_def list_update_append)
  have "strncpy junk src n = Ok (take n (c_str src @ replicate n NUL) @ drop n junk)"
    using assms by (simp only: strncpy_def) simp
  moreover have "length (take n (c_str src @ replicate n NUL)) = n" by simp
  ultimately show ?thesis using put by (simp del: take_append)
qed

text \<open>The word of a command, copied and lowered, is the one of \<open>parse_command\<close>.\<close>

lemma word_lowered:
  assumes "NUL \<notin> set w" and "length junk = Suc (length w)"
  shows "rbind (rbind (strncpy junk (w @ r) (length w)) (put_char (length w) NUL)) tolower_buffer =
    Ok (map lower w @ [NUL])"
proof -
  have "rbind (strncpy junk (w @ r) (length w)) (put_char (length w) NUL) = Ok (w @ [NUL])"
    using assms by (subst strncpy_terminated) (simp_all add: c_str_append)
  then show ?thesis using tolower_loop_text [OF assms(1), of "[]" "[]"] by (simp add: tolower_buffer_def)
qed

lemma incomplete_line_stored:
  assumes "NUL \<notin> set s" and "\<And>n. length (junk n) = n"
  shows "store_incomplete_line junk (s @ NUL # r) = Ok (s @ [NUL])"
proof -
  have "count_loop 0 (s @ NUL # r) = Ok (length s)" using count_loop_text [OF assms(1), of "[]" r] by simp
  moreover have "rbind (strncpy (junk (Suc (length s))) (s @ NUL # r) (length s)) (put_char (length s) NUL) = Ok (s @ [NUL])"
    using assms by (subst strncpy_terminated) (simp_all add: c_str_append)
  ultimately show ?thesis by (simp add: store_incomplete_line_def)
qed

text \<open>\<open>update_buffer\<close> means to keep the bytes behind a line in both buffers, and skips the length of
  the line once more in the second.\<close>

lemma update_buffer_skips_twice:
  assumes "NUL \<notin> set r" and "length p = index + 2" and "length r < 1024" and "index + 2 \<le> length r"
    and "length junk1 = 1024" and "length junk2 = length r + 1"
  shows "\<exists>b t. update_buffer junk1 junk2 (length r) index (p @ r @ NUL # q) = Ok (b, t) \<and>
    c_str b = r \<and> c_str t = drop (index + 2) r"
proof -
  let ?b = "r @ NUL # drop (Suc (length r)) junk1"
  have first: "rbind (strncpy junk1 (r @ NUL # q) (length r)) (put_char (length r) NUL) = Ok ?b"
    using assms by (subst strncpy_terminated) (simp_all add: c_str_append)
  let ?r = "drop (index + 2) r"
  have d: "drop (index + 2) ?b = ?r @ NUL # drop (Suc (length r)) junk1" using assms(4) by simp
  have n: "NUL \<notin> set ?r" using assms(1) by (meson in_set_dropD)
  let ?t = "take (length r) (?r @ replicate (length r) NUL) @ NUL # drop (Suc (length r)) junk2"
  have second: "rbind (strncpy junk2 (drop (index + 2) ?b) (length r)) (put_char (length r) NUL) = Ok ?t"
    unfolding d using assms(6) n by (subst strncpy_terminated) (simp_all add: c_str_end c_str_id)
  have "update_buffer junk1 junk2 (length r) index (p @ r @ NUL # q) =
      rbind (rbind (strncpy junk1 (r @ NUL # q) (length r)) (put_char (length r) NUL)) (\<lambda>b.
      rbind (rbind (rbind (pointer_add b (index + 2)) (\<lambda>p. strncpy junk2 p (length r))) (put_char (length r) NUL))
        (\<lambda>t. Ok (b, t)))"
    using assms(2) by (simp add: update_buffer_def pointer_add_def rbind_assoc)
  also have "\<dots> = Ok (?b, ?t)"
    unfolding first using assms(4) second by (simp add: pointer_add_def del: drop_append)
  finally have u: "update_buffer junk1 junk2 (length r) index (p @ r @ NUL # q) = Ok (?b, ?t)" .
  have "c_str ?b = r" using assms(1) by (simp add: c_str_end c_str_id)
  moreover have "c_str ?t = ?r" using n by (simp add: c_str_append c_str_end c_str_zeros)
  ultimately show ?thesis using u by blast
qed

lemma merge_loop_text:
  "NUL \<notin> set s \<Longrightarrow> length x = n + length p \<Longrightarrow> length s \<le> length y \<Longrightarrow>
   merge_loop n (length p) (p @ s @ NUL # r) (x @ y) = Ok (x @ s @ drop (length s) y)"
proof (induction s arbitrary: p x y)
  case Nil
  then show ?case by (simp add: merge_loop.simps [of n "length p"] nth_append)
next
  case (Cons c s)
  obtain z zs where y: "y = z # zs" using Cons.prems(3) by (cases y) auto
  have "merge_loop n (length p) (p @ (c # s) @ NUL # r) (x @ y) =
      merge_loop n (length (p @ [c])) ((p @ [c]) @ s @ NUL # r) ((x @ [c]) @ zs)"
    using Cons.prems by (subst merge_loop.simps) (auto simp: nth_append list_update_append put_char_def y)
  also have "\<dots> = Ok ((x @ [c]) @ s @ drop (length s) zs)"
    using Cons.prems by (intro Cons.IH) (simp_all add: y)
  finally show ?case by (simp add: y)
qed

text \<open>\<open>merge_buffer\<close> puts the text of \<open>temp_buffer\<close> in front of the one of \<open>buffer\<close>, with no terminator:
  whatever \<open>new\<close> left behind it follows.\<close>

lemma merge_buffer_unterminated:
  assumes "NUL \<notin> set t" "NUL \<notin> set s" "t \<noteq> []" "s \<noteq> []" "length junk = 1024"
    and "length (t @ s) \<le> 1024" "NUL \<in> set (drop (length (t @ s)) junk)"
    and "length (t @ s @ c_str (drop (length (t @ s)) junk)) \<le> length (s @ r)"
  shows "\<exists>b. merge_buffer junk (length t) (s @ NUL # r) (t @ [NUL]) = Ok b \<and>
    c_str b = t @ s @ c_str (drop (length (t @ s)) junk)"
proof -
  have "length t < length junk" using assms(4-6) by (cases s) auto
  then have "strcpy junk (t @ [NUL]) = Ok (t @ NUL # drop (Suc (length t)) junk)"
    using assms(1) by (simp add: strcpy_def c_str_end c_str_id)
  moreover have "merge_loop (length t) (length []) ([] @ s @ NUL # r) (t @ NUL # drop (Suc (length t)) junk) =
      Ok (t @ s @ drop (length s) (NUL # drop (Suc (length t)) junk))"
    using merge_loop_text [of s t "length t" "[]" "NUL # drop (Suc (length t)) junk" r] assms(2,5,6) by simp
  moreover have "drop (length s) (NUL # drop (Suc (length t)) junk) = drop (length (t @ s)) junk"
    using assms(4) by (cases s) (simp_all add: add.commute)
  ultimately have "merge_buffer junk (length t) (s @ NUL # r) (t @ [NUL]) =
      strcpy (s @ NUL # r) (t @ s @ drop (length (t @ s)) junk)"
    using assms(3) by (simp add: merge_buffer_def)
  moreover have "c_str (t @ s @ drop (length (t @ s)) junk) = t @ s @ c_str (drop (length (t @ s)) junk)"
    using assms(1,2) by (simp add: c_str_append)
  ultimately show ?thesis
    using assms(1,2,7,8) by (simp add: strcpy_def c_str_end c_str_append c_str_id)
qed

section \<open>What the checkpoints keep\<close>

lemma cp_worker_steps: "cp_worker k s = Ok t \<Longrightarrow> node_step\<^sup>*\<^sup>* s t"
proof (induction k arbitrary: s)
  case (Suc k)
  then obtain u where "checkpointing s = Ok u" "cp_worker k u = Ok t" by (auto simp: rbind_eq_Ok)
  then show ?case using Suc.IH by (meson converse_rtranclp_into_rtranclp node_step.checkpoint)
qed simp

lemma cp_worker_wf: "kv_wf s \<Longrightarrow> cp_worker k s = Ok t \<Longrightarrow> kv_wf t"
  by (rule node.steps_ok [OF cp_worker_steps])

end
