(* ===== verification/KV_Resend.thy ===== *)
theory KV_Resend
  imports KV_Cluster Cluster_Examples
begin

text \<open>
  What a primary does when the secondary connects again (\<open>check_primary_holdback\<close> in
  \<open>kvstore/kvstore.cc\<close>): it sends every line whose report it has not read. The reports that were on
  their way are lost with the old connection, so the lines of these reports are sent to a secondary
  that has executed them, and \<open>ps_worker\<close> does not compare their numbers with those it has seen.
\<close>

section \<open>The lines that are sent again\<close>






lemma sent_frame [simp]: "files_of (s\<lparr>sent := x, secondary_fd := d\<rparr>) = files_of s"
  by (rule files_of_frame) simp_all


text \<open>The queues of a primary, as numbered commands.\<close>

lemma queues_of:
  assumes "queue_ok p xs"
  shows "primary_holdback p = map (\<lambda>(u, ys). (u, map entry_of ys)) (map (\<lambda>u. (u, of_user u xs)) (okeys (primary_holdback p)))"
proof -
  have "osorted (primary_holdback p)" "\<And>u. oget_def [] (primary_holdback p) u = map entry_of (of_user u xs)"
    using assms unfolding queue_ok_def by blast+
  moreover have "oget (primary_holdback p) u = Some ps" if "(u, ps) \<in> set (primary_holdback p)" for u ps
    using that calculation(1) by (simp add: osorted_def strict_sorted_iff)
  ultimately have "ps = map entry_of (of_user u xs)" if "(u, ps) \<in> set (primary_holdback p)" for u ps
    using that by (metis oget_def_def option.simps(5))
  then show ?thesis by (auto simp: okeys_def intro!: map_idI [symmetric])
qed


section \<open>They are executed again\<close>






end
