(* ===== verification/Front_Threads.thy ===== *)
theory Front_Threads
  imports Cpp_Map Steps
begin

text \<open>
  The accept loop of the front end and the threads it starts (\<open>main\<close> and \<open>client_handler\<close> in
  \<open>frontend/frontend.cc\<close>). A thread gets the address of the variable \<open>comm_fd\<close> and reads the
  descriptor through it when it runs, while the loop goes on to the next \<open>accept\<close>.

  \<^item> \<open>comm_fd\<close> is a local variable of the loop body; every round has it in the same place, \<open>slot\<close>,
    so a thread that is late reads what the last \<open>accept\<close> has returned, a negative number included.
  \<^item> \<open>accept\<close> returns a negative number or a descriptor that is not open in the process. \<open>running\<close> are
    the descriptors the threads have read and work on; what they do with it is \<open>client_handler\<close> in
    \<open>Front_Pages\<close>. The threads and the loop run in any order.
\<close>

section \<open>The loop and the threads\<close>

record acceptor =
  slot :: int
  started :: nat
  open_fds :: "int list"
  fds :: "int oset"
  running :: "int list"

definition no_clients :: acceptor where
  "no_clients = \<lparr>slot = 0, started = 0, open_fds = [], fds = [], running = []\<rparr>"

text \<open>One round of the loop.\<close>

definition on_accept :: "int \<Rightarrow> acceptor \<Rightarrow> acceptor" where
  "on_accept comm_fd s =
     (if comm_fd < 0 then s\<lparr>slot := comm_fd\<rparr>
      else s\<lparr>slot := comm_fd, fds := oset_add comm_fd (fds s), started := started s + 1,
             open_fds := comm_fd # open_fds s\<rparr>)"

text \<open>The begin of a thread, and its end.\<close>

definition begin_handler :: "acceptor \<Rightarrow> acceptor" where
  "begin_handler s = s\<lparr>started := started s - 1, running := slot s # running s\<rparr>"

definition end_handler :: "int \<Rightarrow> acceptor \<Rightarrow> acceptor" where
  "end_handler fd s =
     s\<lparr>running := remove1 fd (running s), fds := odel fd (fds s), open_fds := removeAll fd (open_fds s)\<rparr>"

inductive accept_step :: "acceptor \<Rightarrow> acceptor \<Rightarrow> bool" where
  round: "fd \<notin> set (open_fds s) \<Longrightarrow> accept_step s (on_accept fd s)"
| begins: "0 < started s \<Longrightarrow> accept_step s (begin_handler s)"
| ends: "fd \<in> set (running s) \<Longrightarrow> accept_step s (end_handler fd s)"

inductive_cases accept_stepE [consumes 1, case_names round begins ends]: "accept_step s t"

section \<open>A connection that is overtaken\<close>

text \<open>A descriptor that is open, that no thread works on, and that no thread will find.\<close>

definition leaked :: "int \<Rightarrow> acceptor \<Rightarrow> bool" where
  "leaked fd s \<longleftrightarrow> 0 \<le> fd \<and> fd \<in> set (open_fds s) \<and> fd \<notin> set (running s) \<and> slot s \<noteq> fd"

interpretation leak: invariant_steps accept_step "leaked fd" for fd
proof
  fix s t assume l: "leaked fd s" and "accept_step s t"
  from this(2) show "leaked fd t"
  proof (cases rule: accept_stepE)
    case (round fd')
    then show ?thesis using l by (auto simp: leaked_def on_accept_def)
  next
    case begins
    then show ?thesis using l by (auto simp: leaked_def begin_handler_def)
  next
    case (ends fd')
    then have "fd' \<noteq> fd" using l by (auto simp: leaked_def)
    then show ?thesis using ends l by (auto simp: leaked_def end_handler_def dest: in_set_remove1)
  qed
qed

text \<open>Between two rounds of the loop threads may end.\<close>

definition end_step :: "acceptor \<Rightarrow> acceptor \<Rightarrow> bool" where
  "end_step s t \<longleftrightarrow> (\<exists>fd \<in> set (running s). t = end_handler fd s)"

lemma ends_keep:
  "end_step\<^sup>*\<^sup>* s t \<Longrightarrow> fd \<in> set (open_fds s) \<Longrightarrow> fd \<notin> set (running s) \<Longrightarrow>
    fd \<in> set (open_fds t) \<and> fd \<notin> set (running t)"
  by (induction rule: rtranclp_induct) (auto simp: end_step_def end_handler_def dest: in_set_remove1)

text \<open>C40: When accept returns a descriptor that no running thread works on, and returns the next one
  before any thread has begun, then the first connection is never served and never closed, in
  whatever order the loop and the threads go on: every thread that begins later reads the newer
  descriptor.\<close>

theorem overtaken_connection_leaks:
  assumes "0 \<le> fd" and "fd \<notin> set (running s)" and "end_step\<^sup>*\<^sup>* (on_accept fd s) m" and "fd' \<noteq> fd"
    and "accept_step\<^sup>*\<^sup>* (on_accept fd' m) t"
  shows "fd \<in> set (open_fds t) \<and> fd \<notin> set (running t)"
proof -
  have "fd \<in> set (open_fds m) \<and> fd \<notin> set (running m)"
    using assms(1,2) by (intro ends_keep [OF assms(3)]) (simp_all add: on_accept_def)
  then have "leaked fd (on_accept fd' m)" using assms(1,4) by (auto simp: leaked_def on_accept_def)
  then show ?thesis using leak.steps_ok [OF assms(5)] by (auto simp: leaked_def)
qed

theorem overtaken_connection_leaks_witness:
  "\<exists>t. accept_step\<^sup>*\<^sup>* no_clients t \<and> started t = 0 \<and> running t = [5, 5] \<and>
     4 \<in> set (open_fds t) \<and> 4 \<notin> set (running t)"
proof -
  let ?s = "on_accept 5 (on_accept 4 no_clients)"
  let ?t = "begin_handler (begin_handler ?s)"
  have two: "accept_step no_clients (on_accept 4 no_clients)" "accept_step (on_accept 4 no_clients) ?s"
    by (rule accept_step.round, simp add: no_clients_def on_accept_def)+
  have threads: "accept_step ?s (begin_handler ?s)" "accept_step (begin_handler ?s) ?t"
    by (rule accept_step.begins, simp add: no_clients_def on_accept_def begin_handler_def)+
  have late: "accept_step\<^sup>*\<^sup>* ?s ?t" using threads by (meson r_into_rtranclp rtranclp.rtrancl_into_rtrancl)
  then have "accept_step\<^sup>*\<^sup>* no_clients ?t" using two by (meson converse_rtranclp_into_rtranclp)
  moreover have "running ?t = [5, 5]" "started ?t = 0"
    by (simp_all add: no_clients_def on_accept_def begin_handler_def)
  moreover have "4 \<in> set (open_fds ?t) \<and> 4 \<notin> set (running ?t)"
    by (rule overtaken_connection_leaks [OF _ _ rtranclp.rtrancl_refl _ late]) (simp_all add: no_clients_def)
  ultimately show ?thesis by blast
qed

section \<open>A loop that waits\<close>

text \<open>The steps when every thread has read its descriptor before \<open>accept\<close> returns again.\<close>

inductive calm_step :: "acceptor \<Rightarrow> acceptor \<Rightarrow> bool" where
  round: "started s = 0 \<Longrightarrow> fd \<notin> set (open_fds s) \<Longrightarrow> calm_step s (on_accept fd s)"
| begins: "0 < started s \<Longrightarrow> calm_step s (begin_handler s)"
| ends: "fd \<in> set (running s) \<Longrightarrow> calm_step s (end_handler fd s)"

inductive_cases calm_stepE [consumes 1, case_names round begins ends]: "calm_step s t"

lemma calm_is_accept: "calm_step s t \<Longrightarrow> accept_step s t"
  by (auto elim!: calm_stepE intro: accept_step.intros)

definition served :: "acceptor \<Rightarrow> bool" where
  "served s \<longleftrightarrow>
     started s \<le> 1 \<and> distinct (running s) \<and> (started s = 1 \<longrightarrow> slot s \<notin> set (running s)) \<and>
     set (open_fds s) = set (running s) \<union> (if started s = 1 then {slot s} else {}) \<and>
     osorted (fds s) \<and> set (oset_list (fds s)) = set (open_fds s)"

interpretation calm: invariant_steps calm_step served
proof
  fix s t assume l: "served s" and "calm_step s t"
  from this(2) show "served t"
  proof (cases rule: calm_stepE)
    case (round fd)
    then show ?thesis using l by (auto simp: served_def on_accept_def)
  next
    case begins
    then have "started s = 1" using l by (simp add: served_def)
    then show ?thesis using begins l by (auto simp: served_def begin_handler_def)
  next
    case (ends fd)
    then show ?thesis using l by (auto simp: served_def end_handler_def)
  qed
qed

text \<open>Then each open connection has exactly one thread, and the sets agree.\<close>

lemma calm_connections_served:
  assumes "calm_step\<^sup>*\<^sup>* no_clients t" and "started t = 0"
  shows "set (running t) = set (open_fds t)" "distinct (running t)" "set (oset_list (fds t)) = set (open_fds t)"
proof -
  have "served no_clients" by (simp add: served_def no_clients_def okeys_def)
  then have "served t" using calm.steps_ok [OF assms(1)] by blast
  then show "set (running t) = set (open_fds t)" "distinct (running t)" "set (oset_list (fds t)) = set (open_fds t)"
    using assms(2) by (simp_all add: served_def)
qed

end
