(* ===== verification/Spec2Isabelle.thy ===== *)
theory Spec2Isabelle
  imports KV_Examples Cluster_Examples Master_Examples System_Examples Service_Examples
    Server_Watch Front_Parse Restart_Examples KV_Safe Migration_Examples
    Start_Examples Socket_IO KV_Threads Mail_Dns Mail_Process Client_Conn KV_Process KV_Resend Front_Threads
begin

text \<open>
  PennCloud: a web mail and file service on a replicated key-value store. This development models
  the C++ programs under \<open>src/\<close> and proves what makes them correct, or shows where they are not.

  \<^bold>\<open>The program.\<close> A browser talks to the load balancer (\<open>frontend/load_balancer.cc\<close>), which redirects
  it to one of the front ends (\<open>frontend/frontend.cc\<close>, \<open>request.cc\<close>, \<open>response.cc\<close>). A front end keeps
  no data: it asks the master (\<open>master/master.cc\<close>, \<open>conhash.cc\<close>) over UDP which storage node holds a
  user and sends one request line to that node (\<open>frontend/store.cc\<close>). A storage node
  (\<open>kvstore/kvstore.cc\<close>) is a pair of machines; the primary executes the request, logs it and copies
  it to the secondary (\<open>kvstore/chunkserver.cc\<close>), and keeps the rows in a cache with a memory budget
  (\<open>kvstore/lrucache.cc\<close>) which evicts users to chunk files. Mail is sent through the mail server
  (\<open>webmail/webmail_server.cc\<close>, \<open>webmail_utils.cc\<close>), which stores it in the same store.

  \<^bold>\<open>The theories.\<close>
  \<^item> \<open>Prelude\<close>: failures as values (\<open>res\<close>, \<open>rbind\<close>), 32-bit arithmetic, the rule collections
    \<open>res_simps\<close> and \<open>wf_intros\<close>. \<open>Cpp_Map\<close>: \<open>std::map\<close> as an association list in the order of its keys
    (locale \<open>ordered_map\<close>, interpreted on its operations). \<open>Cpp_String\<close>: \<open>std::string\<close> and C strings.
  \<^item> The cache: \<open>KV_Tools\<close> (files, the binary codec), \<open>KV_State\<close> (the state of a node),
    \<open>KV_List\<close> (the doubly linked recency list in a heap of nodes), \<open>KV_Chunk\<close> (rows on disk and their
    metadata), \<open>KV_Lru\<close> (eviction, reload and the seven commands, as \<open>lrucache.cc\<close> has them).
    \<open>KV_Lru_Props\<close> has the well-formedness invariant \<open>kv_wf\<close> and the abstraction \<open>files_of\<close>;
    \<open>KV_Lru_Spec\<close> the abstract specification and one refinement lemma per command; \<open>KV_Trace\<close> lifts
    it to runs of requests; \<open>KV_Store\<close> is the interface of a store whose \<open>put\<close> appends to a file (locale
    \<open>append_store\<close>), \<open>KV_Evict\<close> interprets it on the cache and proves eviction and reload;
    \<open>KV_Pressure\<close> proves that the eviction loop of a \<open>put\<close> ends, and which users it evicts;
    \<open>KV_Workload\<close> repeats this for any number of new users: none is lost, in memory or in its row;
    \<open>KV_Order\<close> has the recency order, and where the code loses it.
  \<^item> The storage server: \<open>KV_Chunkserver\<close> (request lines, log, metadata files, checkpoints, migration),
    \<open>KV_Server\<close> (start-up, identity, the worker threads, the messages between the replicas),
    \<open>KV_Protocol\<close> (the wire format, recovery from the log, agreement of the replicas).
    \<open>Steps\<close> has the interfaces of a step relation with an invariant and with progress (locales
    \<open>invariant_steps\<close> and \<open>progressing_steps\<close>); \<open>KV_Cluster\<close> interprets them on the pair of machines of
    one node, with the messages between them in flight, and proves that the replicas agree, that the
    pair never gets stuck, and what a takeover finds. \<open>KV_Identity\<close> has the answer of the master as the
    new node reads it. \<open>KV_Safe\<close> interprets \<open>invariant_steps\<close> on one node: its tables stay well formed
    whatever it receives. \<open>KV_Resend\<close> has the lines a primary sends again when the secondary connects
    again, \<open>KV_Threads\<close> the table of the connections and what reads it, and \<open>KV_Process\<close> the buffer
    helpers at the level of their bytes, the listening socket and the thread of the checkpoints.
  \<^item> Checkpoints and restart: \<open>KV_Files\<close> (which paths an operation touches), \<open>KV_Metadata\<close> (the four
    metadata files are read back as they were written), \<open>KV_Checkpoint\<close> (what a checkpoint leaves on
    disk), \<open>KV_Restart\<close> (a new process on that disk), \<open>KV_Start\<close> (a node started as a new one),
    \<open>KV_Span\<close> (a row that does not fit into its chunk). \<open>Options\<close> has the command lines of all programs.
  \<^item> Migration: \<open>KV_Migration\<close> has the lists of files and the users a new node takes over, interprets
    \<open>append_store\<close> on what the new node receives, and shows where the hand-over goes wrong.
  \<^item> The master: \<open>Conhash\<close> (the ring) and \<open>Master\<close> (look-up, failover, registration; which keys and users a
    new node takes over).
  \<^item> The front end: \<open>Front_Utils\<close>, \<open>Front_Request\<close> (parsing), \<open>Front_Store\<close> (the storage client, users,
    sessions), \<open>Front_Response\<close> (login and files), \<open>Front_Pages\<close> (mail, admin console, the choice
    of the handler), \<open>Balancer\<close> (the load balancer and the server lists). \<open>Front_Parse\<close>: what a browser
    sends is what the front end reads; \<open>Front_Access\<close>: which requests open a session; \<open>Balancer_Props\<close>:
    which server the balancer chooses; \<open>Front_Threads\<close>: the accept loop of the front end and the threads it
    starts, in any order; \<open>Server_Watch\<close>: the checkers of the servers, and the balancer
    from its command line to the page a client gets. \<open>Socket_IO\<close>: the loops around \<open>read\<close> and \<open>write\<close>.
  \<^item> Mail: \<open>Mail_Conn\<close> (the buffered connection), \<open>Client_Conn\<close> (the same functions, which the code has
    twice, on the block of memory and its positions; every call commutes with the abstraction to
    \<open>Mail_Conn\<close>, by the interface \<open>data_refinement\<close> of the theory \<open>Refinement\<close>), \<open>Mail_Server\<close> (a session
    of the mail server), \<open>Mail_Process\<close> (its options and connections), \<open>Mail_Dns\<close> (how the host of a
    recipient is found), \<open>Mail_Digest\<close> (the key of a mail) and \<open>Mail_Queue\<close> (the program that empties
    the mail queue, and the test client).
  \<^item> The system: \<open>Store_Client\<close> is the interface of a store of rows behind \<open>send_to_backend\<close> (locale
    \<open>row_store\<close>), with login and registration proved over it, and \<open>Mail_Delivery\<close> adds the mails.
    \<open>Front_System\<close> composes the master and the storage nodes and interprets \<open>row_store\<close> on them;
    \<open>System_Theorems\<close> states what the whole system does for accounts and mails, \<open>Front_Files\<close> and
    \<open>System_Files\<close> what becomes of an uploaded file.
  \<^item> The theories \<open>KV_Examples\<close>, \<open>Cluster_Examples\<close>, \<open>Restart_Examples\<close>, \<open>Start_Examples\<close>,
    \<open>Migration_Examples\<close>, \<open>Master_Examples\<close>, \<open>System_Examples\<close> and \<open>Service_Examples\<close> apply the theorems
    to concrete states.

  \<^bold>\<open>Conventions.\<close> Every global variable and the file system are in an explicit state. A call that can
  throw, dereference null, divide by zero or run into undefined behaviour returns \<open>Fail\<close> of an error
  of its own. An \<open>int\<close> of the code is an \<open>int\<close> with the wrap-around written out (\<open>i32\<close>) where it can
  overflow. What the code reads from a socket is an argument, a list of reads where the partition
  matters; what it sends is appended to the state. Code outside \<open>src/\<close> is a parameter: whether a
  machine accepts a connection (\<open>alive\<close>), the clock, the message digest, the name service.

  \<^bold>\<open>Bounds and fuel.\<close> Loops that end are functions with a measure or structural recursion. The loops
  that may not end take fuel and fail with \<open>OutOfFuel\<close>: the eviction loop of \<open>put\<close> (one round per
  user in memory is enough, \<open>KV_Pressure\<close>; one unit suffices while the data fits, \<open>KV_Lru_Spec\<close>), the reload, which
  calls \<open>put\<close> again, the reply loop of the storage client (one more than the lines of the reply,
  \<open>read_reply_lines\<close>), and the worker threads, which wait for their peer for ever.

  \<^bold>\<open>Not modelled.\<close> The set-up of addresses and sockets beyond the results the code tests, locks, and
  output for debugging, which have no state the programs read again; code that is commented out,
  such as the \<open>main\<close> of \<open>admin_console.h\<close>; the file \<open>messageID\<close> of the mail server, which is never read.
  Threads of one process are modelled one message at a time, so that races between them are not
  covered, except for the descriptors that \<open>Front_Threads\<close> and \<open>KV_Threads\<close> are about. In \<open>Front_System\<close> a node is its primary; the pair of machines is \<open>KV_Cluster\<close>.
\<close>

end
